(* ===== verification/Prelude.thy ===== *)
theory Prelude
  imports "HOL-Library.Word"
begin

text \<open>
  Shared vocabulary of the development: the machine types of the 32-bit build
  (\<^verbatim>\<open>-m32\<close> in \<^verbatim>\<open>src/Makefile\<close>), the result type of modelled functions, and the
  little-endian word view of a byte memory with its read-over-write lemmas.
\<close>

unbundle bit_operations_syntax

text \<open>The constants of the sources as words of the form \<open>w32 n\<close>; each theory adds its own.\<close>

named_theorems w32_consts

section \<open>Machine types\<close>

type_synonym u8 = "8 word"
type_synonym u32 = "32 word"

text \<open>Memory maps byte addresses to bytes; pointers are 32-bit words.\<close>

type_synonym memory = "nat \<Rightarrow> u8"

section \<open>Results of modelled functions\<close>

text \<open>
  How a call can end abnormally: an access outside the simulated heap (undefined
  behaviour of the C code), \<^verbatim>\<open>exit(n)\<close>, a failed \<^verbatim>\<open>assert\<close>, an array index out of
  range, a \<^verbatim>\<open>memcpy\<close> between overlapping regions, or a \<^verbatim>\<open>scanf\<close> conversion whose value does
  not fit its object (the last three undefined behaviour as well).
\<close>

datatype failure = Segv u32 | Exit int | AssertFail | OutOfBounds | OverlapCopy | BadConversion

text \<open>
  \<open>None\<close>: the call does not return; \<open>Some (Inl e)\<close>: it ends with failure \<open>e\<close>;
  \<open>Some (Inr x)\<close>: it returns \<open>x\<close>.
\<close>

type_synonym 'a res = "(failure + 'a) option"

abbreviation ok :: "'a \<Rightarrow> 'a res" where "ok x \<equiv> Some (Inr x)"
abbreviation fail :: "failure \<Rightarrow> 'a res" where "fail e \<equiv> Some (Inl e)"

text \<open>Sequencing: the second computation runs only when the first one returns.\<close>

definition bnd :: "'a res \<Rightarrow> ('a \<Rightarrow> 'b res) \<Rightarrow> 'b res" where
  "bnd m f = (case m of None \<Rightarrow> None | Some (Inl e) \<Rightarrow> Some (Inl e) | Some (Inr x) \<Rightarrow> f x)"

lemma bnd_ok [simp]: "bnd (ok x) f = f x"
  by (simp add: bnd_def)

lemma bnd_fail [simp]: "bnd (fail e) f = fail e"
  by (simp add: bnd_def)

lemma bnd_None [simp]: "bnd None f = None"
  by (simp add: bnd_def)

lemma res_cases [case_names diverges fails returns]:
  obtains "r = None" | e where "r = fail e" | x where "r = ok x"
  by (metis obj_sumE option.exhaust)

lemma bnd_eq_okE:
  assumes "bnd m f = ok y"
  obtains x where "m = ok x" "f x = ok y"
  using assms by (auto simp: bnd_def split: option.splits sum.splits)

lemma bnd_cong [fundef_cong]:
  assumes "m = m'" "\<And>x. m' = ok x \<Longrightarrow> f x = f' x"
  shows "bnd m f = bnd m' f'"
  using assms by (auto simp: bnd_def split: option.splits sum.splits)

lemma bnd_mono [partial_function_mono]:
  fixes B :: "('x \<Rightarrow> 'y option) \<Rightarrow> 'b res" and C :: "'b \<Rightarrow> ('x \<Rightarrow> 'y option) \<Rightarrow> 'c res"
  assumes B: "mono_option B" and C: "\<And>y. mono_option (C y)"
  shows "mono_option (\<lambda>f. bnd (B f) (\<lambda>y. C y f))"
proof (rule monotoneI)
  fix f g :: "'x \<Rightarrow> 'y option"
  assume fg: "option.le_fun f g"
  have Bfg: "B f = None \<or> B f = B g"
    using B fg unfolding monotone_on_def by (auto simp: flat_ord_def)
  have Cfg: "C y f = None \<or> C y f = C y g" for y
    using C [of y] fg unfolding monotone_on_def by (auto simp: flat_ord_def)
  show "option_ord (bnd (B f) (\<lambda>y. C y f)) (bnd (B g) (\<lambda>y. C y g))"
  proof (cases "B f")
    case None
    then show ?thesis by (simp add: flat_ord_def)
  next
    case (Some r)
    then have "B g = Some r" using Bfg by simp
    then show ?thesis using Some Cfg by (cases r) (auto simp: flat_ord_def)
  qed
qed

text \<open>A call made \<open>n\<close> times.\<close>

fun repeat_run :: "nat \<Rightarrow> ('s \<Rightarrow> 's res) \<Rightarrow> 's \<Rightarrow> 's res" where
  "repeat_run 0 f s = ok s"
| "repeat_run (Suc n) f s = bnd (f s) (repeat_run n f)"

lemma repeat_run_total:
  assumes "\<And>s. I s \<Longrightarrow> \<exists>s'. f s = ok s' \<and> I s'"
  shows "I s \<Longrightarrow> \<exists>s'. repeat_run n f s = ok s' \<and> I s'"
proof (induction n arbitrary: s)
  case (Suc n)
  with assms [OF Suc.prems] show ?case by auto
qed simp

section \<open>Array accesses\<close>

text \<open>An index outside a C array is undefined behaviour.\<close>

definition arr_get :: "'a list \<Rightarrow> int \<Rightarrow> 'a res" where
  "arr_get xs i = (if 0 \<le> i \<and> nat i < length xs then ok (xs ! nat i) else fail OutOfBounds)"

definition arr_set :: "'a list \<Rightarrow> int \<Rightarrow> 'a \<Rightarrow> 'a list res" where
  "arr_set xs i v = (if 0 \<le> i \<and> nat i < length xs then ok (xs[nat i := v]) else fail OutOfBounds)"

lemma arr_get_ok [simp]: "i < length xs \<Longrightarrow> arr_get xs (int i) = ok (xs ! i)"
  by (simp add: arr_get_def)

lemma arr_set_ok [simp]: "i < length xs \<Longrightarrow> arr_set xs (int i) v = ok (xs[i := v])"
  by (simp add: arr_set_def)

lemma arr_out [simp]:
  "length xs \<le> i \<Longrightarrow> arr_get xs (int i) = fail OutOfBounds"
  "length xs \<le> i \<Longrightarrow> arr_set xs (int i) v = fail OutOfBounds"
  by (simp_all add: arr_get_def arr_set_def)

section \<open>Little-endian words in a byte memory\<close>

definition load32 :: "memory \<Rightarrow> nat \<Rightarrow> u32" where
  "load32 m a = ucast (m a) OR push_bit 8 (ucast (m (a + 1)))
     OR push_bit 16 (ucast (m (a + 2))) OR push_bit 24 (ucast (m (a + 3)))"

definition store32 :: "memory \<Rightarrow> nat \<Rightarrow> u32 \<Rightarrow> memory" where
  "store32 m a v = m(a := ucast v, a + 1 := ucast (drop_bit 8 v),
     a + 2 := ucast (drop_bit 16 v), a + 3 := ucast (drop_bit 24 v))"

lemma load32_store32_same [simp]: "load32 (store32 m a v) a = v"
proof (rule bit_word_eqI)
  fix n assume n: "n < LENGTH(32)"
  consider "n < 8" | "8 \<le> n \<and> n < 16" | "16 \<le> n \<and> n < 24" | "24 \<le> n" by linarith
  then show "bit (load32 (store32 m a v) a) n \<longleftrightarrow> bit v n"
    using n by cases (auto simp: load32_def store32_def bit_simps)
qed

lemma load32_store32_other [simp]:
  "a + 4 \<le> b \<or> b + 4 \<le> a \<Longrightarrow> load32 (store32 m a v) b = load32 m b"
  by (auto simp: load32_def store32_def)

lemma load32_zero [simp]: "load32 (\<lambda>_. 0) a = 0"
  by (simp add: load32_def)

lemma store32_other [simp]: "x < a \<or> a + 4 \<le> x \<Longrightarrow> store32 m a v x = m x"
  by (auto simp: store32_def)

lemma load32_cong:
  "(\<And>x. a \<le> x \<Longrightarrow> x < a + 4 \<Longrightarrow> m x = m' x) \<Longrightarrow> load32 m a = load32 m' a"
  by (simp add: load32_def)

section \<open>Words given by naturals\<close>

text \<open>
  \<open>w32 n\<close> is the word of value \<open>n\<close>. It is opaque to the simplifier, so that pointer
  arithmetic on it stays arithmetic on the natural number inside.
\<close>

definition w32 :: "nat \<Rightarrow> u32" where
  "w32 n = word_of_nat n"

lemma unat_u32_less: "unat (w :: u32) < 2 ^ 32"
  using unsigned_less [of w, where ?'a = nat] by simp

lemma unat_w32 [simp]: "n < 4294967296 \<Longrightarrow> unat (w32 n) = n"
  by (simp add: w32_def unat_of_nat take_bit_nat_eq_self)

lemma w32_unat [simp]: "w32 (unat w) = w"
  by (simp add: w32_def)

lemma w32_add [simp]: "w32 a + w32 b = w32 (a + b)"
  by (simp add: w32_def)

lemma w32_diff [simp]: "b \<le> a \<Longrightarrow> w32 a - w32 b = w32 (a - b)"
  by (simp add: w32_def)

lemma w32_mult [simp]: "w32 a * w32 b = w32 (a * b)"
  by (simp add: w32_def)

lemma w32_1: "1 = w32 1" and w32_numeral: "numeral k = w32 (numeral k)"
  by (simp_all add: w32_def)

lemma w32_zero [simp]: "w32 0 = 0"
  by (simp add: w32_def)

lemma w32_eq_iff: "a < 4294967296 \<Longrightarrow> b < 4294967296 \<Longrightarrow> w32 a = w32 b \<longleftrightarrow> a = b"
  by (metis unat_w32)

lemma w32_eq_0_iff [simp]: "a < 4294967296 \<Longrightarrow> w32 a = 0 \<longleftrightarrow> a = 0"
  using w32_eq_iff [of a 0] by simp

lemma w32_pos_iff [simp]: "a < 4294967296 \<Longrightarrow> 0 < w32 a \<longleftrightarrow> 0 < a"
  by (simp add: word_less_nat_alt)

lemma w32_le_iff [simp]: "a < 4294967296 \<Longrightarrow> b < 4294967296 \<Longrightarrow> w32 a \<le> w32 b \<longleftrightarrow> a \<le> b"
  by (simp add: word_le_nat_alt)

lemma w32_less_iff [simp]: "a < 4294967296 \<Longrightarrow> b < 4294967296 \<Longrightarrow> w32 a < w32 b \<longleftrightarrow> a < b"
  by (simp add: word_less_nat_alt)

lemma w32_div:
  "a < 4294967296 \<Longrightarrow> b < 4294967296 \<Longrightarrow> w32 a div w32 b = w32 (a div b)"
  by (rule word_unat_eq_iff [THEN iffD2])
    (simp add: unat_div, simp add: order.strict_trans1 [OF div_le_dividend])

lemma w32_mod:
  "a < 4294967296 \<Longrightarrow> b < 4294967296 \<Longrightarrow> w32 a mod w32 b = w32 (a mod b)"
  by (rule word_unat_eq_iff [THEN iffD2])
    (simp add: unat_mod, simp add: order.strict_trans1 [OF mod_less_eq_dividend])

lemma unat_add_u32:
  "unat a + unat b < 2 ^ 32 \<Longrightarrow> unat (a + b :: u32) = unat a + unat b"
  by (simp add: unat_word_ariths)

text \<open>The low three bits of a multiple of eight are clear.\<close>

lemma mult8_bit:
  assumes "8 dvd n" "k < 3"
  shows "\<not> bit (w32 n) k"
proof -
  from assms(1) obtain m where "n = m * 2 ^ 3" by (auto elim: dvdE)
  then have "w32 n = push_bit 3 (w32 m)"
    by (simp add: w32_def push_bit_eq_mult)
  with assms(2) show ?thesis by (simp add: bit_simps)
qed

lemma bit_seven: "bit (7 :: int) k \<longleftrightarrow> k < 3"
proof -
  have "bit (mask 3 :: int) k \<longleftrightarrow> k < 3" by (simp add: bit_mask_iff)
  moreover have "(mask 3 :: int) = 7" by (simp add: mask_eq_exp_minus_1)
  ultimately show ?thesis by simp
qed

lemma bit_not_seven: "bit (- 8 :: int) k \<longleftrightarrow> 3 \<le> k"
proof -
  have "bit (NOT 7 :: int) k \<longleftrightarrow> 3 \<le> k"
    by (simp only: bit_not_int_iff bit_seven not_less)
  then show ?thesis by simp
qed

text \<open>Small naturals read back as signed and unsigned numbers.\<close>

lemma sint_w32: "k < 2 ^ 31 \<Longrightarrow> sint (w32 k) = int k"
  by (simp add: w32_def signed_of_nat signed_take_bit_int_eq_self)

lemma uint_w32: "k < 2 ^ 32 \<Longrightarrow> uint (w32 k) = int k"
  by (simp add: w32_def unsigned_of_nat take_bit_nat_eq_self)

lemma word_of_int_w32: "0 \<le> k \<Longrightarrow> word_of_int k = w32 (nat k)"
  by (simp add: w32_def)

end
