(* ===== verification/Scan.thy ===== *)
theory Scan
  imports Prelude
begin

text \<open>
  The conversions of \<^verbatim>\<open>fscanf\<close> that \<^verbatim>\<open>src/mdriver.c\<close> uses, \<^verbatim>\<open>%d\<close>, \<^verbatim>\<open>%u\<close> and \<^verbatim>\<open>%s\<close>, on the
  characters left in the stream, as the C standard describes them; and the decimal
  notation they read back.
\<close>

section \<open>Characters\<close>

text \<open>\<^verbatim>\<open>isspace\<close> and \<^verbatim>\<open>isdigit\<close> of the C locale.\<close>

definition is_space :: "char \<Rightarrow> bool" where
  "is_space c \<longleftrightarrow> of_char c = (32 :: nat) \<or> 9 \<le> (of_char c :: nat) \<and> (of_char c :: nat) \<le> 13"

definition is_digit :: "char \<Rightarrow> bool" where
  "is_digit c \<longleftrightarrow> 48 \<le> (of_char c :: nat) \<and> (of_char c :: nat) \<le> 57"

definition digit_val :: "char \<Rightarrow> nat" where
  "digit_val c = of_char c - 48"

definition skip_space :: "string \<Rightarrow> string" where
  "skip_space = dropWhile is_space"

section \<open>Conversions\<close>

definition digits_val :: "string \<Rightarrow> nat" where
  "digits_val = foldl (\<lambda>n c. 10 * n + digit_val c) 0"

text \<open>An optional sign: is it a minus, and what follows it.\<close>

fun scan_sign :: "string \<Rightarrow> bool \<times> string" where
  "scan_sign [] = (False, [])"
| "scan_sign (c # cs) = (if c = CHR ''-'' then (True, cs) else if c = CHR ''+'' then (False, cs) else (False, c # cs))"

text \<open>
  A decimal integer behind optional white space: its value, \<open>None\<close> for a matching failure or
  the end of the input, and the rest of the stream.
\<close>

definition scan_number :: "string \<Rightarrow> int option \<times> string" where
  "scan_number xs =
     (let (neg, ys) = scan_sign (skip_space xs); ds = takeWhile is_digit ys; rest = dropWhile is_digit ys
      in if ds = [] then (None, rest)
         else (Some (if neg then - int (digits_val ds) else int (digits_val ds)), rest))"

text \<open>\<^verbatim>\<open>%d\<close> and \<^verbatim>\<open>%u\<close>: the object keeps its value when nothing matches.\<close>

definition scan_d :: "string \<Rightarrow> int \<Rightarrow> (bool \<times> int \<times> string) res" where
  "scan_d xs old =
     (case scan_number xs of
        (None, rest) \<Rightarrow> ok (False, old, rest)
      | (Some v, rest) \<Rightarrow> if - (2 ^ 31) \<le> v \<and> v < 2 ^ 31 then ok (True, v, rest) else fail BadConversion)"

definition scan_u :: "string \<Rightarrow> u32 \<Rightarrow> (bool \<times> u32 \<times> string) res" where
  "scan_u xs old =
     (case scan_number xs of
        (None, rest) \<Rightarrow> ok (False, old, rest)
      | (Some v, rest) \<Rightarrow> if \<bar>v\<bar> < 2 ^ 32 then ok (True, word_of_int v, rest) else fail BadConversion)"

text \<open>\<^verbatim>\<open>%s\<close>: the next run of characters that are not white space, \<open>None\<close> at the end of the input.\<close>

definition scan_s :: "string \<Rightarrow> (string \<times> string) option" where
  "scan_s xs =
     (let ys = skip_space xs
      in if ys = [] then None
         else Some (takeWhile (\<lambda>c. \<not> is_space c) ys, dropWhile (\<lambda>c. \<not> is_space c) ys))"

lemma scan_s_shrinks: "scan_s xs = Some (t, rest) \<Longrightarrow> length rest < length xs"
proof -
  assume a: "scan_s xs = Some (t, rest)"
  let ?ys = "skip_space xs"
  have ys: "?ys \<noteq> []" "rest = dropWhile (\<lambda>c. \<not> is_space c) ?ys"
    using a by (auto simp: scan_s_def Let_def split: if_splits)
  have "\<not> is_space (hd ?ys)"
    using ys(1) hd_dropWhile [of is_space xs] by (simp add: skip_space_def)
  then have "length rest < length ?ys"
    using ys by (cases ?ys) (auto simp: le_imp_less_Suc length_dropWhile_le)
  then show ?thesis using length_dropWhile_le [of is_space xs] by (simp add: skip_space_def)
qed

lemma scan_number_shrinks: "length (snd (scan_number xs)) \<le> length xs"
proof -
  have "length (snd (scan_sign ys)) \<le> length ys" for ys by (cases ys) auto
  from this [of "skip_space xs"] have "length (snd (scan_sign (skip_space xs))) \<le> length xs"
    using length_dropWhile_le [of is_space xs] by (simp add: skip_space_def)
  then show ?thesis
    by (auto simp: scan_number_def Let_def split: prod.splits intro: order_trans [OF length_dropWhile_le])
qed

lemma scan_u_shrinks: "scan_u xs old = ok (b, v, rest) \<Longrightarrow> length rest \<le> length xs"
  using scan_number_shrinks [of xs] by (auto simp: scan_u_def split: prod.splits option.splits if_splits)

section \<open>Decimal notation\<close>

definition digit_char :: "nat \<Rightarrow> char" where
  "digit_char d = char_of (48 + d)"

fun show_nat :: "nat \<Rightarrow> string" where
  "show_nat n = (if n < 10 then [digit_char n] else show_nat (n div 10) @ [digit_char (n mod 10)])"

declare show_nat.simps [simp del]

lemma of_digit_char: "d < 10 \<Longrightarrow> (of_char (digit_char d) :: nat) = 48 + d"
  by (simp add: digit_char_def)

lemma digit_char_props [simp]:
  "d < 10 \<Longrightarrow> is_digit (digit_char d)" "d < 10 \<Longrightarrow> digit_val (digit_char d) = d"
  by (simp_all add: is_digit_def digit_val_def of_digit_char)

lemma show_nat_digits: "c \<in> set (show_nat n) \<Longrightarrow> is_digit c"
proof (induction n rule: show_nat.induct)
  case (1 n)
  then show ?case by (subst (asm) (2) show_nat.simps) (auto split: if_splits)
qed

lemma show_nat_nonempty [simp]: "show_nat n \<noteq> []"
  by (subst show_nat.simps) simp

lemma digits_val_show: "digits_val (show_nat n) = n"
proof (induction n rule: show_nat.induct)
  case (1 n)
  then show ?case by (subst show_nat.simps) (auto simp: digits_val_def)
qed

lemma digit_not_space: "is_digit c \<Longrightarrow> \<not> is_space c"
  by (auto simp: is_digit_def is_space_def)

lemma digit_not_sign: "is_digit c \<Longrightarrow> c \<noteq> CHR ''-'' \<and> c \<noteq> CHR ''+''"
  by (auto simp: is_digit_def)

text \<open>Reading a number back that is followed by something other than a digit.\<close>

lemma scan_number_show:
  assumes "rest = [] \<or> \<not> is_digit (hd rest)" "\<forall>c \<in> set sp. is_space c"
  shows "scan_number (sp @ show_nat n @ rest) = (Some (int n), rest)"
proof -
  obtain c cs where c: "show_nat n = c # cs" by (metis neq_Nil_conv show_nat_nonempty)
  have dig: "is_digit c" using show_nat_digits [of c n] c by simp
  have all: "\<forall>x \<in> set (show_nat n). is_digit x" using show_nat_digits by blast
  have "skip_space (sp @ show_nat n @ rest) = show_nat n @ rest"
    using assms(2) dig by (simp add: skip_space_def c digit_not_space dropWhile_append1)
  moreover have "scan_sign (show_nat n @ rest) = (False, show_nat n @ rest)"
    using digit_not_sign [OF dig] by (simp add: c)
  moreover have "takeWhile is_digit (show_nat n @ rest) = show_nat n"
    "dropWhile is_digit (show_nat n @ rest) = rest"
    using all assms(1) by (cases rest; simp add: takeWhile_append2 dropWhile_append2)+
  ultimately show ?thesis by (simp add: scan_number_def digits_val_show)
qed

end
