(* ===== verification/Trace.thy ===== *)
theory Trace
  imports Scan
begin

text \<open>
  Traces of \<^verbatim>\<open>src/mdriver.c\<close>: the trace record and \<^verbatim>\<open>read_trace\<close>, which scans a trace file
  with \<^verbatim>\<open>fscanf\<close>.
\<close>

section \<open>Trace records\<close>

datatype request = ALLOC | FREE | REALLOC

record traceop =
  op_type :: request
  op_index :: int
  op_size :: int

text \<open>The fields \<^verbatim>\<open>blocks\<close> and \<^verbatim>\<open>block_sizes\<close> are C arrays of \<^verbatim>\<open>num_ids\<close> elements.\<close>

record trace =
  sugg_heapsize :: int
  num_ids :: int
  num_ops :: int
  weight :: int
  ops :: "traceop list"
  blocks :: "u32 list"
  block_sizes :: "u32 list"

section \<open>Reading a trace file\<close>

definition MAXLINE :: nat where "MAXLINE = 1024"

text \<open>The local variables of \<^verbatim>\<open>read_trace\<close> and the array it fills.\<close>

record reader =
  rd_ops :: "traceop list"
  rd_index :: u32
  rd_size :: u32
  rd_max :: u32
  rd_count :: u32

text \<open>\<^verbatim>\<open>fscanf(tracefile, "%u %u", &index, &size)\<close>: the second conversion needs the first.\<close>

definition scan_uu :: "string \<Rightarrow> u32 \<Rightarrow> u32 \<Rightarrow> (u32 \<times> u32 \<times> string) res" where
  "scan_uu xs i n =
     bnd (scan_u xs i) (\<lambda>(matched, i, xs).
     if matched then bnd (scan_u xs n) (\<lambda>(_, n, xs). ok (i, n, xs)) else ok (i, n, xs))"

text \<open>\<^verbatim>\<open>fscanf(tracefile, "%ud", &index)\<close>: a literal \<^verbatim>\<open>d\<close> behind the number is consumed.\<close>

definition scan_ud :: "string \<Rightarrow> u32 \<Rightarrow> (u32 \<times> string) res" where
  "scan_ud xs i =
     bnd (scan_u xs i) (\<lambda>(matched, i, xs).
     ok (i, if matched \<and> xs \<noteq> [] \<and> hd xs = CHR ''d'' then tl xs else xs))"

text \<open>The body of the \<^verbatim>\<open>switch\<close>: one request, with \<open>c\<close> the first character of its token.\<close>

definition read_request :: "char \<Rightarrow> string \<Rightarrow> reader \<Rightarrow> (reader \<times> string) res" where
  "read_request c xs r =
     (if c = CHR ''a'' \<or> c = CHR ''r'' then
        bnd (scan_uu xs (rd_index r) (rd_size r)) (\<lambda>(i, n, xs).
        let r = r\<lparr>rd_index := i, rd_size := n\<rparr> in
        bnd (arr_set (rd_ops r) (uint (rd_count r))
               \<lparr>op_type = (if c = CHR ''a'' then ALLOC else REALLOC), op_index = sint i, op_size = sint n\<rparr>) (\<lambda>os.
        ok (r\<lparr>rd_ops := os, rd_max := (if i > rd_max r then i else rd_max r)\<rparr>, xs)))
      else if c = CHR ''f'' then
        bnd (scan_ud xs (rd_index r)) (\<lambda>(i, xs).
        let r = r\<lparr>rd_index := i\<rparr> in
        bnd (arr_get (rd_ops r) (uint (rd_count r))) (\<lambda>old.
        bnd (arr_set (rd_ops r) (uint (rd_count r)) (old\<lparr>op_type := FREE, op_index := sint i\<rparr>)) (\<lambda>os.
        ok (r\<lparr>rd_ops := os\<rparr>, xs))))
      else fail (Exit 1))"

lemma scan_uu_shrinks: "scan_uu xs i n = ok (i', n', rest) \<Longrightarrow> length rest \<le> length xs"
  by (auto simp: scan_uu_def elim!: bnd_eq_okE split: if_splits dest!: scan_u_shrinks)

lemma scan_ud_shrinks: "scan_ud xs i = ok (i', rest) \<Longrightarrow> length rest \<le> length xs"
  by (auto simp: scan_ud_def elim!: bnd_eq_okE split: if_splits dest!: scan_u_shrinks)

lemma read_request_shrinks: "read_request c xs r = ok (r', rest) \<Longrightarrow> length rest \<le> length xs"
  by (auto simp: read_request_def Let_def elim!: bnd_eq_okE split: if_splits
      dest!: scan_uu_shrinks scan_ud_shrinks)

text \<open>
  The \<^verbatim>\<open>while\<close> loop: \<^verbatim>\<open>char type[MAXLINE]\<close> has no room for a token of \<^verbatim>\<open>MAXLINE\<close> characters.
  Every round consumes a token, so the loop ends on every file.
\<close>

function read_requests :: "string \<Rightarrow> reader \<Rightarrow> reader res" where
  "read_requests xs r =
     (case scan_s xs of
        None \<Rightarrow> ok r
      | Some (token, rest) \<Rightarrow>
          if MAXLINE \<le> length token then fail OutOfBounds
          else
            bnd (read_request (hd token) rest r) (\<lambda>(r, xs).
            read_requests xs (r\<lparr>rd_count := rd_count r + 1\<rparr>)))"
  by pat_completeness auto

termination
proof (relation "measure (\<lambda>(xs, _). length xs)")
  fix xs r token_rest token rest r'_ys and r' :: reader and ys
  assume "scan_s xs = Some token_rest" "(token, rest) = token_rest"
    "read_request (hd token) rest r = ok r'_ys" "(r', ys) = r'_ys"
  then have "length rest < length xs" "length ys \<le> length rest"
    using scan_s_shrinks [of xs token rest] read_request_shrinks [of "hd token" rest r r' ys] by auto
  then show "((ys, r'\<lparr>rd_count := rd_count r' + 1\<rparr>), xs, r) \<in> measure (\<lambda>(xs, _). length xs)" by simp
qed simp

declare read_requests.simps [simp del]

text \<open>
  What \<^verbatim>\<open>malloc\<close> leaves in the objects before they are written: the trace record, the three
  arrays and the local variable \<^verbatim>\<open>size\<close>.
\<close>

record garbage =
  g_trace :: trace
  g_ops :: "nat \<Rightarrow> traceop"
  g_blocks :: "nat \<Rightarrow> u32"
  g_sizes :: "nat \<Rightarrow> u32"
  g_size :: u32

text \<open>The elements of \<^verbatim>\<open>malloc(n * size)\<close>: the product wraps around at 32 bits.\<close>

definition elements :: "int \<Rightarrow> u32 \<Rightarrow> nat" where
  "elements n sz = unat (word_of_int n * sz) div unat sz"

text \<open>
  What follows when \<^verbatim>\<open>fopen\<close> fails: the message is printed into \<^verbatim>\<open>char msg[MAXLINE]\<close>, which a
  long path overruns, and \<^verbatim>\<open>unix_error\<close> ends the program with exit code 1.
\<close>

definition could_not_open :: "string \<Rightarrow> 'a res" where
  "could_not_open path =
     (if MAXLINE \<le> length (''Could not open '' @ path @ '' in read_trace'') then fail OutOfBounds
      else fail (Exit 1))"

lemma could_not_open_neq [simp]: "could_not_open path \<noteq> ok x"
  by (simp add: could_not_open_def)

text \<open>
  \<open>refuses n\<close> says whether libc's \<^verbatim>\<open>malloc(n)\<close> returns NULL, and \<open>file\<close> is the content of the
  trace file, \<open>None\<close> when \<^verbatim>\<open>fopen\<close> fails.
\<close>

definition read_trace :: "(u32 \<Rightarrow> bool) \<Rightarrow> garbage \<Rightarrow> string \<Rightarrow> string \<Rightarrow> string option \<Rightarrow> trace res" where
  "read_trace refuses g tracedir filename file =
     (let tr = g_trace g in
      if refuses 28 then fail (Exit 1)
      else if MAXLINE \<le> length (tracedir @ filename) then fail OutOfBounds
      else
        (case file of
           None \<Rightarrow> could_not_open (tracedir @ filename)
         | Some xs \<Rightarrow>
             bnd (scan_d xs (sugg_heapsize tr)) (\<lambda>(_, v, xs). let tr = tr\<lparr>sugg_heapsize := v\<rparr> in
             bnd (scan_d xs (num_ids tr)) (\<lambda>(_, v, xs). let tr = tr\<lparr>num_ids := v\<rparr> in
             bnd (scan_d xs (num_ops tr)) (\<lambda>(_, v, xs). let tr = tr\<lparr>num_ops := v\<rparr> in
             bnd (scan_d xs (weight tr)) (\<lambda>(_, v, xs). let tr = tr\<lparr>weight := v\<rparr> in
             if refuses (word_of_int (num_ops tr) * 12) then fail (Exit 1)
             else if refuses (word_of_int (num_ids tr) * 4) then fail (Exit 1)
             else if refuses (word_of_int (num_ids tr) * 4) then fail (Exit 1)
             else
               let os = map (g_ops g) [0..<elements (num_ops tr) 12];
                   tr = tr\<lparr>blocks := map (g_blocks g) [0..<elements (num_ids tr) 4],
                           block_sizes := map (g_sizes g) [0..<elements (num_ids tr) 4]\<rparr> in
               bnd (read_requests xs
                      \<lparr>rd_ops = os, rd_index = 0, rd_size = g_size g, rd_max = 0, rd_count = 0\<rparr>) (\<lambda>r.
               if rd_max r \<noteq> word_of_int (num_ids tr - 1) then fail AssertFail
               else if word_of_int (num_ops tr) \<noteq> rd_count r then fail AssertFail
               else ok (tr\<lparr>ops := rd_ops r\<rparr>))))))))"

end
