(* ===== verification/Trace_Roundtrip.thy ===== *)
theory Trace_Roundtrip
  imports Trace
begin

text \<open>
  The text form of a trace and the round trip through \<^verbatim>\<open>read_trace\<close>.
\<close>

section \<open>Writing a trace\<close>

abbreviation newline :: string where "newline \<equiv> [CHR 0x0A]"

definition show_op :: "traceop \<Rightarrow> string" where
  "show_op op =
     (case op_type op of
        ALLOC \<Rightarrow> ''a '' @ show_nat (nat (op_index op)) @ '' '' @ show_nat (nat (op_size op)) @ newline
      | REALLOC \<Rightarrow> ''r '' @ show_nat (nat (op_index op)) @ '' '' @ show_nat (nat (op_size op)) @ newline
      | FREE \<Rightarrow> ''f '' @ show_nat (nat (op_index op)) @ newline)"

definition show_ops :: "traceop list \<Rightarrow> string" where
  "show_ops xs = concat (map show_op xs)"

definition show_trace :: "trace \<Rightarrow> string" where
  "show_trace tr = show_nat (nat (sugg_heapsize tr)) @ newline @ show_nat (nat (num_ids tr)) @ newline
     @ show_nat (nat (num_ops tr)) @ newline @ show_nat (nat (weight tr)) @ newline @ show_ops (ops tr)"

section \<open>What reading gives back\<close>

definition int_ok :: "int \<Rightarrow> bool" where
  "int_ok v \<longleftrightarrow> 0 \<le> v \<and> v < 2 ^ 31"

definition op_ok :: "traceop \<Rightarrow> bool" where
  "op_ok op \<longleftrightarrow> int_ok (op_index op) \<and> (op_type op \<noteq> FREE \<longrightarrow> int_ok (op_size op))"

text \<open>The largest index of the \<open>a\<close> and \<open>r\<close> lines.\<close>

definition max_index :: "nat \<Rightarrow> traceop list \<Rightarrow> nat" where
  "max_index = foldl (\<lambda>m op. if op_type op \<noteq> FREE then max m (nat (op_index op)) else m)"

text \<open>The size field of an \<open>f\<close> line is never written: it stays what \<^verbatim>\<open>malloc\<close> left there.\<close>

definition stored :: "garbage \<Rightarrow> nat \<Rightarrow> traceop \<Rightarrow> traceop" where
  "stored g i op = (if op_type op = FREE then (g_ops g i)\<lparr>op_type := FREE, op_index := op_index op\<rparr> else op)"

fun stored_from :: "garbage \<Rightarrow> nat \<Rightarrow> traceop list \<Rightarrow> traceop list" where
  "stored_from g i [] = []"
| "stored_from g i (op # xs) = stored g i op # stored_from g (Suc i) xs"

lemma length_stored [simp]: "length (stored_from g i xs) = length xs"
  by (induction xs arbitrary: i) auto

section \<open>Single conversions\<close>

lemma scan_u_show:
  assumes "int_ok v" "rest = [] \<or> \<not> is_digit (hd rest)"
  shows "scan_u (CHR '' '' # show_nat (nat v) @ rest) old = ok (True, word_of_int v, rest)"
  using scan_number_show [of rest "[CHR '' '']" "nat v"] assms
  by (simp add: scan_u_def int_ok_def is_space_def)

lemma scan_d_show:
  assumes "int_ok v" "rest = [] \<or> \<not> is_digit (hd rest)" "\<forall>c \<in> set sp. is_space c"
  shows "scan_d (sp @ show_nat (nat v) @ rest) old = ok (True, v, rest)"
  using scan_number_show [of rest sp "nat v"] assms by (simp add: scan_d_def int_ok_def)

lemma newline_not_digit [simp]: "\<not> is_digit (CHR 0x0A)" "\<not> is_digit (CHR '' '')"
  by (simp_all add: is_digit_def)

lemma scan_s_show:
  assumes "c = CHR ''a'' \<or> c = CHR ''r'' \<or> c = CHR ''f''" "\<forall>x \<in> set sp. is_space x"
  shows "scan_s (sp @ c # CHR '' '' # rest) = Some ([c], CHR '' '' # rest)"
proof -
  have "\<not> is_space c" using assms(1) by (auto simp: is_space_def)
  then have "skip_space (sp @ c # CHR '' '' # rest) = c # CHR '' '' # rest"
    using assms(2) by (simp add: skip_space_def dropWhile_append1)
  then show ?thesis using \<open>\<not> is_space c\<close> by (simp add: scan_s_def is_space_def)
qed

lemma int_ok_word: "int_ok v \<Longrightarrow> sint (word_of_int v :: u32) = v"
  using sint_w32 [of "nat v"] by (simp add: int_ok_def word_of_int_w32 nat_less_iff)

section \<open>One request\<close>

text \<open>The characters of one line are followed by a newline, and those of the next line by it.\<close>

definition line_type :: "traceop \<Rightarrow> char" where
  "line_type op = (case op_type op of ALLOC \<Rightarrow> CHR ''a'' | REALLOC \<Rightarrow> CHR ''r'' | FREE \<Rightarrow> CHR ''f'')"

definition line_rest :: "traceop \<Rightarrow> string" where
  "line_rest op = CHR '' '' # show_nat (nat (op_index op))
     @ (if op_type op = FREE then [] else CHR '' '' # show_nat (nat (op_size op)))"

lemma show_op_split: "show_op op = line_type op # line_rest op @ newline"
  by (cases "op_type op") (simp_all add: show_op_def line_type_def line_rest_def)

text \<open>The conversions of one line, for either kind of request.\<close>

lemma line_type_cases:
  "line_type op = CHR ''a'' \<or> line_type op = CHR ''r'' \<or> line_type op = CHR ''f''"
  by (cases "op_type op") (simp_all add: line_type_def)

lemma scan_ud_line:
  assumes "op_ok op" "op_type op = FREE"
  shows "scan_ud (line_rest op @ CHR 0x0A # rest) old = ok (word_of_int (op_index op), CHR 0x0A # rest)"
  using scan_u_show [of "op_index op" "CHR 0x0A # rest" old] assms
  by (simp add: scan_ud_def line_rest_def op_ok_def)

lemma scan_uu_line:
  assumes "op_ok op" "op_type op \<noteq> FREE"
  shows "scan_uu (line_rest op @ CHR 0x0A # rest) i n
    = ok (word_of_int (op_index op), word_of_int (op_size op), CHR 0x0A # rest)"
  using scan_u_show [of "op_index op" "CHR '' '' # show_nat (nat (op_size op)) @ CHR 0x0A # rest" i]
    scan_u_show [of "op_size op" "CHR 0x0A # rest" n] assms
  by (simp add: scan_uu_def line_rest_def op_ok_def)

lemma read_request_show:
  assumes op: "op_ok op" and k: "k < length (rd_ops r)" "rd_count r = w32 k" "k < 2 ^ 32"
    and old: "rd_ops r ! k = g_ops g k" and mx: "rd_max r = w32 m" "m < 2 ^ 31"
  shows "\<exists>i n. read_request (line_type op) (line_rest op @ CHR 0x0A # rest) r
    = ok (r\<lparr>rd_index := i, rd_size := n, rd_ops := (rd_ops r)[k := stored g k op],
            rd_max := w32 (max_index m [op])\<rparr>, CHR 0x0A # rest)"
proof -
  have ui: "uint (rd_count r) = int k" using k(2) uint_w32 [OF k(3)] by simp
  have io: "int_ok (op_index op)" using op by (simp add: op_ok_def)
  then obtain j where j: "op_index op = int j" "j < 2 ^ 31"
    by (auto simp: int_ok_def intro: that [of "nat (op_index op)"])
  have wj: "word_of_int (op_index op) = w32 j" by (simp add: w32_def j(1))
  have gt: "(w32 m < w32 j) = (m < j)" using mx(2) j(2) by simp
  show ?thesis
  proof (cases "op_type op = FREE")
    case True
    from scan_ud_line [OF op this]
    show ?thesis using True k(1) ui old mx(1) int_ok_word [OF io]
      by (intro exI [of _ "word_of_int (op_index op)"] exI [of _ "rd_size r"])
        (simp add: read_request_def line_type_def stored_def max_index_def Let_def)
  next
    case False
    then have sz: "int_ok (op_size op)" using op by (simp add: op_ok_def)
    note uu = scan_uu_line [OF op False]
    have ty: "line_type op = (if op_type op = ALLOC then CHR ''a'' else CHR ''r'')"
      using False by (cases "op_type op") (simp_all add: line_type_def)
    have eq: "\<lparr>op_type = t, op_index = op_index op, op_size = op_size op\<rparr> = op" if "op_type op = t" for t
      using that by simp
    have mx': "m < j \<Longrightarrow> max_index m [op] = j" "\<not> m < j \<Longrightarrow> max_index m [op] = m"
      using False j(1) by (simp_all add: max_index_def max_def)
    show ?thesis
      by (rule exI [of _ "word_of_int (op_index op)"], rule exI [of _ "word_of_int (op_size op)"])
        (use False k(1) ui uu int_ok_word [OF io] int_ok_word [OF sz] mx(1) mx' wj ty gt
          in \<open>cases "op_type op"; cases "m < j"; simp add: read_request_def stored_def Let_def eq\<close>)
  qed
qed

text \<open>A request for which the array has no element is written outside of it.\<close>

lemma read_request_overrun:
  assumes op: "op_ok op" and k: "length (rd_ops r) \<le> k" "rd_count r = w32 k" "k < 2 ^ 32"
  shows "read_request (line_type op) (line_rest op @ CHR 0x0A # rest) r = fail OutOfBounds"
proof -
  have ui: "uint (rd_count r) = int k" using k(2) uint_w32 [OF k(3)] by simp
  show ?thesis
  proof (cases "op_type op = FREE")
    case True
    from scan_ud_line [OF op this] show ?thesis using True k(1) ui
      by (simp add: read_request_def line_type_def Let_def)
  next
    case False
    from scan_uu_line [OF op this] show ?thesis using False k(1) ui
      by (cases "op_type op") (simp_all add: read_request_def line_type_def Let_def)
  qed
qed

section \<open>The whole file\<close>

lemma max_index_Cons: "max_index m (op # xs) = max_index (max_index m [op]) xs"
  by (simp add: max_index_def)

lemma max_index_bound: "op_ok op \<Longrightarrow> m < 2 ^ 31 \<Longrightarrow> max_index m [op] < 2 ^ 31"
  by (auto simp: max_index_def op_ok_def int_ok_def)

lemma scan_line:
  assumes "\<forall>c \<in> set sp. is_space c"
  shows "scan_s (sp @ show_ops (op # xs) @ tail) = Some ([line_type op], line_rest op @ newline @ show_ops xs @ tail)"
proof -
  have sp: "CHR '' '' # tl (line_rest op) = line_rest op" by (simp add: line_rest_def)
  have "sp @ show_ops (op # xs) @ tail = sp @ line_type op # CHR '' '' # (tl (line_rest op) @ newline @ show_ops xs @ tail)"
    using sp by (simp add: show_ops_def show_op_split)
  then show ?thesis
    using scan_s_show [OF line_type_cases assms, of op "tl (line_rest op) @ newline @ show_ops xs @ tail"] sp
    by (metis append_Cons)
qed

lemma read_requests_show:
  assumes "\<forall>op \<in> set xs. op_ok op" "length pre + length xs < 2 ^ 32"
    and "rd_ops r = pre @ map (g_ops g) [length pre..<length pre + length xs]"
    and "rd_count r = w32 (length pre)" "rd_max r = w32 m" "m < 2 ^ 31" "\<forall>c \<in> set sp. is_space c"
  shows "\<exists>r'. read_requests (sp @ show_ops xs) r = ok r' \<and> rd_ops r' = pre @ stored_from g (length pre) xs
    \<and> rd_count r' = w32 (length pre + length xs) \<and> rd_max r' = w32 (max_index m xs)"
  using assms
proof (induction xs arbitrary: pre r m sp)
  case Nil
  then have "scan_s (sp @ show_ops []) = None"
    by (simp add: scan_s_def skip_space_def show_ops_def)
  then show ?case using Nil by (subst read_requests.simps) (simp add: max_index_def)
next
  case (Cons op xs)
  let ?k = "length pre"
  have op: "op_ok op" using Cons.prems(1) by simp
  have garbage: "map (g_ops g) [?k..<?k + length (op # xs)]
      = g_ops g ?k # map (g_ops g) [Suc ?k..<Suc ?k + length xs]"
    by (subst upt_conv_Cons) simp_all
  have k: "?k < length (rd_ops r)" "rd_ops r ! ?k = g_ops g ?k" "?k < 2 ^ 32"
    using Cons.prems(2,3) garbage by (simp_all add: nth_append)
  obtain i n where req: "read_request (line_type op) (line_rest op @ CHR 0x0A # show_ops xs) r
      = ok (r\<lparr>rd_index := i, rd_size := n, rd_ops := (rd_ops r)[?k := stored g ?k op],
              rd_max := w32 (max_index m [op])\<rparr>, CHR 0x0A # show_ops xs)"
    using read_request_show [OF op k(1) Cons.prems(4) k(3) k(2) Cons.prems(5,6)] by blast
  let ?r = "r\<lparr>rd_index := i, rd_size := n, rd_ops := (rd_ops r)[?k := stored g ?k op],
              rd_max := w32 (max_index m [op]), rd_count := rd_count r + 1\<rparr>"
  note tok = scan_line [OF Cons.prems(7), of op xs "[]", unfolded append_Nil2]
  have step: "read_requests (sp @ show_ops (op # xs)) r = read_requests (newline @ show_ops xs) ?r"
    using tok req by (subst read_requests.simps) (simp add: MAXLINE_def)
  have "\<exists>r'. read_requests (newline @ show_ops xs) ?r = ok r'
      \<and> rd_ops r' = (pre @ [stored g ?k op]) @ stored_from g (length (pre @ [stored g ?k op])) xs
      \<and> rd_count r' = w32 (length (pre @ [stored g ?k op]) + length xs)
      \<and> rd_max r' = w32 (max_index (max_index m [op]) xs)"
  proof (rule Cons.IH)
    show "rd_ops ?r = (pre @ [stored g ?k op])
        @ map (g_ops g) [length (pre @ [stored g ?k op])..<length (pre @ [stored g ?k op]) + length xs]"
      using Cons.prems(3) garbage by (simp add: list_update_append)
    show "rd_count ?r = w32 (length (pre @ [stored g ?k op]))"
      using Cons.prems(4) by (simp add: w32_def add.commute)
  qed (use Cons.prems(1,2,6) op max_index_bound in \<open>auto simp: is_space_def\<close>)
  then show ?case using step by (simp add: max_index_Cons [of m op xs])
qed

text \<open>More request lines than the array has elements: the reader writes outside of it, whatever follows.\<close>

lemma read_requests_overrun:
  fixes g :: garbage
  assumes "\<forall>op \<in> set xs. op_ok op" "N < 2 ^ 32" "length pre \<le> N" "N < length pre + length xs"
    and "rd_ops r = pre @ map (g_ops g) [length pre..<N]"
    and "rd_count r = w32 (length pre)" "rd_max r = w32 m" "m < 2 ^ 31" "\<forall>c \<in> set sp. is_space c"
  shows "read_requests (sp @ show_ops xs @ tail) r = fail OutOfBounds"
  using assms
proof (induction xs arbitrary: pre r m sp)
  case Nil
  then show ?case by simp
next
  case (Cons op xs)
  let ?k = "length pre"
  have op: "op_ok op" using Cons.prems(1) by simp
  note tok = scan_line [OF Cons.prems(9), of op xs tail]
  show ?case
  proof (cases "?k < N")
    case False
    then have "read_request (line_type op) (line_rest op @ CHR 0x0A # show_ops xs @ tail) r = fail OutOfBounds"
      using Cons.prems by (intro read_request_overrun [OF op, of r ?k]) auto
    then show ?thesis using tok by (subst read_requests.simps) (simp add: MAXLINE_def)
  next
    case True
    then have garbage: "map (g_ops g) [?k..<N] = g_ops g ?k # map (g_ops g) [Suc ?k..<N]"
      by (subst upt_conv_Cons) simp_all
    have k: "?k < length (rd_ops r)" "rd_ops r ! ?k = g_ops g ?k" "?k < 2 ^ 32"
      using Cons.prems(2,5) True by (simp_all add: garbage)
    obtain i n where req: "read_request (line_type op) (line_rest op @ CHR 0x0A # show_ops xs @ tail) r
        = ok (r\<lparr>rd_index := i, rd_size := n, rd_ops := (rd_ops r)[?k := stored g ?k op],
                rd_max := w32 (max_index m [op])\<rparr>, CHR 0x0A # show_ops xs @ tail)"
      using read_request_show [OF op k(1) Cons.prems(6) k(3) k(2) Cons.prems(7,8)] by blast
    let ?r = "r\<lparr>rd_index := i, rd_size := n, rd_ops := (rd_ops r)[?k := stored g ?k op],
                rd_max := w32 (max_index m [op]), rd_count := rd_count r + 1\<rparr>"
    have step: "read_requests (sp @ show_ops (op # xs) @ tail) r = read_requests (newline @ show_ops xs @ tail) ?r"
      using tok req by (subst read_requests.simps) (simp add: MAXLINE_def)
    have "read_requests (newline @ show_ops xs @ tail) ?r = fail OutOfBounds"
    proof (rule Cons.IH [where m = "max_index m [op]"])
      show "rd_ops ?r = (pre @ [stored g ?k op]) @ map (g_ops g) [length (pre @ [stored g ?k op])..<N]"
        using Cons.prems(5) garbage by (simp add: list_update_append)
      show "rd_count ?r = w32 (length (pre @ [stored g ?k op]))"
        using Cons.prems(6) by (simp add: w32_def add.commute)
    qed (use Cons.prems(1,2,4,8) True op max_index_bound in \<open>auto simp: is_space_def\<close>)
    then show ?thesis using step by simp
  qed
qed

lemma elements_exact:
  assumes "0 \<le> n" "n * int c < 2 ^ 32" "0 < c" "c < 2 ^ 32"
  shows "elements n (w32 c) = nat n"
proof -
  obtain k where k: "n = int k" using assms(1) nonneg_int_cases by blast
  have "int (k * c) < int (2 ^ 32)" using assms(2) k by simp
  then have "k * c < 2 ^ 32" by (simp only: of_nat_less_iff)
  then show ?thesis using assms(3,4) k by (simp add: elements_def word_of_int_w32 del: of_int_of_nat_eq)
qed

text \<open>What can be written in a trace file, and a trace whose header describes its requests.\<close>

definition header_ok :: "trace \<Rightarrow> bool" where
  "header_ok tr \<longleftrightarrow> int_ok (sugg_heapsize tr) \<and> int_ok (weight tr) \<and> 0 < num_ids tr
     \<and> num_ids tr * 4 < 2 ^ 32 \<and> num_ids tr < 2 ^ 31 \<and> 0 \<le> num_ops tr \<and> num_ops tr * 12 < 2 ^ 32
     \<and> (\<forall>op \<in> set (ops tr). op_ok op)"

definition trace_ok :: "trace \<Rightarrow> bool" where
  "trace_ok tr \<longleftrightarrow> header_ok tr \<and> num_ops tr = int (length (ops tr))
     \<and> int (max_index 0 (ops tr)) = num_ids tr - 1"

text \<open>The header is read, the arrays are allocated; then come the requests.\<close>

definition first_reader :: "garbage \<Rightarrow> nat \<Rightarrow> reader" where
  "first_reader g n = \<lparr>rd_ops = map (g_ops g) [0..<n], rd_index = 0, rd_size = g_size g, rd_max = 0, rd_count = 0\<rparr>"

lemma read_trace_header:
  assumes tr: "header_ok tr" and path: "length (tracedir @ filename) < MAXLINE" and mem: "\<And>n. \<not> refuses n"
  shows "read_trace refuses g tracedir filename (Some (show_trace tr))
    = bnd (read_requests (newline @ show_ops (ops tr)) (first_reader g (nat (num_ops tr)))) (\<lambda>r.
      if rd_max r \<noteq> word_of_int (num_ids tr - 1) then fail AssertFail
      else if word_of_int (num_ops tr) \<noteq> rd_count r then fail AssertFail
      else ok (tr\<lparr>ops := rd_ops r, blocks := map (g_blocks g) [0..<nat (num_ids tr)],
                  block_sizes := map (g_sizes g) [0..<nat (num_ids tr)]\<rparr>))"
proof -
  have hdr: "int_ok (sugg_heapsize tr)" "int_ok (num_ids tr)" "int_ok (num_ops tr)" "int_ok (weight tr)"
    using tr by (auto simp: header_ok_def int_ok_def)
  have el: "elements (num_ops tr) 12 = nat (num_ops tr)" "elements (num_ids tr) 4 = nat (num_ids tr)"
    using tr elements_exact [of "num_ops tr" 12] elements_exact [of "num_ids tr" 4]
    by (auto simp: header_ok_def w32_numeral)
  define l4 where "l4 = newline @ show_ops (ops tr)"
  define l3 where "l3 = CHR 0x0A # show_nat (nat (weight tr)) @ l4"
  define l2 where "l2 = CHR 0x0A # show_nat (nat (num_ops tr)) @ l3"
  define l1 where "l1 = CHR 0x0A # show_nat (nat (num_ids tr)) @ l2"
  have lines: "show_trace tr = show_nat (nat (sugg_heapsize tr)) @ l1"
    by (simp add: show_trace_def l1_def l2_def l3_def l4_def)
  have nd: "\<not> is_digit (hd l1)" "\<not> is_digit (hd l2)" "\<not> is_digit (hd l3)" "\<not> is_digit (hd l4)"
    by (simp_all add: l1_def l2_def l3_def l4_def)
  have sc: "scan_d (show_trace tr) old = ok (True, sugg_heapsize tr, l1)"
      "scan_d l1 old = ok (True, num_ids tr, l2)" "scan_d l2 old = ok (True, num_ops tr, l3)"
      "scan_d l3 old = ok (True, weight tr, l4)" for old
    using scan_d_show [OF hdr(1), of l1 "[]"] scan_d_show [OF hdr(2), of l2 "[CHR 0x0A]"]
      scan_d_show [OF hdr(3), of l3 "[CHR 0x0A]"] scan_d_show [OF hdr(4), of l4 "[CHR 0x0A]"] nd
    by (simp_all add: lines l1_def [symmetric] l2_def [symmetric] l3_def [symmetric] is_space_def)
  show ?thesis
    unfolding l4_def [symmetric] using path mem sc el
    by (cases "read_requests l4 (first_reader g (nat (num_ops tr)))" rule: res_cases)
      (simp_all add: read_trace_def Let_def first_reader_def del: of_int_diff)
qed

lemma read_trace_show:
  assumes tr: "trace_ok tr" and path: "length (tracedir @ filename) < MAXLINE" and mem: "\<And>n. \<not> refuses n"
  shows "read_trace refuses g tracedir filename (Some (show_trace tr))
    = ok (tr\<lparr>ops := stored_from g 0 (ops tr), blocks := map (g_blocks g) [0..<nat (num_ids tr)],
             block_sizes := map (g_sizes g) [0..<nat (num_ids tr)]\<rparr>)"
proof -
  have hdr: "header_ok tr" and n: "num_ops tr = int (length (ops tr))" "num_ids tr - 1 = int (max_index 0 (ops tr))"
    using tr by (simp_all add: trace_ok_def)
  obtain r where r: "read_requests (newline @ show_ops (ops tr)) (first_reader g (nat (num_ops tr))) = ok r"
      "rd_ops r = stored_from g 0 (ops tr)"
      "rd_count r = w32 (length (ops tr))" "rd_max r = w32 (max_index 0 (ops tr))"
    using read_requests_show [of "ops tr" "[]" "first_reader g (nat (num_ops tr))" g 0 newline] hdr n(1)
    by (auto simp: header_ok_def first_reader_def is_space_def)
  then show ?thesis
    using read_trace_header [OF hdr path mem] n by (simp add: w32_def)
qed

text \<open>A header that announces fewer requests than the file has.\<close>

lemma read_trace_short:
  assumes tr: "header_ok tr" "num_ops tr < int (length (ops tr))"
    and path: "length (tracedir @ filename) < MAXLINE" and mem: "\<And>n. \<not> refuses n"
  shows "read_trace refuses g tracedir filename (Some (show_trace tr)) = fail OutOfBounds"
proof -
  have "read_requests (newline @ show_ops (ops tr)) (first_reader g (nat (num_ops tr))) = fail OutOfBounds"
    using read_requests_overrun [of "ops tr" "nat (num_ops tr)" "[]" "first_reader g (nat (num_ops tr))" g 0 newline "[]"] tr
    by (auto simp: header_ok_def first_reader_def is_space_def)
  then show ?thesis using read_trace_header [OF tr(1) path mem] by simp
qed

end
