(* ===== verification/Trace_Files.thy ===== *)
theory Trace_Files
  imports Trace_Roundtrip
begin

text \<open>
  The trace files of the repository, \<^verbatim>\<open>src/short1-bal.rep\<close>, \<^verbatim>\<open>src/short2-bal.rep\<close> and
  \<^verbatim>\<open>src/traces/*.rep\<close>, character by character, and what \<^verbatim>\<open>read_trace\<close> makes of each.
\<close>

section \<open>Contents\<close>

text \<open>Lines that end with a newline.\<close>

definition lines_of :: "string list \<Rightarrow> string" where
  "lines_of ls = concat (map (\<lambda>l. l @ newline) ls)"

definition short1_bal :: string where
  "short1_bal = lines_of [''20000'', ''6'', ''12'', ''1'', ''a 0 2040'', ''a 1 2040'', ''f 1'', ''a 2 48'',
     ''a 3 4072'', ''f 3'', ''a 4 4072'', ''f 0'', ''f 2'', ''a 5 4072'', ''f 4'', ''f 5'']"

definition short2_bal :: string where
  "short2_bal = lines_of [''20000'', ''6'', ''12'', ''1'', ''a 0 2040'', ''a 1 4010'', ''a 2 48'', ''a 3 4072'',
     ''a 4 4072'', ''a 5 4072'', ''f 0'', ''f 1'', ''f 2'', ''f 3'', ''f 4'', ''f 5'']"

definition alloc_rep :: string where
  "alloc_rep = lines_of [''20000'', ''3'', ''3'', ''1'', ''a 0 80'', ''a 1 40'', ''a 2 80'']"

text \<open>The last line of this file has no newline.\<close>

definition allocAndFree_rep :: string where
  "allocAndFree_rep = lines_of [''20000'', ''1'', ''2'', ''1'', ''a 0 80''] @ ''f 0''"

definition coalesceCase1_rep :: string where
  "coalesceCase1_rep = lines_of [''20000'', ''3'', ''4'', ''1'', ''a 0 80'', ''a 1 40'', ''a 2 80'', ''f 1'']"

definition coalesceCase2_rep :: string where
  "coalesceCase2_rep = lines_of [''20000'', ''2'', ''3'', ''1'', ''a 0 40'', ''a 1 24'', ''f 1'']"

text \<open>The headers of the last two announce fewer requests than follow.\<close>

definition coalesceCase3_rep :: string where
  "coalesceCase3_rep = lines_of [''20000'', ''3'', ''3 '', ''1'', ''a 0 80'', ''a 1 80'', ''a 2 80'', ''f 0'', ''f 1'']"

definition coalesceCase4_rep :: string where
  "coalesceCase4_rep = lines_of [''20000'', ''3'', ''2'', ''1'', ''a 0 80'', ''a 1 80'', ''a 2 80'', ''f 0'', ''f 2'', ''f 1'', '''']"

section \<open>Reading them\<close>

definition alloc_op :: "int \<Rightarrow> int \<Rightarrow> traceop" where
  "alloc_op i n = \<lparr>op_type = ALLOC, op_index = i, op_size = n\<rparr>"

definition free_op :: "int \<Rightarrow> traceop" where
  "free_op i = \<lparr>op_type = FREE, op_index = i, op_size = 0\<rparr>"

lemmas op_defs = alloc_op_def free_op_def

definition short1_ops :: "traceop list" where
  "short1_ops = [alloc_op 0 2040, alloc_op 1 2040, free_op 1, alloc_op 2 48, alloc_op 3 4072, free_op 3,
     alloc_op 4 4072, free_op 0, free_op 2, alloc_op 5 4072, free_op 4, free_op 5]"

definition short2_ops :: "traceop list" where
  "short2_ops = [alloc_op 0 2040, alloc_op 1 4010, alloc_op 2 48, alloc_op 3 4072, alloc_op 4 4072, alloc_op 5 4072,
     free_op 0, free_op 1, free_op 2, free_op 3, free_op 4, free_op 5]"

definition file_trace :: "int \<Rightarrow> traceop list \<Rightarrow> trace" where
  "file_trace ids xs = \<lparr>sugg_heapsize = 20000, num_ids = ids, num_ops = int (length xs), weight = 1, ops = xs,
     blocks = [], block_sizes = []\<rparr>"

text \<open>What \<^verbatim>\<open>read_trace\<close> returns: the requests over whatever \<^verbatim>\<open>malloc\<close> left in the arrays.\<close>

definition loaded :: "garbage \<Rightarrow> trace \<Rightarrow> trace" where
  "loaded g tr = tr\<lparr>ops := stored_from g 0 (ops tr), blocks := map (g_blocks g) [0..<nat (num_ids tr)],
     block_sizes := map (g_sizes g) [0..<nat (num_ids tr)]\<rparr>"

lemma read_loaded:
  assumes "trace_ok tr" "xs = show_trace tr" "length (dir @ filename) < MAXLINE"
  shows "read_trace (\<lambda>_. False) g dir filename (Some xs) = ok (loaded g tr)"
  using read_trace_show [OF assms(1,3), of "\<lambda>_. False" g] assms(2) by (simp add: loaded_def)

lemma digit_chars:
  "digit_char 0 = CHR ''0''" "digit_char (Suc 0) = CHR ''1''" "digit_char 2 = CHR ''2''" "digit_char 3 = CHR ''3''"
  "digit_char 4 = CHR ''4''" "digit_char 5 = CHR ''5''" "digit_char 6 = CHR ''6''" "digit_char 7 = CHR ''7''"
  "digit_char 8 = CHR ''8''" "digit_char 9 = CHR ''9''"
  by (simp_all add: digit_char_def char_of_def bit_Suc_0_iff)

lemma shown_files:
  "short1_bal = show_trace (file_trace 6 short1_ops)"
  "short2_bal = show_trace (file_trace 6 short2_ops)"
  "alloc_rep = show_trace (file_trace 3 [alloc_op 0 80, alloc_op 1 40, alloc_op 2 80])"
  "coalesceCase1_rep = show_trace (file_trace 3 [alloc_op 0 80, alloc_op 1 40, alloc_op 2 80, free_op 1])"
  "coalesceCase2_rep = show_trace (file_trace 2 [alloc_op 0 40, alloc_op 1 24, free_op 1])"
  unfolding short1_bal_def short2_bal_def alloc_rep_def coalesceCase1_rep_def coalesceCase2_rep_def
    short1_ops_def short2_ops_def lines_of_def
  by (simp_all add: show_trace_def show_ops_def show_op_def op_defs file_trace_def show_nat.simps digit_chars)

lemma file_traces_ok:
  "trace_ok (file_trace 6 short1_ops)"
  "trace_ok (file_trace 6 short2_ops)"
  "trace_ok (file_trace 3 [alloc_op 0 80, alloc_op 1 40, alloc_op 2 80])"
  "trace_ok (file_trace 3 [alloc_op 0 80, alloc_op 1 40, alloc_op 2 80, free_op 1])"
  "trace_ok (file_trace 2 [alloc_op 0 40, alloc_op 1 24, free_op 1])"
  unfolding short1_ops_def short2_ops_def
  by (simp_all add: trace_ok_def header_ok_def op_defs file_trace_def int_ok_def op_ok_def max_index_def)


text \<open>Three files are not of that form; the conversions are evaluated character by character.\<close>

lemmas scan_eval = scan_d_def scan_number_def skip_space_def is_space_def is_digit_def digits_val_def digit_val_def

text \<open>The requests of the two files with a wrong header do not fit into the array.\<close>

lemma overrun:
  assumes "\<forall>op \<in> set xs. op_ok op" "n < length xs" "n < 2 ^ 31"
  shows "read_requests (newline @ show_ops xs @ tail) (first_reader g n) = fail OutOfBounds"
  using read_requests_overrun [of xs n "[]" "first_reader g n" g 0 newline tail] assms
  by (simp add: first_reader_def is_space_def)

lemma overrun_rest:
  "show_ops [alloc_op 0 80, alloc_op 1 80, alloc_op 2 80, free_op 0, free_op 1]
    = lines_of [''a 0 80'', ''a 1 80'', ''a 2 80'', ''f 0'', ''f 1'']"
  "show_ops [alloc_op 0 80, alloc_op 1 80, alloc_op 2 80, free_op 0, free_op 2, free_op 1]
    = lines_of [''a 0 80'', ''a 1 80'', ''a 2 80'', ''f 0'', ''f 2'', ''f 1'']"
  by (simp_all add: show_ops_def show_op_def op_defs show_nat.simps digit_chars lines_of_def)

lemma overrun_files:
  assumes "length (dir @ filename) < MAXLINE"
  shows "read_trace (\<lambda>_. False) g dir filename (Some coalesceCase3_rep) = fail OutOfBounds"
    "read_trace (\<lambda>_. False) g dir filename (Some coalesceCase4_rep) = fail OutOfBounds"
proof -
  have ok: "op_ok (alloc_op i 80) \<and> op_ok (free_op i)" if "0 \<le> i" "i < 3" for i
    using that by (simp add: op_ok_def int_ok_def op_defs)
  show "read_trace (\<lambda>_. False) g dir filename (Some coalesceCase3_rep) = fail OutOfBounds"
    using overrun [of "[alloc_op 0 80, alloc_op 1 80, alloc_op 2 80, free_op 0, free_op 1]" 3 "[]" g] ok assms
    by (simp add: read_trace_def coalesceCase3_rep_def overrun_rest scan_eval Let_def lines_of_def elements_def first_reader_def)
  show "read_trace (\<lambda>_. False) g dir filename (Some coalesceCase4_rep) = fail OutOfBounds"
    using overrun [of "[alloc_op 0 80, alloc_op 1 80, alloc_op 2 80, free_op 0, free_op 2, free_op 1]" 2 newline g] ok assms
    by (simp add: read_trace_def coalesceCase4_rep_def overrun_rest scan_eval Let_def lines_of_def elements_def first_reader_def)
qed

text \<open>The end of the input serves as well as a newline.\<close>

lemma allocAndFree_read:
  assumes "length (dir @ filename) < MAXLINE"
  shows "read_trace (\<lambda>_. False) g dir filename (Some allocAndFree_rep) = ok (loaded g (file_trace 1 [alloc_op 0 80, free_op 0]))"
proof -
  let ?a = "\<lparr>op_type = ALLOC, op_index = 0, op_size = 80\<rparr>" and ?f = "(g_ops g 1)\<lparr>op_type := FREE, op_index := 0\<rparr>"
  let ?r1 = "\<lparr>rd_ops = [?a, g_ops g 1], rd_index = 0, rd_size = 80, rd_max = 0, rd_count = 1\<rparr>"
  have "read_request (CHR ''a'') ('' 0 80'' @ newline @ ''f 0'') (first_reader g 2) = ok (?r1\<lparr>rd_count := 0\<rparr>, newline @ ''f 0'')"
    by (simp add: read_request_def scan_uu_def scan_u_def scan_eval first_reader_def arr_set_def numeral_2_eq_2)
  then have "read_requests (newline @ ''a 0 80'' @ newline @ ''f 0'') (first_reader g 2) = read_requests (newline @ ''f 0'') ?r1"
    by (subst read_requests.simps) (simp add: scan_s_def scan_eval MAXLINE_def)
  also have "\<dots> = read_requests [] (?r1\<lparr>rd_ops := [?a, ?f], rd_count := 2\<rparr>)"
  proof -
    have "read_request (CHR ''f'') '' 0'' ?r1 = ok (?r1\<lparr>rd_ops := [?a, ?f]\<rparr>, [])"
      by (simp add: read_request_def scan_ud_def scan_u_def scan_eval arr_set_def arr_get_def)
    then show ?thesis by (subst read_requests.simps) (simp add: scan_s_def scan_eval MAXLINE_def)
  qed
  also have "\<dots> = ok (?r1\<lparr>rd_ops := [?a, ?f], rd_count := 2\<rparr>)"
    by (subst read_requests.simps) (simp add: scan_s_def scan_eval)
  finally have req: "read_requests (newline @ ''a 0 80'' @ newline @ ''f 0'') (first_reader g 2)
      = ok (?r1\<lparr>rd_ops := [?a, ?f], rd_count := 2\<rparr>)" .
  have el: "elements 2 12 = 2" "elements 1 4 = 1" by (simp_all add: elements_def)
  have "loaded g (file_trace 1 [alloc_op 0 80, free_op 0])
      = \<lparr>sugg_heapsize = 20000, num_ids = 1, num_ops = 2, weight = 1, ops = [?a, ?f], blocks = [g_blocks g 0], block_sizes = [g_sizes g 0]\<rparr>"
    by (simp add: loaded_def file_trace_def stored_def op_defs)
  then show ?thesis using assms req
    by (simp add: read_trace_def allocAndFree_rep_def scan_eval Let_def lines_of_def el first_reader_def)
qed

end
