(* ===== verification/Memlib.thy ===== *)
theory Memlib
  imports Prelude
begin

text \<open>
  \<^verbatim>\<open>src/memlib.c\<close>: the simulated memory system. The record holds the three private
  variables of the file and the bytes of the address space; the allocators extend it
  with their own globals. The region handed out by libc's \<^verbatim>\<open>malloc\<close> is the arena
  \<open>[mem_start_brk, mem_max_addr)\<close>.
\<close>

section \<open>State\<close>

record mem =
  heap_bytes :: memory
  mem_start_brk :: u32
  mem_brk :: u32
  mem_max_addr :: u32

text \<open>\<^verbatim>\<open>MAX_HEAP\<close> of \<^verbatim>\<open>src/config.h\<close>: 20 MB.\<close>

definition MAX_HEAP :: u32 where "MAX_HEAP = 20 * push_bit 20 1"

lemma MAX_HEAP_val [simp]: "MAX_HEAP = 20971520"
  by (simp add: MAX_HEAP_def push_bit_eq_mult)

section \<open>Operations\<close>

text \<open>
  \<open>mem_init p s\<close>: \<open>p\<close> is the pointer libc's \<^verbatim>\<open>malloc(MAX_HEAP)\<close> returned (0 for NULL).
\<close>

definition mem_init :: "u32 \<Rightarrow> 'a mem_scheme \<Rightarrow> 'a mem_scheme res" where
  "mem_init p s =
     (if p = 0 then fail (Exit 1)
      else ok (s\<lparr>mem_start_brk := p, mem_max_addr := p + MAX_HEAP, mem_brk := p\<rparr>))"

definition mem_reset_brk :: "'a mem_scheme \<Rightarrow> 'a mem_scheme" where
  "mem_reset_brk s = s\<lparr>mem_brk := mem_start_brk s\<rparr>"

text \<open>
  The argument is a C \<^verbatim>\<open>int\<close>: the guard compares it as a signed number, and the sum of
  pointer and increment wraps around at 32 bits. The result \<open>-1\<close> is the error value.
\<close>

definition mem_sbrk :: "u32 \<Rightarrow> 'a mem_scheme \<Rightarrow> u32 \<times> 'a mem_scheme" where
  "mem_sbrk incr s =
     (let old_brk = mem_brk s in
      if incr <s 0 \<or> mem_brk s + incr > mem_max_addr s then (-1, s)
      else (old_brk, s\<lparr>mem_brk := mem_brk s + incr\<rparr>))"

definition mem_heap_lo :: "'a mem_scheme \<Rightarrow> u32" where
  "mem_heap_lo s = mem_start_brk s"

definition mem_heap_hi :: "'a mem_scheme \<Rightarrow> u32" where
  "mem_heap_hi s = mem_brk s - 1"

definition mem_heapsize :: "'a mem_scheme \<Rightarrow> u32" where
  "mem_heapsize s = mem_brk s - mem_start_brk s"

section \<open>The arena and the extent of the heap, as naturals\<close>

abbreviation start_of :: "'a mem_scheme \<Rightarrow> nat" where "start_of s \<equiv> unat (mem_start_brk s)"
abbreviation brk_of :: "'a mem_scheme \<Rightarrow> nat" where "brk_of s \<equiv> unat (mem_brk s)"
abbreviation top_of :: "'a mem_scheme \<Rightarrow> nat" where "top_of s \<equiv> unat (mem_max_addr s)"

text \<open>
  A well-formed memory system: libc returned a non-null, 8-byte aligned region that does
  not wrap around the address space, and the break lies inside it.
\<close>

definition arena_ok :: "'a mem_scheme \<Rightarrow> bool" where
  "arena_ok s \<longleftrightarrow> 0 < start_of s \<and> 8 dvd start_of s
     \<and> top_of s = start_of s + unat MAX_HEAP
     \<and> start_of s \<le> brk_of s \<and> brk_of s \<le> top_of s"

text \<open>Every memory access of the models is checked against the arena.\<close>

definition in_arena :: "'a mem_scheme \<Rightarrow> nat \<Rightarrow> nat \<Rightarrow> bool" where
  "in_arena s a n \<longleftrightarrow> start_of s \<le> a \<and> a + n \<le> top_of s"

text \<open>
  The three library calls on memory the sources use. A copy of \<open>n > 0\<close> bytes touches
  \<open>n\<close> bytes from both pointers; \<^verbatim>\<open>memcpy\<close> leaves overlapping regions undefined,
  \<^verbatim>\<open>memmove\<close> does not.
\<close>

definition copy_bytes :: "nat \<Rightarrow> nat \<Rightarrow> nat \<Rightarrow> memory \<Rightarrow> memory" where
  "copy_bytes d src n m = (\<lambda>x. if d \<le> x \<and> x < d + n then m (src + (x - d)) else m x)"

definition fill_bytes :: "nat \<Rightarrow> u8 \<Rightarrow> nat \<Rightarrow> memory \<Rightarrow> memory" where
  "fill_bytes d c n m = (\<lambda>x. if d \<le> x \<and> x < d + n then c else m x)"

definition memmove :: "u32 \<Rightarrow> u32 \<Rightarrow> nat \<Rightarrow> 'a mem_scheme \<Rightarrow> 'a mem_scheme res" where
  "memmove d src n s =
     (if n = 0 then ok s
      else if \<not> in_arena s (unat src) n then fail (Segv src)
      else if \<not> in_arena s (unat d) n then fail (Segv d)
      else ok (s\<lparr>heap_bytes := copy_bytes (unat d) (unat src) n (heap_bytes s)\<rparr>))"

definition memcpy :: "u32 \<Rightarrow> u32 \<Rightarrow> nat \<Rightarrow> 'a mem_scheme \<Rightarrow> 'a mem_scheme res" where
  "memcpy d src n s =
     (if 0 < n \<and> unat src < unat d + n \<and> unat d < unat src + n then fail OverlapCopy
      else memmove d src n s)"

definition memset :: "u32 \<Rightarrow> u8 \<Rightarrow> nat \<Rightarrow> 'a mem_scheme \<Rightarrow> 'a mem_scheme res" where
  "memset d c n s =
     (if n = 0 then ok s
      else if \<not> in_arena s (unat d) n then fail (Segv d)
      else ok (s\<lparr>heap_bytes := fill_bytes (unat d) c n (heap_bytes s)\<rparr>))"

text \<open>Two states that differ in the bytes of \<open>[a, b)\<close> only.\<close>

definition same_outside :: "nat \<Rightarrow> nat \<Rightarrow> memory \<Rightarrow> memory \<Rightarrow> bool" where
  "same_outside a b m m' \<longleftrightarrow> (\<forall>x. x < a \<or> b \<le> x \<longrightarrow> m' x = m x)"

lemma same_outside_refl [simp]: "same_outside a b m m"
  by (simp add: same_outside_def)

lemma same_outside_trans:
  "same_outside a b m m' \<Longrightarrow> same_outside a b m' m'' \<Longrightarrow> same_outside a b m m''"
  by (auto simp: same_outside_def)

lemma same_outside_mono:
  "same_outside a b m m' \<Longrightarrow> a' \<le> a \<Longrightarrow> b \<le> b' \<Longrightarrow> same_outside a' b' m m'"
  by (auto simp: same_outside_def)

lemma same_outside_store32:
  "same_outside a b m m' \<Longrightarrow> a \<le> p \<Longrightarrow> p + 4 \<le> b \<Longrightarrow> same_outside a b m (store32 m' p v)"
  by (auto simp: same_outside_def)

lemma same_outside_load32:
  "same_outside a b m m' \<Longrightarrow> p + 4 \<le> a \<or> b \<le> p \<Longrightarrow> load32 m' p = load32 m p"
  by (rule load32_cong) (auto simp: same_outside_def)

lemma same_outside_copy: "same_outside d (d + n) m (copy_bytes d src n m)"
  by (auto simp: same_outside_def copy_bytes_def)

lemma same_outside_fill: "same_outside d (d + n) m (fill_bytes d c n m)"
  by (auto simp: same_outside_def fill_bytes_def)

section \<open>Laws\<close>

lemma mem_init_arena:
  assumes "p \<noteq> 0" "8 dvd unat p" "unat p + unat MAX_HEAP < 2 ^ 32"
  shows "\<exists>s'. mem_init p s = ok s' \<and> arena_ok s' \<and> mem_brk s' = mem_start_brk s'"
  using assms by (auto simp: mem_init_def arena_ok_def unat_add_u32 unat_gt_0 simp del: MAX_HEAP_val)

lemma mem_reset_brk_arena: "arena_ok s \<Longrightarrow> arena_ok (mem_reset_brk s)"
  by (auto simp: arena_ok_def mem_reset_brk_def)

lemma msb_iff_unat: "0 \<le>s (w :: u32) \<longleftrightarrow> unat w < 2 ^ 31"
proof -
  have neg: "sint w < 0 \<longleftrightarrow> bit w 31"
    using bit_last_iff [of w] by simp
  have "uint w = take_bit (Suc 31) (uint w)"
    using uint_lt2p [of w] by (simp add: take_bit_int_eq_self)
  also have "\<dots> = take_bit 31 (uint w) + 2 ^ 31 * of_bool (bit w 31)"
    by (simp only: take_bit_Suc_from_most bit_uint_iff) simp
  finally have u: "uint w = take_bit 31 (uint w) + 2 ^ 31 * of_bool (bit w 31)" .
  have t0: "0 \<le> take_bit 31 (uint w)" by simp
  have t1: "take_bit 31 (uint w) < 2 ^ 31" by (rule take_bit_int_less_exp)
  have "bit w 31 \<longleftrightarrow> 2 ^ 31 \<le> uint w"
  proof (cases "bit w 31")
    case True
    with u have "uint w = take_bit 31 (uint w) + 2 ^ 31" by simp
    with True t0 show ?thesis by linarith
  next
    case False
    with u have "uint w = take_bit 31 (uint w)" by simp
    with False t1 show ?thesis by linarith
  qed
  moreover have "2 ^ 31 \<le> uint w \<longleftrightarrow> 2 ^ 31 \<le> unat w"
    using word_le_def [of "0x80000000" w] word_le_nat_alt [of "0x80000000" w] by simp
  ultimately show ?thesis using neg by (simp add: word_sle_eq not_less [symmetric])
qed

text \<open>Growth inside the arena succeeds, returns the old break, and moves the break.\<close>

lemma mem_sbrk_ok:
  assumes "unat n < 2 ^ 31" "brk_of s + unat n \<le> top_of s"
  shows "mem_sbrk n s = (mem_brk s, s\<lparr>mem_brk := mem_brk s + n\<rparr>)
    \<and> unat (mem_brk s + n) = brk_of s + unat n"
proof -
  have "brk_of s + unat n < 2 ^ 32"
    using assms(2) unat_u32_less [of "mem_max_addr s"] by linarith
  then have sum: "unat (mem_brk s + n) = brk_of s + unat n" by (rule unat_add_u32)
  moreover have "\<not> n <s 0"
    using assms(1) msb_iff_unat [of n] by (simp add: not_less [symmetric] word_sless_alt word_sle_eq)
  ultimately show ?thesis
    using assms(2) by (simp add: mem_sbrk_def word_less_nat_alt)
qed

text \<open>
  A request that does not fit is refused and leaves the state alone, provided the sum of
  break and increment does not wrap around.
\<close>

lemma mem_sbrk_fail:
  assumes "brk_of s + unat n < 2 ^ 32" "top_of s < brk_of s + unat n"
  shows "mem_sbrk n s = (-1, s)"
  using assms by (simp add: mem_sbrk_def word_less_nat_alt unat_add_u32)

lemma mem_sbrk_negative: "2 ^ 31 \<le> unat n \<Longrightarrow> mem_sbrk n s = (-1, s)"
  using msb_iff_unat [of n] by (simp add: mem_sbrk_def word_sless_alt word_sle_eq)

text \<open>The request can be handed to \<open>mem_sbrk\<close> without a wrap-around of the pointer sum.\<close>

definition no_wrap :: "'a mem_scheme \<Rightarrow> nat \<Rightarrow> bool" where
  "no_wrap s n \<longleftrightarrow> top_of s + n + 4096 < 2 ^ 32"

lemma mem_sbrk_cases:
  assumes "2 ^ 31 \<le> unat n \<or> brk_of s + unat n < 2 ^ 32"
  shows "mem_sbrk n s =
    (if unat n < 2 ^ 31 \<and> brk_of s + unat n \<le> top_of s
     then (mem_brk s, s\<lparr>mem_brk := mem_brk s + n\<rparr>) else (-1, s))"
  using mem_sbrk_ok [of n s] mem_sbrk_fail [of s n] mem_sbrk_negative [of n s] assms by force

text \<open>What the guard misses: a sum that wraps around moves the break below the arena.\<close>

lemma mem_sbrk_wrap:
  assumes "arena_ok s" "unat n < 2 ^ 31" "2 ^ 32 \<le> brk_of s + unat n"
  shows "mem_sbrk n s = (mem_brk s, s\<lparr>mem_brk := mem_brk s + n\<rparr>)
    \<and> unat (mem_brk s + n) = brk_of s + unat n - 2 ^ 32 \<and> unat (mem_brk s + n) < start_of s"
proof -
  have sum: "unat (mem_brk s + n) = brk_of s + unat n - 2 ^ 32"
    using assms(2,3) unat_u32_less [of "mem_brk s"] by (simp add: unat_word_ariths mod_nat_eqI)
  have low: "unat (mem_brk s + n) < start_of s"
    using assms unfolding sum by (auto simp: arena_ok_def)
  have "\<not> n <s 0"
    using assms(2) msb_iff_unat [of n] by (simp add: not_less [symmetric] word_sless_alt word_sle_eq)
  moreover have "\<not> mem_max_addr s < mem_brk s + n"
    using low assms(1) by (simp add: word_less_nat_alt arena_ok_def)
  ultimately show ?thesis using sum low by (simp add: mem_sbrk_def)
qed

end
