(* ===== verification/Tags.thy ===== *)
theory Tags
  imports Memlib
begin

text \<open>
  The boundary-tag macros that \<^verbatim>\<open>src/mm-firstfit.c\<close>, \<^verbatim>\<open>src/mm.c\<close> and
  \<^verbatim>\<open>src/mm2.c\<close> share, and the block chain: the list of (size, allocated) pairs that the
  headers and footers of a piece of heap spell out.
\<close>

section \<open>The macros\<close>

definition WSIZE :: u32 where "WSIZE = 4"
definition DSIZE :: u32 where "DSIZE = 8"
definition CHUNKSIZE :: u32 where "CHUNKSIZE = push_bit 12 1"
definition OVERHEAD :: u32 where "OVERHEAD = 8"

definition CMAX :: "u32 \<Rightarrow> u32 \<Rightarrow> u32" where
  "CMAX x y = (if x > y then x else y)"

definition PACK :: "u32 \<Rightarrow> u32 \<Rightarrow> u32" where
  "PACK sz alloc = sz OR alloc"

text \<open>
  Reading and writing a word. An access outside the arena is undefined behaviour of the C
  program; the model ends with \<open>Segv\<close> there.
\<close>

definition GET :: "u32 \<Rightarrow> 'a mem_scheme \<Rightarrow> u32 res" where
  "GET p s = (if in_arena s (unat p) 4 then ok (load32 (heap_bytes s) (unat p)) else fail (Segv p))"

definition PUT :: "u32 \<Rightarrow> u32 \<Rightarrow> 'a mem_scheme \<Rightarrow> 'a mem_scheme res" where
  "PUT p val s =
     (if in_arena s (unat p) 4
      then ok (s\<lparr>heap_bytes := store32 (heap_bytes s) (unat p) val\<rparr>) else fail (Segv p))"

definition GET_SIZE :: "u32 \<Rightarrow> 'a mem_scheme \<Rightarrow> u32 res" where
  "GET_SIZE p s = bnd (GET p s) (\<lambda>w. ok (w AND NOT 7))"

definition GET_ALLOC :: "u32 \<Rightarrow> 'a mem_scheme \<Rightarrow> u32 res" where
  "GET_ALLOC p s = bnd (GET p s) (\<lambda>w. ok (w AND 1))"

definition HDRP :: "u32 \<Rightarrow> u32" where
  "HDRP bp = bp - WSIZE"

definition FTRP :: "u32 \<Rightarrow> 'a mem_scheme \<Rightarrow> u32 res" where
  "FTRP bp s = bnd (GET_SIZE (HDRP bp) s) (\<lambda>sz. ok (bp + sz - DSIZE))"

definition NEXT_BLKP :: "u32 \<Rightarrow> 'a mem_scheme \<Rightarrow> u32 res" where
  "NEXT_BLKP bp s = bnd (GET_SIZE (bp - WSIZE) s) (\<lambda>sz. ok (bp + sz))"

definition PREV_BLKP :: "u32 \<Rightarrow> 'a mem_scheme \<Rightarrow> u32 res" where
  "PREV_BLKP bp s = bnd (GET_SIZE (bp - DSIZE) s) (\<lambda>sz. ok (bp - sz))"

lemmas tag_consts = WSIZE_def DSIZE_def OVERHEAD_def

lemma CHUNKSIZE_val [simp]: "CHUNKSIZE = 4096"
  by (simp add: CHUNKSIZE_def push_bit_eq_mult)

section \<open>Tag words\<close>

text \<open>The word a header or footer holds for a block of \<open>n\<close> bytes.\<close>

definition tag :: "nat \<Rightarrow> bool \<Rightarrow> u32" where
  "tag n f = w32 n OR of_bool f"

lemma PACK_tag [simp]:
  "PACK (w32 n) 0 = tag n False" "PACK (w32 n) 1 = tag n True" "PACK 0 1 = tag 0 True"
  by (simp_all add: PACK_def tag_def w32_def)

lemma tag_size [simp]:
  assumes "8 dvd n" shows "tag n f AND NOT 7 = w32 n"
proof (rule bit_word_eqI)
  fix k assume "k < LENGTH(32)"
  moreover have "bit (w32 n) k \<Longrightarrow> \<not> k < 3"
    using mult8_bit [OF assms] by blast
  ultimately show "bit (tag n f AND NOT 7) k \<longleftrightarrow> bit (w32 n) k"
    by (cases f) (auto simp: tag_def bit_and_iff bit_or_iff bit_not_seven bit_1_iff)
qed

lemma tag_alloc [simp]:
  assumes "8 dvd n" shows "tag n f AND 1 = of_bool f"
proof -
  have "\<not> bit (w32 n) 0" using mult8_bit [OF assms, of 0] by simp
  then show ?thesis
    by (intro bit_word_eqI) (cases f; auto simp: tag_def bit_and_iff bit_or_iff bit_1_iff
        simp del: bit_0 intro!: gr0I)
qed

section \<open>Access through naturals\<close>

lemma in_arena_bound: "in_arena s a n \<Longrightarrow> a + n < 2 ^ 32"
  using unat_u32_less [of "mem_max_addr s"] by (simp add: in_arena_def)

lemma GET_w32 [simp]:
  "in_arena s a 4 \<Longrightarrow> GET (w32 a) s = ok (load32 (heap_bytes s) a)"
  using in_arena_bound [of s a 4] by (simp add: GET_def)

lemma PUT_w32 [simp]:
  "in_arena s a 4 \<Longrightarrow> PUT (w32 a) v s = ok (s\<lparr>heap_bytes := store32 (heap_bytes s) a v\<rparr>)"
  using in_arena_bound [of s a 4] by (simp add: PUT_def)

lemma in_arena_bytes [simp]: "in_arena (s\<lparr>heap_bytes := m\<rparr>) a n = in_arena s a n"
  by (simp add: in_arena_def)

lemma in_arena_sub: "in_arena s a n \<Longrightarrow> a \<le> b \<Longrightarrow> b + k \<le> a + n \<Longrightarrow> in_arena s b k"
  by (simp add: in_arena_def)

text \<open>
  The accessors on a block whose header lies at \<open>h\<close>; its payload pointer is \<open>h + 4\<close>.
\<close>

declare WSIZE_def [w32_consts] DSIZE_def [w32_consts] w32_numeral [w32_consts]

lemma HDRP_w32 [simp]: "4 \<le> a \<Longrightarrow> HDRP (w32 a) = w32 (a - 4)"
  by (simp add: HDRP_def w32_consts)

lemma GET_SIZE_tag [simp]:
  "in_arena s a 4 \<Longrightarrow> load32 (heap_bytes s) a = tag n f \<Longrightarrow> 8 dvd n \<Longrightarrow>
   GET_SIZE (w32 a) s = ok (w32 n)"
  using tag_size by (simp add: GET_SIZE_def)

lemma GET_ALLOC_tag [simp]:
  "in_arena s a 4 \<Longrightarrow> load32 (heap_bytes s) a = tag n f \<Longrightarrow> 8 dvd n \<Longrightarrow>
   GET_ALLOC (w32 a) s = ok (of_bool f)"
  by (simp add: GET_ALLOC_def)

lemma NEXT_BLKP_tag [simp]:
  "in_arena s (a - 4) 4 \<Longrightarrow> load32 (heap_bytes s) (a - 4) = tag n f \<Longrightarrow> 8 dvd n \<Longrightarrow> 4 \<le> a \<Longrightarrow>
   NEXT_BLKP (w32 a) s = ok (w32 (a + n))"
  by (simp add: NEXT_BLKP_def w32_consts)

lemma FTRP_tag [simp]:
  "in_arena s (a - 4) 4 \<Longrightarrow> load32 (heap_bytes s) (a - 4) = tag n f \<Longrightarrow> 8 dvd n \<Longrightarrow> 4 \<le> a \<Longrightarrow>
   8 \<le> a + n \<Longrightarrow> FTRP (w32 a) s = ok (w32 (a + n - 8))"
  by (simp add: FTRP_def w32_consts)

lemma PREV_BLKP_tag [simp]:
  "in_arena s (a - 8) 4 \<Longrightarrow> load32 (heap_bytes s) (a - 8) = tag n f \<Longrightarrow> 8 dvd n \<Longrightarrow> 8 \<le> a \<Longrightarrow>
   n \<le> a \<Longrightarrow> PREV_BLKP (w32 a) s = ok (w32 (a - n))"
  by (simp add: PREV_BLKP_def w32_consts)

end
