(* ===== verification/Chain.thy ===== *)
theory Chain
  imports Tags
begin

text \<open>
  The abstract view of a boundary-tagged heap: a list of blocks, each with its size in
  bytes (header and footer included) and its allocated bit. \<open>chain m h bs\<close> says that
  the memory \<open>m\<close> spells \<open>bs\<close> from header address \<open>h\<close> on.
\<close>

type_synonym blk = "nat \<times> bool"

section \<open>Block lists\<close>

definition extent :: "blk list \<Rightarrow> nat" where
  "extent bs = sum_list (map fst bs)"

lemma extent_simps [simp]:
  "extent [] = 0" "extent (b # bs) = fst b + extent bs" "extent (bs @ cs) = extent bs + extent cs"
  by (simp_all add: extent_def)

lemma extent_butlast: "xs \<noteq> [] \<Longrightarrow> extent (butlast xs) + fst (last xs) = extent xs"
  by (cases xs rule: rev_cases) simp_all

text \<open>The payloads of the allocated blocks: address and capacity.\<close>

fun payloads :: "nat \<Rightarrow> blk list \<Rightarrow> (nat \<times> nat) list" where
  "payloads h [] = []"
| "payloads h ((n, f) # bs) = (if f then [(h + 4, n - 8)] else []) @ payloads (h + n) bs"

lemma payloads_append [simp]:
  "payloads h (bs @ cs) = payloads h bs @ payloads (h + extent bs) cs"
  by (induction bs arbitrary: h) (auto simp: add.assoc)

text \<open>No two neighbouring free blocks: every free block was coalesced.\<close>

definition coalesced :: "blk list \<Rightarrow> bool" where
  "coalesced bs = successively (\<lambda>a b. snd a \<or> snd b) bs"

section \<open>The chain in memory\<close>

text \<open>
  The footer of a block is read through a predicate: \<^verbatim>\<open>mm-firstfit.c\<close> keeps footers equal to
  headers, \<^verbatim>\<open>mm.c\<close> only up to its reallocation tag.
\<close>

fun gchain :: "(u32 \<Rightarrow> nat \<Rightarrow> bool \<Rightarrow> bool) \<Rightarrow> memory \<Rightarrow> nat \<Rightarrow> blk list \<Rightarrow> bool" where
  "gchain F m h [] = True"
| "gchain F m h ((n, f) # bs) \<longleftrightarrow>
     8 \<le> n \<and> 8 dvd n \<and> load32 m h = tag n f \<and> F (load32 m (h + n - 4)) n f \<and> gchain F m (h + n) bs"

definition exact_ftr :: "u32 \<Rightarrow> nat \<Rightarrow> bool \<Rightarrow> bool" where
  [simp]: "exact_ftr w n f \<longleftrightarrow> w = tag n f"

abbreviation chain :: "memory \<Rightarrow> nat \<Rightarrow> blk list \<Rightarrow> bool" where
  "chain \<equiv> gchain exact_ftr"

lemma chain_append [simp]:
  "gchain F m h (bs @ cs) \<longleftrightarrow> gchain F m h bs \<and> gchain F m (h + extent bs) cs"
  by (induction bs arbitrary: h) (auto simp: add.assoc)

lemma chain_cong:
  "gchain F m h bs \<Longrightarrow> (\<And>x. h \<le> x \<Longrightarrow> x < h + extent bs \<Longrightarrow> m' x = m x) \<Longrightarrow> gchain F m' h bs"
proof (induction bs arbitrary: h)
  case Nil
  then show ?case by simp
next
  case (Cons b bs)
  obtain n f where b: "b = (n, f)" by fastforce
  with Cons.prems have n: "8 \<le> n" by simp
  have "load32 m' h = load32 m h" "load32 m' (h + n - 4) = load32 m (h + n - 4)"
    using n Cons.prems(2) b by (auto intro!: load32_cong)
  moreover have "gchain F m' (h + n) bs"
    using Cons.prems b by (intro Cons.IH) auto
  ultimately show ?case using Cons.prems(1) b by simp
qed

lemma chain_same_outside:
  "gchain F m h bs \<Longrightarrow> same_outside a b m m' \<Longrightarrow> h + extent bs \<le> a \<or> b \<le> h \<Longrightarrow> gchain F m' h bs"
  by (erule chain_cong) (auto simp: same_outside_def)

text \<open>Replacing a middle piece of a chain by another one of the same extent.\<close>

lemma chain_replace:
  assumes "gchain F m h (xs @ mid @ ys)"
    and "same_outside (h + extent xs) (h + extent xs + extent mid) m m'"
    and "gchain F m' (h + extent xs) mid'" and "extent mid' = extent mid"
  shows "gchain F m' h (xs @ mid' @ ys)"
  using assms by (auto intro: chain_same_outside)

lemma chain_dvd: "gchain F m h bs \<Longrightarrow> 8 dvd extent bs"
  by (induction bs arbitrary: h) auto

lemma payload_bounds:
  "(p, n) \<in> set (payloads h bs) \<Longrightarrow> gchain F m h bs \<Longrightarrow>
   h + 4 \<le> p \<and> p + n + 4 \<le> h + extent bs"
proof (induction bs arbitrary: h)
  case Nil
  then show ?case by simp
next
  case (Cons b bs)
  obtain k f where "b = (k, f)" by fastforce
  with Cons.prems Cons.IH [of "h + k"] show ?case by (auto split: if_splits)
qed

text \<open>Payload addresses are congruent to the first header plus four modulo eight.\<close>

lemma payload_aligned:
  "(p, n) \<in> set (payloads h bs) \<Longrightarrow> gchain F m h bs \<Longrightarrow> 8 dvd h + 4 \<Longrightarrow> 8 dvd p"
proof (induction bs arbitrary: h)
  case Nil
  then show ?case by simp
next
  case (Cons b bs)
  obtain k f where b: "b = (k, f)" by fastforce
  with Cons.prems have "8 dvd h + k + 4"
    by (metis add.commute add.left_commute gchain.simps(2) dvd_add)
  with Cons.prems Cons.IH [of "h + k"] b show ?case by (auto split: if_splits)
qed

text \<open>Distinct payloads are disjoint.\<close>

lemma payloads_disjoint:
  "(p, n) \<in> set (payloads h bs) \<Longrightarrow> (q, k) \<in> set (payloads h bs) \<Longrightarrow> gchain F m h bs \<Longrightarrow>
   (p, n) = (q, k) \<or> p + n + 8 \<le> q \<or> q + k + 8 \<le> p"
proof (induction bs arbitrary: h)
  case Nil
  then show ?case by simp
next
  case (Cons b bs)
  obtain l f where b: "b = (l, f)" by fastforce
  with Cons.prems have rest: "gchain F m (h + l) bs" and l: "8 \<le> l" by auto
  have "(x, y) \<in> set (payloads (h + l) bs) \<Longrightarrow> h + l + 4 \<le> x" for x y
    using payload_bounds [OF _ rest] by blast
  with Cons.prems Cons.IH [of "h + l"] b rest l show ?case
    by (fastforce split: if_splits)
qed

text \<open>Payload writes leave the chain alone.\<close>

lemma chain_payload_write:
  assumes "gchain F m h bs" "(p, n) \<in> set (payloads h bs)" "same_outside p (p + n) m m'"
  shows "gchain F m' h bs"
  using assms
proof (induction bs arbitrary: h)
  case Nil
  then show ?case by simp
next
  case (Cons b bs)
  obtain k f where b: "b = (k, f)" by fastforce
  have k: "8 \<le> k" and rest: "gchain F m (h + k) bs" using Cons.prems(1) b by auto
  from Cons.prems(2) b consider "f" "p = h + 4" "n = k - 8" | "(p, n) \<in> set (payloads (h + k) bs)"
    by (auto split: if_splits)
  then show ?case
  proof cases
    case 1
    have "gchain F m' (h + k) bs"
      using rest Cons.prems(3) 1 k by (intro chain_same_outside [OF rest]) auto
    moreover have "load32 m' h = load32 m h" "load32 m' (h + k - 4) = load32 m (h + k - 4)"
      using 1 k Cons.prems(3) by (auto intro: same_outside_load32)
    ultimately show ?thesis using Cons.prems(1) b by simp
  next
    case 2
    have lo: "h + k + 4 \<le> p" using payload_bounds [OF 2 rest] by simp
    have "gchain F m' (h + k) bs" using rest 2 Cons.prems(3) by (rule Cons.IH)
    moreover have "load32 m' h = load32 m h" "load32 m' (h + k - 4) = load32 m (h + k - 4)"
      using lo k Cons.prems(3) by (auto intro: same_outside_load32)
    ultimately show ?thesis using Cons.prems(1) b by simp
  qed
qed

section \<open>Writing the tags of one block\<close>

definition set_block :: "memory \<Rightarrow> nat \<Rightarrow> nat \<Rightarrow> bool \<Rightarrow> memory" where
  "set_block m h n f = store32 (store32 m h (tag n f)) (h + n - 4) (tag n f)"

lemma store32_commute:
  "a + 4 \<le> b \<or> b + 4 \<le> a \<Longrightarrow> store32 (store32 m a v) b w = store32 (store32 m b w) a v"
  by (auto simp: store32_def fun_eq_iff)

lemma set_block_swap:
  "8 \<le> n \<Longrightarrow> store32 (store32 m (h + n - 4) (tag n f)) h (tag n f) = set_block m h n f"
  unfolding set_block_def by (rule store32_commute) linarith

lemma chain_set_block: "8 \<le> n \<Longrightarrow> 8 dvd n \<Longrightarrow> chain (set_block m h n f) h [(n, f)]"
  by (simp add: set_block_def)

lemma same_outside_set_block: "8 \<le> n \<Longrightarrow> same_outside h (h + n) m (set_block m h n f)"
  by (auto simp: set_block_def intro!: same_outside_store32)

text \<open>A piece of the chain merged into, or restamped as, one block.\<close>

lemma chain_restamp:
  assumes "chain m h (xs @ mid @ ys)" "extent mid = n" "8 \<le> n"
  shows "chain (set_block m (h + extent xs) n f) h (xs @ [(n, f)] @ ys)"
proof (rule chain_replace [OF assms(1)])
  from assms(1) have "8 dvd n" using assms(2) by (auto dest: chain_dvd)
  then show "chain (set_block m (h + extent xs) n f) (h + extent xs) [(n, f)]"
    using assms(3) by (rule chain_set_block [rotated])
  show "same_outside (h + extent xs) (h + extent xs + extent mid) m (set_block m (h + extent xs) n f)"
    using same_outside_set_block [OF assms(3)] assms(2) by simp
qed (use assms(2) in simp)

lemma chain_memberD:
  "chain m h (xs @ (n, f) # ys) \<Longrightarrow>
   8 \<le> n \<and> 8 dvd n \<and> load32 m (h + extent xs) = tag n f \<and> load32 m (h + extent xs + n - 4) = tag n f"
  by simp

end
