(* ===== verification/FirstFit.thy ===== *)
theory FirstFit
  imports Chain
begin

text \<open>
  \<^verbatim>\<open>src/mm-firstfit.c\<close>: the implicit-list allocator with first-fit placement and
  boundary-tag coalescing, one definition per C function. The proofs about it are in the
  theories \<open>FirstFit_Heap\<close> and \<open>FirstFit_Correct\<close>.
\<close>

section \<open>State\<close>

record ff = mem +
  heap_listp :: u32

section \<open>Macro compositions used by the code\<close>

text \<open>\<^verbatim>\<open>PUT(FTRP(bp), v)\<close>: the footer address is computed from the header first.\<close>

definition PUT_FTRP :: "u32 \<Rightarrow> u32 \<Rightarrow> 'a mem_scheme \<Rightarrow> 'a mem_scheme res" where
  "PUT_FTRP bp v s = bnd (FTRP bp s) (\<lambda>p. PUT p v s)"

section \<open>Internal helper routines\<close>

definition ff_coalesce :: "u32 \<Rightarrow> 'a mem_scheme \<Rightarrow> (u32 \<times> 'a mem_scheme) res" where
  "ff_coalesce bp s =
     bnd (PREV_BLKP bp s) (\<lambda>prev.
     bnd (FTRP prev s) (\<lambda>pf.
     bnd (GET_ALLOC pf s) (\<lambda>prev_alloc.
     bnd (NEXT_BLKP bp s) (\<lambda>next.
     bnd (GET_ALLOC (HDRP next) s) (\<lambda>next_alloc.
     bnd (GET_SIZE (HDRP bp) s) (\<lambda>sz.
     if prev_alloc \<noteq> 0 \<and> next_alloc \<noteq> 0 then ok (bp, s)
     else if prev_alloc \<noteq> 0 \<and> next_alloc = 0 then
       bnd (GET_SIZE (HDRP next) s) (\<lambda>nsz.
       let sz = sz + nsz in
       bnd (PUT (HDRP bp) (PACK sz 0) s) (\<lambda>s.
       bnd (PUT_FTRP bp (PACK sz 0) s) (\<lambda>s.
       ok (bp, s))))
     else if prev_alloc = 0 \<and> next_alloc \<noteq> 0 then
       bnd (GET_SIZE (HDRP prev) s) (\<lambda>psz.
       let sz = sz + psz in
       bnd (PUT_FTRP bp (PACK sz 0) s) (\<lambda>s.
       bnd (PREV_BLKP bp s) (\<lambda>prev.
       bnd (PUT (HDRP prev) (PACK sz 0) s) (\<lambda>s.
       bnd (PREV_BLKP bp s) (\<lambda>bp.
       ok (bp, s))))))
     else
       bnd (GET_SIZE (HDRP prev) s) (\<lambda>psz.
       bnd (FTRP next s) (\<lambda>nf.
       bnd (GET_SIZE nf s) (\<lambda>nsz.
       let sz = sz + (psz + nsz) in
       bnd (PUT (HDRP prev) (PACK sz 0) s) (\<lambda>s.
       bnd (NEXT_BLKP bp s) (\<lambda>next.
       bnd (PUT_FTRP next (PACK sz 0) s) (\<lambda>s.
       bnd (PREV_BLKP bp s) (\<lambda>bp.
       ok (bp, s))))))))))))))"

definition ff_extend_heap :: "u32 \<Rightarrow> 'a mem_scheme \<Rightarrow> (u32 \<times> 'a mem_scheme) res" where
  "ff_extend_heap words s =
     (let sz = (if words mod 2 \<noteq> 0 then (words + 1) * WSIZE else words * WSIZE);
          (bp, s) = mem_sbrk sz s
      in if bp = -1 then ok (0, s)
         else
           bnd (PUT (HDRP bp) (PACK sz 0) s) (\<lambda>s.
           bnd (PUT_FTRP bp (PACK sz 0) s) (\<lambda>s.
           bnd (NEXT_BLKP bp s) (\<lambda>next.
           bnd (PUT (HDRP next) (PACK 0 1) s) (\<lambda>s.
           ff_coalesce bp s)))))"

definition ff_place :: "u32 \<Rightarrow> u32 \<Rightarrow> 'a mem_scheme \<Rightarrow> 'a mem_scheme res" where
  "ff_place bp asize s =
     bnd (GET_SIZE (HDRP bp) s) (\<lambda>csize.
     if csize - asize \<ge> DSIZE + OVERHEAD then
       bnd (PUT (HDRP bp) (PACK asize 1) s) (\<lambda>s.
       bnd (PUT_FTRP bp (PACK asize 1) s) (\<lambda>s.
       bnd (NEXT_BLKP bp s) (\<lambda>bp.
       bnd (PUT (HDRP bp) (PACK (csize - asize) 0) s) (\<lambda>s.
       PUT_FTRP bp (PACK (csize - asize) 0) s))))
     else
       bnd (PUT (HDRP bp) (PACK csize 1) s) (\<lambda>s.
       PUT_FTRP bp (PACK csize 1) s))"

text \<open>The loop of \<^verbatim>\<open>find_fit\<close>; on a corrupted heap it need not end, hence the option.\<close>

partial_function (option) ff_find_loop :: "u32 \<Rightarrow> u32 \<Rightarrow> 'a mem_scheme \<Rightarrow> u32 res" where
  "ff_find_loop asize bp s =
     bnd (GET_SIZE (HDRP bp) s) (\<lambda>sz.
     if sz > 0 then
       bnd (GET_ALLOC (HDRP bp) s) (\<lambda>alloc.
       if alloc = 0 \<and> asize \<le> sz then ok bp
       else bnd (NEXT_BLKP bp s) (\<lambda>next. ff_find_loop asize next s))
     else ok 0)"

definition ff_find_fit :: "u32 \<Rightarrow> ff \<Rightarrow> u32 res" where
  "ff_find_fit asize s = ff_find_loop asize (heap_listp s) s"

section \<open>The allocator's interface\<close>

text \<open>
  The guard of \<^verbatim>\<open>mm_init\<close> compares the result of \<^verbatim>\<open>mem_sbrk\<close> with NULL, as the code does.
\<close>

definition ff_mm_init :: "ff \<Rightarrow> (int \<times> ff) res" where
  "ff_mm_init s =
     (let (p, s) = mem_sbrk (4 * WSIZE) s; s = s\<lparr>heap_listp := p\<rparr>
      in if heap_listp s = 0 then ok (-1, s)
         else
           bnd (PUT (heap_listp s) 0 s) (\<lambda>s.
           bnd (PUT (heap_listp s + WSIZE) (PACK OVERHEAD 1) s) (\<lambda>s.
           bnd (PUT (heap_listp s + DSIZE) (PACK OVERHEAD 1) s) (\<lambda>s.
           bnd (PUT (heap_listp s + WSIZE + DSIZE) (PACK 0 1) s) (\<lambda>s.
           let s = s\<lparr>heap_listp := heap_listp s + DSIZE\<rparr> in
           bnd (ff_extend_heap (CHUNKSIZE div WSIZE) s) (\<lambda>(bp, s).
           if bp = 0 then ok (-1, s) else ok (0, s)))))))"

text \<open>\<^verbatim>\<open>asize\<close> of \<^verbatim>\<open>mm_malloc\<close>: the request with overhead, rounded up to eight.\<close>

definition ff_asize :: "u32 \<Rightarrow> u32" where
  "ff_asize sz =
     (if sz \<le> DSIZE then DSIZE + OVERHEAD
      else DSIZE * ((sz + OVERHEAD + (DSIZE - 1)) div DSIZE))"

definition ff_mm_malloc :: "u32 \<Rightarrow> ff \<Rightarrow> (u32 \<times> ff) res" where
  "ff_mm_malloc sz s =
     (if sz \<le> 0 then ok (0, s)
      else
        let asize = ff_asize sz in
        bnd (ff_find_fit asize s) (\<lambda>bp.
        if bp \<noteq> 0 then bnd (ff_place bp asize s) (\<lambda>s. ok (bp, s))
        else
          let extendsize = CMAX asize CHUNKSIZE in
          bnd (ff_extend_heap (extendsize div WSIZE) s) (\<lambda>(bp, s).
          if bp = 0 then ok (0, s)
          else bnd (ff_place bp asize s) (\<lambda>s. ok (bp, s)))))"

definition ff_mm_free :: "u32 \<Rightarrow> ff \<Rightarrow> ff res" where
  "ff_mm_free bp s =
     bnd (GET_SIZE (HDRP bp) s) (\<lambda>sz.
     bnd (PUT (HDRP bp) (PACK sz 0) s) (\<lambda>s.
     bnd (PUT_FTRP bp (PACK sz 0) s) (\<lambda>s.
     bnd (ff_coalesce bp s) (\<lambda>(_, s). ok s))))"

definition ff_mm_realloc :: "u32 \<Rightarrow> u32 \<Rightarrow> ff \<Rightarrow> (u32 \<times> ff) res" where
  "ff_mm_realloc ptr sz s =
     bnd (ff_mm_malloc sz s) (\<lambda>(newp, s).
     if newp = 0 then fail (Exit 1)
     else
       bnd (GET_SIZE (HDRP ptr) s) (\<lambda>copySize.
       let copySize = (if sz < copySize then sz else copySize) in
       bnd (memcpy newp ptr (unat copySize) s) (\<lambda>s.
       bnd (ff_mm_free ptr s) (\<lambda>s.
       ok (newp, s)))))"

section \<open>The heap checker\<close>

text \<open>What the checker prints, one constructor per \<^verbatim>\<open>printf\<close>.\<close>

datatype ff_msg =
    Heap_at u32
  | Bad_prologue | Bad_epilogue
  | Not_aligned u32 | Hdr_ftr_mismatch
  | EOL u32 | Block_line u32 u32 bool u32 bool

definition ff_printblock :: "u32 \<Rightarrow> 'a mem_scheme \<Rightarrow> ff_msg list res" where
  "ff_printblock bp s =
     bnd (GET_SIZE (HDRP bp) s) (\<lambda>hsize.
     bnd (GET_ALLOC (HDRP bp) s) (\<lambda>halloc.
     bnd (FTRP bp s) (\<lambda>f.
     bnd (GET_SIZE f s) (\<lambda>fsize.
     bnd (GET_ALLOC f s) (\<lambda>falloc.
     if hsize = 0 then ok [EOL bp]
     else ok [Block_line bp hsize (halloc \<noteq> 0) fsize (falloc \<noteq> 0)])))))"

definition ff_checkblock :: "u32 \<Rightarrow> 'a mem_scheme \<Rightarrow> ff_msg list res" where
  "ff_checkblock bp s =
     bnd (GET (HDRP bp) s) (\<lambda>hdr.
     bnd (FTRP bp s) (\<lambda>f.
     bnd (GET f s) (\<lambda>ftr.
     ok ((if bp mod 8 \<noteq> 0 then [Not_aligned bp] else [])
       @ (if hdr \<noteq> ftr then [Hdr_ftr_mismatch] else [])))))"

text \<open>The loop over the blocks: the messages so far and the block that ended the loop.\<close>

partial_function (option) ff_check_loop ::
  "bool \<Rightarrow> u32 \<Rightarrow> ff_msg list \<Rightarrow> 'a mem_scheme \<Rightarrow> (ff_msg list \<times> u32) res" where
  "ff_check_loop verbose bp out s =
     bnd (GET_SIZE (HDRP bp) s) (\<lambda>sz.
     if sz > 0 then
       bnd (if verbose then ff_printblock bp s else ok []) (\<lambda>o1.
       bnd (ff_checkblock bp s) (\<lambda>o2.
       bnd (NEXT_BLKP bp s) (\<lambda>next.
       ff_check_loop verbose next (out @ o1 @ o2) s)))
     else ok (out, bp))"

definition ff_mm_checkheap :: "bool \<Rightarrow> ff \<Rightarrow> ff_msg list res" where
  "ff_mm_checkheap verbose s =
     bnd (GET_SIZE (HDRP (heap_listp s)) s) (\<lambda>psz.
     bnd (GET_ALLOC (HDRP (heap_listp s)) s) (\<lambda>palloc.
     let o1 = (if verbose then [Heap_at (heap_listp s)] else [])
           @ (if psz \<noteq> DSIZE \<or> palloc = 0 then [Bad_prologue] else []) in
     bnd (ff_checkblock (heap_listp s) s) (\<lambda>o2.
     bnd (ff_check_loop verbose (heap_listp s) (o1 @ o2) s) (\<lambda>(out, bp).
     bnd (if verbose then ff_printblock bp s else ok []) (\<lambda>o3.
     bnd (GET_SIZE (HDRP bp) s) (\<lambda>esz.
     bnd (GET_ALLOC (HDRP bp) s) (\<lambda>ealloc.
     ok (out @ o3 @ (if esz \<noteq> 0 \<or> ealloc = 0 then [Bad_epilogue] else [])))))))))"

end
