(* ===== verification/Blocks.thy ===== *)
theory Blocks
  imports Chain
begin

text \<open>
  The operations of a boundary-tag allocator on the abstract heap, a list of blocks: joining a
  free block with its neighbours, placing a request in a free block, first fit. Nothing here
  knows how a heap lies in memory; the theories of the allocators refine these functions.
\<close>

section \<open>No two neighbouring free blocks\<close>

lemma coalesced_Nil [simp]: "coalesced []"
  by (simp add: coalesced_def)

lemma coalesced_Cons:
  "coalesced (b # ys) \<longleftrightarrow> coalesced ys \<and> (ys = [] \<or> snd b \<or> snd (hd ys))"
  by (cases ys) (auto simp: coalesced_def)

lemma coalesced_append:
  "coalesced (xs @ ys) \<longleftrightarrow> coalesced xs \<and> coalesced ys \<and>
     (xs = [] \<or> ys = [] \<or> snd (last xs) \<or> snd (hd ys))"
  by (auto simp: coalesced_def successively_append_iff)

section \<open>Requests\<close>

text \<open>The block size for a request of \<open>n\<close> bytes: header, footer, and the multiple of eight above.\<close>

definition asize_of :: "nat \<Rightarrow> nat" where
  "asize_of n = (if n \<le> 8 then 16 else 8 * ((n + 15) div 8))"

lemma asize_of_props:
  "16 \<le> asize_of n" "8 dvd asize_of n" "n + 8 \<le> asize_of n" "asize_of n \<le> n + 16" "asize_of n \<le> max 16 (n + 15)"
  by (auto simp: asize_of_def)

section \<open>Joining\<close>

text \<open>
  The abstract operation: a free block of \<open>n\<close> bytes is joined with a free right
  neighbour and with a free left neighbour. The result is again a prefix, a block size
  and a suffix.
\<close>

definition join_next :: "nat \<Rightarrow> blk list \<Rightarrow> nat \<times> blk list" where
  "join_next n ys = (case ys of (k, False) # ys' \<Rightarrow> (n + k, ys') | _ \<Rightarrow> (n, ys))"

definition join_blocks :: "blk list \<Rightarrow> nat \<Rightarrow> blk list \<Rightarrow> blk list \<times> nat \<times> blk list" where
  "join_blocks xs n ys =
     (let (n1, ys1) = join_next n ys
      in if xs \<noteq> [] \<and> \<not> snd (last xs) then (butlast xs, fst (last xs) + n1, ys1)
         else (xs, n1, ys1))"

lemma join_blocks_extent:
  assumes "join_blocks xs n ys = (xs', n', ys')"
  shows "extent xs' + n' + extent ys' = extent xs + n + extent ys"
    and "extent xs' \<le> extent xs" and "extent ys' \<le> extent ys"
  using assms extent_butlast [of xs]
  by (auto simp: join_blocks_def join_next_def split: if_splits list.splits prod.splits bool.splits)

lemma join_blocks_grow: "join_blocks xs n ys = (xs', n', ys') \<Longrightarrow> n \<le> n'"
  by (auto simp: join_blocks_def join_next_def split: if_splits list.splits prod.splits bool.splits)

lemma join_blocks_prologue:
  "join_blocks xs n ys = (xs', n', ys') \<Longrightarrow>
   join_blocks ((8, True) # xs) n ys = ((8, True) # xs', n', ys')"
  by (auto simp: join_blocks_def Let_def split: if_splits prod.splits)

lemma join_blocks_wf:
  assumes "join_blocks xs n ys = (xs', n', ys')"
    and "coalesced xs" "coalesced ys" "\<forall>b \<in> set xs. 16 \<le> fst b" "\<forall>b \<in> set ys. 16 \<le> fst b" "16 \<le> n"
  shows "coalesced (xs' @ (n', False) # ys')" "\<forall>b \<in> set (xs' @ (n', False) # ys'). 16 \<le> fst b"
proof -
  obtain n1 ys1 where n1: "join_next n ys = (n1, ys1)" by fastforce
  then have r: "coalesced ((n1, False) # ys1)" "\<forall>b \<in> set ys1. 16 \<le> fst b" "16 \<le> n1"
    using assms(3,5,6)
    by (auto simp: join_next_def coalesced_Cons split: list.splits prod.splits bool.splits)
  show "coalesced (xs' @ (n', False) # ys')"
  proof (cases xs rule: rev_cases)
    case Nil
    with assms(1) n1 r show ?thesis by (auto simp: join_blocks_def)
  next
    case (snoc x0 b)
    obtain k f where "b = (k, f)" by fastforce
    with snoc assms(1,2) n1 r show ?thesis
      by (auto simp: join_blocks_def coalesced_append coalesced_Cons split: if_splits)
  qed
  show "\<forall>b \<in> set (xs' @ (n', False) # ys'). 16 \<le> fst b"
    using assms(1,4) n1 r
    by (auto simp: join_blocks_def split: if_splits dest: in_set_butlastD)
qed

text \<open>Joining leaves the allocated payloads where they are.\<close>

lemma join_blocks_payloads:
  assumes "join_blocks xs n ys = (xs', n', ys')"
  shows "payloads h (xs' @ (n', False) # ys') = payloads h (xs @ (n, False) # ys)"
proof -
  obtain n1 ys1 where n1: "join_next n ys = (n1, ys1)" by fastforce
  then have r: "payloads k ((n1, False) # ys1) = payloads k ((n, False) # ys)" for k
    by (auto simp: join_next_def add.assoc split: list.splits prod.splits bool.splits)
  show ?thesis
  proof (cases xs rule: rev_cases)
    case Nil
    with assms n1 r [of h] show ?thesis by (auto simp: join_blocks_def)
  next
    case (snoc x0 b)
    obtain k f where "b = (k, f)" by fastforce
    with snoc assms n1 r [of "h + extent x0 + k"] show ?thesis
      by (auto simp: join_blocks_def add.assoc split: if_splits)
  qed
qed

section \<open>Placing\<close>

definition place_blocks :: "nat \<Rightarrow> nat \<Rightarrow> blk list" where
  "place_blocks n a = (if 16 \<le> n - a then [(a, True), (n - a, False)] else [(n, True)])"

lemma place_blocks_payloads:
  "a \<le> n \<Longrightarrow> payloads h (xs @ place_blocks n a @ ys)
     = payloads h xs @ (h + extent xs + 4, (if 16 \<le> n - a then a else n) - 8)
         # payloads (h + extent xs + n) ys"
  by (auto simp: place_blocks_def)

text \<open>Freeing the block that was just placed joins it with its remainder.\<close>

lemma join_placed:
  assumes "coalesced (xs @ (k, False) # ys)" "a \<le> k"
  shows "\<exists>n zs. xs @ place_blocks k a @ ys = xs @ (n, True) # zs \<and> join_blocks xs n zs = (xs, k, ys)"
proof -
  have l: "xs = [] \<or> snd (last xs)" and r: "ys = [] \<or> snd (hd ys)"
    using assms(1) by (auto simp: coalesced_append coalesced_Cons)
  show ?thesis
  proof (cases "16 \<le> k - a")
    case True
    then show ?thesis using l assms(2)
      by (intro exI [of _ a] exI [of _ "(k - a, False) # ys"]) (auto simp: place_blocks_def join_blocks_def join_next_def)
  next
    case False
    then show ?thesis using l r
      by (intro exI [of _ k] exI [of _ ys])
        (auto simp: place_blocks_def join_blocks_def join_next_def neq_Nil_conv split: list.splits prod.splits bool.splits)
  qed
qed

section \<open>First fit\<close>

fun first_fit :: "nat \<Rightarrow> blk list \<Rightarrow> (blk list \<times> nat \<times> blk list) option" where
  "first_fit a [] = None"
| "first_fit a ((n, f) # bs) =
     (if \<not> f \<and> a \<le> n then Some ([], n, bs)
      else map_option (\<lambda>(xs, k, ys). ((n, f) # xs, k, ys)) (first_fit a bs))"

lemma first_fit_Some:
  "first_fit a bs = Some (xs, n, ys) \<Longrightarrow>
   bs = xs @ (n, False) # ys \<and> a \<le> n \<and> (\<forall>(k, f) \<in> set xs. f \<or> k < a)"
  by (induction a bs arbitrary: xs rule: first_fit.induct) (auto split: if_splits)

lemma first_fit_None: "first_fit a bs = None \<longleftrightarrow> (\<forall>(k, f) \<in> set bs. f \<or> k < a)"
  by (induction a bs rule: first_fit.induct) auto

section \<open>Payloads that are left alone\<close>

definition kept :: "(nat \<times> nat) list \<Rightarrow> memory \<Rightarrow> memory \<Rightarrow> bool" where
  "kept ps m m' \<longleftrightarrow> (\<forall>p n x. (p, n) \<in> set ps \<longrightarrow> p \<le> x \<longrightarrow> x < p + n \<longrightarrow> m' x = m x)"

lemma kept_trans: "kept ps m m' \<Longrightarrow> kept ps m' m'' \<Longrightarrow> kept ps m m''"
  unfolding kept_def by metis

lemma kept_subset: "kept ps m m' \<Longrightarrow> set qs \<subseteq> set ps \<Longrightarrow> kept qs m m'"
  unfolding kept_def by blast

text \<open>Changes inside one block of a chain keep every other payload.\<close>

lemma kept_outside:
  assumes ch: "gchain F c h (xs @ (k, f) # ys)"
    and so: "same_outside (h + extent xs) (h + extent xs + k) m m'"
  shows "kept (payloads h xs @ payloads (h + extent xs + k) ys) m m'"
proof -
  have "m' x = m x" if "(p, n) \<in> set (payloads h xs)" "p \<le> x" "x < p + n" for p n x
    using payload_bounds [OF that(1), of F c] ch that so by (simp add: same_outside_def)
  moreover have "m' x = m x" if "(p, n) \<in> set (payloads (h + extent xs + k) ys)" "p \<le> x" "x < p + n" for p n x
    using payload_bounds [OF that(1), of F c] ch that so by (simp add: same_outside_def)
  ultimately show ?thesis by (auto simp: kept_def)
qed

end
