(* ===== verification/FirstFit_Heap.thy ===== *)
theory FirstFit_Heap
  imports FirstFit Blocks
begin

text \<open>
  Symbolic execution of the helper routines of the first-fit allocator on a boundary-tagged
  heap: what each routine returns and which chain it leaves, with the bytes it may change.
\<close>

section \<open>Coalescing\<close>

text \<open>
  The four cases, for a free block at \<open>h = hp + pn\<close> between a block at \<open>hp\<close> and a block
  (or the epilogue) at \<open>h + n\<close>.
\<close>

lemma PUT_FTRP_tag [simp]:
  "in_arena s (a - 4) 4 \<Longrightarrow> load32 (heap_bytes s) (a - 4) = tag n f \<Longrightarrow> 8 dvd n \<Longrightarrow> 4 \<le> a \<Longrightarrow>
   8 \<le> a + n \<Longrightarrow> in_arena s (a + n - 8) 4 \<Longrightarrow>
   PUT_FTRP (w32 a) v s = ok (s\<lparr>heap_bytes := store32 (heap_bytes s) (a + n - 8) v\<rparr>)"
  by (simp add: PUT_FTRP_def)

lemma ff_coalesce_none:
  assumes "8 \<le> pn" "8 dvd pn" "8 \<le> n" "8 dvd n" "8 dvd nn"
    and "in_arena s hp (pn + n + 4)"
    and "load32 (heap_bytes s) hp = tag pn True" "load32 (heap_bytes s) (hp + pn - 4) = tag pn True"
    and "load32 (heap_bytes s) (hp + pn) = tag n False"
    and "load32 (heap_bytes s) (hp + pn + n) = tag nn True"
  shows "ff_coalesce (w32 (hp + pn + 4)) s = ok (w32 (hp + pn + 4), s)"
proof -
  obtain a b where [simp]: "pn = 8 + a" "n = 8 + b"
    using assms by (metis le_iff_add)
  show ?thesis using assms by (simp add: ff_coalesce_def in_arena_def ac_simps)
qed

lemma ff_coalesce_next:
  assumes "8 \<le> pn" "8 dvd pn" "8 \<le> n" "8 dvd n" "8 \<le> nn" "8 dvd nn"
    and "in_arena s hp (pn + n + nn)"
    and "load32 (heap_bytes s) hp = tag pn True" "load32 (heap_bytes s) (hp + pn - 4) = tag pn True"
    and "load32 (heap_bytes s) (hp + pn) = tag n False"
    and "load32 (heap_bytes s) (hp + pn + n) = tag nn False"
  shows "ff_coalesce (w32 (hp + pn + 4)) s = ok (w32 (hp + pn + 4),
    s\<lparr>heap_bytes := store32 (store32 (heap_bytes s) (hp + pn) (tag (n + nn) False))
        (hp + pn + n + nn - 4) (tag (n + nn) False)\<rparr>)"
proof -
  obtain a b c where [simp]: "pn = 8 + a" "n = 8 + b" "nn = 8 + c"
    using assms by (metis le_iff_add)
  show ?thesis using assms by (simp add: ff_coalesce_def in_arena_def ac_simps)
qed

lemma ff_coalesce_prev:
  assumes "8 \<le> pn" "8 dvd pn" "8 \<le> n" "8 dvd n" "8 dvd nn"
    and "in_arena s hp (pn + n + 4)"
    and "load32 (heap_bytes s) hp = tag pn False" "load32 (heap_bytes s) (hp + pn - 4) = tag pn False"
    and "load32 (heap_bytes s) (hp + pn) = tag n False"
    and "load32 (heap_bytes s) (hp + pn + n) = tag nn True"
  shows "ff_coalesce (w32 (hp + pn + 4)) s = ok (w32 (hp + 4),
    s\<lparr>heap_bytes := store32 (store32 (heap_bytes s) (hp + pn + n - 4) (tag (pn + n) False))
        hp (tag (pn + n) False)\<rparr>)"
proof -
  obtain a b where [simp]: "pn = 8 + a" "n = 8 + b"
    using assms by (metis le_iff_add)
  show ?thesis using assms by (simp add: ff_coalesce_def in_arena_def ac_simps)
qed

lemma ff_coalesce_both:
  assumes "8 \<le> pn" "8 dvd pn" "8 \<le> n" "8 dvd n" "8 \<le> nn" "8 dvd nn"
    and "in_arena s hp (pn + n + nn)"
    and "load32 (heap_bytes s) hp = tag pn False" "load32 (heap_bytes s) (hp + pn - 4) = tag pn False"
    and "load32 (heap_bytes s) (hp + pn) = tag n False"
    and "load32 (heap_bytes s) (hp + pn + n) = tag nn False"
    and "load32 (heap_bytes s) (hp + pn + n + nn - 4) = tag nn False"
  shows "ff_coalesce (w32 (hp + pn + 4)) s = ok (w32 (hp + 4),
    s\<lparr>heap_bytes := store32 (store32 (heap_bytes s) hp (tag (pn + n + nn) False))
        (hp + pn + n + nn - 4) (tag (pn + n + nn) False)\<rparr>)"
proof -
  obtain a b c where [simp]: "pn = 8 + a" "n = 8 + b" "nn = 8 + c"
    using assms by (metis le_iff_add)
  show ?thesis using assms by (simp add: ff_coalesce_def in_arena_def ac_simps)
qed

text \<open>A stretch of blocks stamped as one free block.\<close>

lemma chain_merge:
  assumes "chain m h (xs @ mid @ ys)" "extent mid = n" "8 \<le> n"
  shows "chain (set_block m (h + extent xs) n False) h (xs @ (n, False) # ys)"
    "same_outside (h + extent xs) (h + extent xs + n) m (set_block m (h + extent xs) n False)"
  using chain_restamp [OF assms, of False] same_outside_set_block [OF assms(3)] by simp_all

text \<open>Between a left neighbour and a free right neighbour.\<close>

lemma ff_coalesce_free:
  assumes ch: "chain (heap_bytes s) h (xs @ (n, False) # (nn, False) # ys)" and xs: "xs = x0 @ [(pn, pf)]"
    and ar: "in_arena s h (extent (xs @ (n, False) # (nn, False) # ys) + 4)"
  shows "\<exists>m'. ff_coalesce (w32 (h + extent xs + 4)) s
        = ok (w32 (h + extent (if pf then xs else x0) + 4), s\<lparr>heap_bytes := m'\<rparr>)
      \<and> chain m' h ((if pf then xs else x0) @ ((if pf then n + nn else pn + n + nn), False) # ys)
      \<and> same_outside (h + extent (if pf then xs else x0))
          (h + extent (if pf then xs else x0) + (if pf then n + nn else pn + n + nn)) (heap_bytes s) m'"
proof -
  let ?m = "heap_bytes s" and ?hp = "h + extent x0"
  have pn: "8 \<le> pn" "8 dvd pn" "load32 ?m ?hp = tag pn pf" "load32 ?m (?hp + pn - 4) = tag pn pf"
    and n: "8 \<le> n" "8 dvd n" "load32 ?m (?hp + pn) = tag n False"
    and nn: "8 \<le> nn" "8 dvd nn" "load32 ?m (?hp + pn + n) = tag nn False" "load32 ?m (?hp + pn + n + nn - 4) = tag nn False"
    using ch xs by (auto simp: add.assoc)
  have arn: "in_arena s ?hp (pn + n + nn)" using ar xs by (auto simp: in_arena_def)
  show ?thesis
  proof (cases pf)
    case True
    note M = chain_merge [of ?m h xs "[(n, False), (nn, False)]" ys "n + nn"]
    have "ff_coalesce (w32 (h + extent xs + 4)) s
        = ok (w32 (h + extent xs + 4), s\<lparr>heap_bytes := set_block ?m (h + extent xs) (n + nn) False\<rparr>)"
      using ff_coalesce_next [OF pn(1,2) n(1,2) nn(1,2) arn] pn n nn xs True
      by (simp add: set_block_def ac_simps)
    then show ?thesis using M ch n True by auto
  next
    case False
    note M = chain_merge [of ?m h x0 "[(pn, False), (n, False), (nn, False)]" ys "pn + n + nn"]
    have "ff_coalesce (w32 (h + extent xs + 4)) s
        = ok (w32 (?hp + 4), s\<lparr>heap_bytes := set_block ?m ?hp (pn + n + nn) False\<rparr>)"
      using ff_coalesce_both [OF pn(1,2) n(1,2) nn(1,2) arn] pn n nn xs False
      by (simp add: set_block_def ac_simps)
    then show ?thesis using M ch n xs False by auto
  qed
qed

text \<open>Between a left neighbour and an allocated block or the end of the heap.\<close>

lemma ff_coalesce_used:
  assumes ch: "chain (heap_bytes s) h (xs @ (n, False) # ys)" and xs: "xs = x0 @ [(pn, pf)]"
    and ar: "in_arena s h (extent (xs @ (n, False) # ys) + 4)"
    and nn: "8 dvd nn" "load32 (heap_bytes s) (h + extent xs + n) = tag nn True"
  shows "\<exists>m'. ff_coalesce (w32 (h + extent xs + 4)) s
        = ok (w32 (h + extent (if pf then xs else x0) + 4), s\<lparr>heap_bytes := m'\<rparr>)
      \<and> chain m' h ((if pf then xs else x0) @ ((if pf then n else pn + n), False) # ys)
      \<and> same_outside (h + extent (if pf then xs else x0))
          (h + extent (if pf then xs else x0) + (if pf then n else pn + n)) (heap_bytes s) m'"
proof -
  let ?m = "heap_bytes s" and ?hp = "h + extent x0"
  have pn: "8 \<le> pn" "8 dvd pn" "load32 ?m ?hp = tag pn pf" "load32 ?m (?hp + pn - 4) = tag pn pf"
    and n: "8 \<le> n" "8 dvd n" "load32 ?m (?hp + pn) = tag n False"
    using ch xs by (auto simp: add.assoc)
  have arp: "in_arena s ?hp (pn + n + 4)" using ar xs by (auto simp: in_arena_def)
  show ?thesis
  proof (cases pf)
    case True
    have "ff_coalesce (w32 (h + extent xs + 4)) s = ok (w32 (h + extent xs + 4), s)"
      using ff_coalesce_none [OF pn(1,2) n(1,2) nn(1) arp] pn n nn xs True by (simp add: ac_simps)
    then show ?thesis using ch True by (intro exI [of _ ?m]) simp
  next
    case False
    note M = chain_merge [of ?m h x0 "[(pn, False), (n, False)]" ys "pn + n"]
    have "ff_coalesce (w32 (h + extent xs + 4)) s
        = ok (w32 (?hp + 4), s\<lparr>heap_bytes := set_block ?m ?hp (pn + n) False\<rparr>)"
      using ff_coalesce_prev [OF pn(1,2) n(1,2) nn(1) arp] pn n nn xs False
        set_block_swap [of "pn + n" ?m ?hp False]
      by (simp add: ac_simps)
    then show ?thesis using M ch n xs False by auto
  qed
qed

lemma ff_coalesce_chain:
  assumes ch: "chain (heap_bytes s) h (xs @ (n, False) # ys)" and xs: "xs \<noteq> []"
    and e: "load32 (heap_bytes s) (h + extent (xs @ (n, False) # ys)) = tag e True" "8 dvd e"
    and ar: "in_arena s h (extent (xs @ (n, False) # ys) + 4)"
    and j: "join_blocks xs n ys = (xs', n', ys')"
  shows "\<exists>m'. ff_coalesce (w32 (h + extent xs + 4)) s
        = ok (w32 (h + extent xs' + 4), s\<lparr>heap_bytes := m'\<rparr>)
      \<and> chain m' h (xs' @ (n', False) # ys')
      \<and> same_outside (h + extent xs') (h + extent xs' + n') (heap_bytes s) m'"
proof -
  obtain x0 pn pf where x: "xs = x0 @ [(pn, pf)]" using xs by (metis rev_exhaust surj_pair)
  show ?thesis
  proof (cases "\<exists>nn ys0. ys = (nn, False) # ys0")
    case True
    then obtain nn ys0 where y: "ys = (nn, False) # ys0" by blast
    then have "xs' = (if pf then xs else x0)" "n' = (if pf then n + nn else pn + n + nn)" "ys' = ys0"
      using j x by (auto simp: join_blocks_def join_next_def split: if_splits)
    then show ?thesis using ff_coalesce_free [OF _ x, of s h n nn ys0] ch ar y by simp
  next
    case False
    then have "join_next n ys = (n, ys)"
      by (auto simp: join_next_def split: list.splits prod.splits bool.splits)
    then have r: "xs' = (if pf then xs else x0)" "n' = (if pf then n else pn + n)" "ys' = ys"
      using j x by (auto simp: join_blocks_def split: if_splits)
    obtain nn where "8 dvd nn" "load32 (heap_bytes s) (h + extent xs + n) = tag nn True"
    proof (cases ys)
      case Nil
      with e that show ?thesis by (auto simp: add.assoc)
    next
      case (Cons y ys0)
      with False obtain k where "y = (k, True)" by (cases y) auto
      with Cons ch that show ?thesis by (auto simp: add.assoc)
    qed
    then show ?thesis unfolding r by (rule ff_coalesce_used [OF ch x ar])
  qed
qed

section \<open>Placing\<close>

definition place_mem :: "memory \<Rightarrow> nat \<Rightarrow> nat \<Rightarrow> nat \<Rightarrow> memory" where
  "place_mem m h n a =
     (if 16 \<le> n - a then set_block (set_block m h a True) (h + a) (n - a) False
      else set_block m h n True)"

lemma ff_place_mem:
  assumes "8 dvd n" "8 \<le> a" "8 dvd a" "a \<le> n" "in_arena s h n" "load32 (heap_bytes s) h = tag n f"
  shows "ff_place (w32 (h + 4)) (w32 a) s = ok (s\<lparr>heap_bytes := place_mem (heap_bytes s) h n a\<rparr>)"
proof -
  have thresh: "DSIZE + OVERHEAD = w32 16" by (simp add: w32_consts OVERHEAD_def)
  have n: "n < 4294967296" using in_arena_bound [OF assms(5)] by simp
  obtain b where a: "a = 8 + b" using assms(2) by (metis le_iff_add)
  obtain c where c: "n = a + c" using assms(4) by (metis le_iff_add)
  have c8: "8 dvd c" using assms(1,3) c by (simp add: dvd_add_right_iff)
  show ?thesis
  proof (cases "16 \<le> c")
    case True
    then obtain d where d: "c = 16 + d" by (metis le_iff_add)
    show ?thesis
      using assms c8 n unfolding ff_place_def thresh c a d
      by (simp add: place_mem_def set_block_def in_arena_def ac_simps)
  next
    case False
    then show ?thesis
      using assms c8 n unfolding ff_place_def thresh c a
      by (simp add: place_mem_def set_block_def in_arena_def ac_simps)
  qed
qed

lemma place_mem_chain:
  assumes "8 dvd n" "8 \<le> a" "8 dvd a" "a \<le> n"
  shows "chain (place_mem m h n a) h (place_blocks n a)"
    and "same_outside h (h + n) m (place_mem m h n a)"
    and "extent (place_blocks n a) = n"
proof -
  show "extent (place_blocks n a) = n" using assms by (simp add: place_blocks_def)
  show so: "same_outside h (h + n) m (place_mem m h n a)"
    using assms
    by (auto simp: place_mem_def same_outside_set_block
        intro!: same_outside_trans [OF same_outside_mono [OF same_outside_set_block [of a h m True]]]
          same_outside_mono [OF same_outside_set_block])
  show "chain (place_mem m h n a) h (place_blocks n a)"
  proof (cases "16 \<le> n - a")
    case True
    have "chain (set_block (set_block m h a True) (h + a) (n - a) False) h [(a, True)]"
      using True
      by (intro chain_same_outside [OF chain_set_block [OF assms(2,3), of m h True] same_outside_set_block]) auto
    moreover have "chain (set_block (set_block m h a True) (h + a) (n - a) False) (h + a) [(n - a, False)]"
      using True assms by (intro chain_set_block) (auto simp: dvd_diff_nat)
    ultimately show ?thesis using True by (simp add: place_mem_def place_blocks_def)
  next
    case False
    then show ?thesis using assms chain_set_block [of n m h True]
      by (simp add: place_mem_def place_blocks_def)
  qed
qed

section \<open>First fit\<close>

text \<open>The search loop terminates on a chain closed by the epilogue, and computes the first fit.\<close>

lemma ff_find_loop_first_fit:
  assumes "chain (heap_bytes s) h bs" "load32 (heap_bytes s) (h + extent bs) = tag 0 True"
    and "in_arena s h (extent bs + 4)" "a < 4294967296"
  shows "ff_find_loop (w32 a) (w32 (h + 4)) s
    = ok (case first_fit a bs of None \<Rightarrow> 0 | Some (xs, n, ys) \<Rightarrow> w32 (h + extent xs + 4))"
  using assms
proof (induction bs arbitrary: h)
  case Nil
  then show ?case by (subst ff_find_loop.simps) (simp add: in_arena_def)
next
  case (Cons b bs)
  obtain n f where b: "b = (n, f)" by fastforce
  have n: "8 \<le> n" "8 dvd n" "load32 (heap_bytes s) h = tag n f" "n < 4294967296"
    using Cons.prems(1) in_arena_bound [OF Cons.prems(3)] b by auto
  have "ff_find_loop (w32 a) (w32 (h + n + 4)) s
      = ok (case first_fit a bs of None \<Rightarrow> 0 | Some (xs, k, ys) \<Rightarrow> w32 (h + n + extent xs + 4))"
    using Cons.prems b by (intro Cons.IH) (auto simp: add.assoc in_arena_def)
  then show ?case
    using n Cons.prems(3,4) b
    by (subst ff_find_loop.simps)
      (auto simp: in_arena_def word_less_nat_alt ac_simps split: option.splits)
qed

section \<open>Extending the heap\<close>

text \<open>Stamping the fresh area: a free block of \<open>e\<close> bytes and a new epilogue header.\<close>

definition fresh_mem :: "memory \<Rightarrow> nat \<Rightarrow> nat \<Rightarrow> memory" where
  "fresh_mem m h e = store32 (set_block m h e False) (h + e) (tag 0 True)"

lemma fresh_mem_chain:
  assumes "chain m h xs" "8 \<le> e" "8 dvd e"
  shows "chain (fresh_mem m (h + extent xs) e) h (xs @ [(e, False)])"
    and "load32 (fresh_mem m (h + extent xs) e) (h + extent xs + e) = tag 0 True"
    and "same_outside (h + extent xs) (h + extent xs + e + 4) m (fresh_mem m (h + extent xs) e)"
proof -
  show so: "same_outside (h + extent xs) (h + extent xs + e + 4) m (fresh_mem m (h + extent xs) e)"
    unfolding fresh_mem_def
    by (rule same_outside_store32 [OF same_outside_mono [OF same_outside_set_block]]) (use assms in auto)
  show "load32 (fresh_mem m (h + extent xs) e) (h + extent xs + e) = tag 0 True"
    by (simp add: fresh_mem_def)
  have "chain (fresh_mem m (h + extent xs) e) h xs"
    by (rule chain_same_outside [OF assms(1) so]) simp
  moreover have "chain (fresh_mem m (h + extent xs) e) (h + extent xs) [(e, False)]"
    using assms by (simp add: fresh_mem_def set_block_def)
  ultimately show "chain (fresh_mem m (h + extent xs) e) h (xs @ [(e, False)])" by simp
qed

lemma bp_not_minus1: "a + 4 < 2 ^ 32 \<Longrightarrow> w32 a \<noteq> - 1"
proof
  assume "a + 4 < 2 ^ 32" "w32 a = - 1"
  then have "unat (w32 a) = 2 ^ 32 - 1" by (simp add: unsigned_minus_1_eq_mask mask_eq_exp_minus_1)
  with \<open>a + 4 < 2 ^ 32\<close> show False by simp
qed

lemma ff_extend_heap_ok:
  assumes ch: "chain (heap_bytes s) h xs" "xs \<noteq> []"
    and brk: "brk_of s = h + extent xs + 4" "brk_of s + e \<le> top_of s"
    and lo: "start_of s \<le> h"
    and e: "8 \<le> e" "8 dvd e" "e < 2 ^ 31"
    and j: "join_blocks xs e [] = (xs', n', ys')"
  shows "\<exists>m'. ff_extend_heap (w32 (e div 4)) s
        = ok (w32 (h + extent xs' + 4), s\<lparr>mem_brk := w32 (brk_of s + e), heap_bytes := m'\<rparr>)
      \<and> chain m' h (xs' @ (n', False) # ys') \<and> load32 m' (h + extent xs + e) = tag 0 True
      \<and> same_outside (h + extent xs') (h + extent xs + e + 4) (heap_bytes s) m'"
proof -
  let ?H = "h + extent xs" and ?m = "heap_bytes s"
  let ?s1 = "s\<lparr>mem_brk := w32 (brk_of s + e)\<rparr>"
  let ?s2 = "?s1\<lparr>heap_bytes := fresh_mem ?m ?H e\<rparr>"
  have top: "?H + 4 + e < 4294967296"
    using brk unat_u32_less [of "mem_max_addr s"] by simp
  have mb: "mem_brk s = w32 (?H + 4)" by (metis brk(1) w32_unat)
  obtain k where k: "e = 8 * k" using e(2) by (elim dvdE)
  have words: "w32 (e div 4) mod 2 = 0" "w32 (e div 4) * WSIZE = w32 e"
    using e(3) k by (simp_all add: w32_consts w32_mod)
  have sbrk: "mem_sbrk (w32 e) s = (w32 (?H + 4), ?s1)"
    using mem_sbrk_ok [of "w32 e" s] e(3) brk(1,2) mb by simp
  obtain b where b: "e = 8 + b" using e(1) by (metis le_iff_add)
  have ext: "ff_extend_heap (w32 (e div 4)) s = ff_coalesce (w32 (?H + 4)) ?s2"
    using e(2) top lo brk bp_not_minus1 [of "?H + 4"]
    by (simp only: ff_extend_heap_def words Let_def sbrk simp_thms if_False prod.case)
      (simp add: in_arena_def fresh_mem_def set_block_def b ac_simps)
  have ar: "in_arena ?s2 h (extent (xs @ [(e, False)]) + 4)"
    using lo brk by (simp add: in_arena_def)
  note fm = fresh_mem_chain [OF ch(1) e(1,2)]
  obtain m' where m': "ff_coalesce (w32 (?H + 4)) ?s2 = ok (w32 (h + extent xs' + 4), ?s2\<lparr>heap_bytes := m'\<rparr>)"
      "chain m' h (xs' @ (n', False) # ys')"
      "same_outside (h + extent xs') (h + extent xs' + n') (fresh_mem ?m ?H e) m'"
    using ff_coalesce_chain [of ?s2 h xs e "[]" 0 xs' n' ys'] fm ch(2) ar j by (auto simp: add.assoc)
  have x': "extent xs' + n' = extent xs + e" "extent xs' \<le> extent xs"
    using join_blocks_extent [OF j] by simp_all
  have "load32 m' (?H + e) = tag 0 True"
    using same_outside_load32 [OF m'(3)] fm(2) x' by simp
  moreover have "same_outside (h + extent xs') (?H + e + 4) ?m m'"
    by (rule same_outside_trans [OF same_outside_mono [OF fm(3)] same_outside_mono [OF m'(3)]])
      (use x' in auto)
  ultimately show ?thesis using ext m' by auto
qed

text \<open>Without room the heap stays as it is and the result is NULL.\<close>

lemma ff_extend_heap_fail:
  assumes "8 dvd e" "e < 2 ^ 32" "brk_of s + e < 2 ^ 32" "top_of s < brk_of s + e \<or> 2 ^ 31 \<le> e"
  shows "ff_extend_heap (w32 (e div 4)) s = ok (0, s)"
proof -
  obtain k where k: "e = 8 * k" using assms(1) by (elim dvdE)
  have words: "w32 (e div 4) mod 2 = 0" "w32 (e div 4) * WSIZE = w32 e"
    using assms(2) k by (simp_all add: w32_consts w32_mod)
  have "mem_sbrk (w32 e) s = (-1, s)"
    using assms mem_sbrk_fail [of s "w32 e"] mem_sbrk_negative [of "w32 e" s] by auto
  then show ?thesis by (simp add: ff_extend_heap_def words)
qed

end
