(* ===== verification/FirstFit_Correct.thy ===== *)
theory FirstFit_Correct
  imports FirstFit_Heap
begin

text \<open>
  The invariant of the first-fit allocator and what its interface does to it. \<open>ff_inv s bs\<close>
  says that behind the prologue the heap of \<open>s\<close> is the block list \<open>bs\<close>, up to the
  epilogue at the break.
\<close>

section \<open>The invariant\<close>

definition ff_inv :: "ff \<Rightarrow> blk list \<Rightarrow> bool" where
  "ff_inv s bs \<longleftrightarrow>
     arena_ok s
   \<and> heap_listp s = w32 (start_of s + 8)
   \<and> brk_of s = start_of s + 16 + extent bs
   \<and> chain (heap_bytes s) (start_of s + 4) ((8, True) # bs)
   \<and> load32 (heap_bytes s) (start_of s + 12 + extent bs) = tag 0 True
   \<and> (\<forall>b \<in> set bs. 16 \<le> fst b)
   \<and> coalesced bs"

text \<open>New block tags between prologue and epilogue, and a break that moved along with them.\<close>

lemma ff_inv_update:
  assumes "ff_inv s bs" "start_of s' = start_of s" "top_of s' = top_of s" "heap_listp s' = heap_listp s"
    and "brk_of s' = start_of s + 16 + extent bs'" "brk_of s' \<le> top_of s"
    and "chain (heap_bytes s') (start_of s + 4) ((8, True) # bs')"
    and "load32 (heap_bytes s') (start_of s + 12 + extent bs') = tag 0 True"
    and "coalesced bs'" "\<forall>b \<in> set bs'. 16 \<le> fst b"
  shows "ff_inv s' bs'"
  using assms unfolding ff_inv_def arena_ok_def by (simp del: gchain.simps)

text \<open>The allocated blocks: payload address and capacity.\<close>

definition ff_payloads :: "ff \<Rightarrow> blk list \<Rightarrow> (nat \<times> nat) list" where
  "ff_payloads s bs = payloads (start_of s + 12) bs"

lemma ff_invD:
  assumes "ff_inv s bs"
  shows "chain (heap_bytes s) (start_of s + 12) bs"
    and "load32 (heap_bytes s) (start_of s + 4) = tag 8 True"
    and "load32 (heap_bytes s) (start_of s + 8) = tag 8 True"
    and "in_arena s (start_of s + 4) (extent ((8, True) # bs) + 4)"
    and "0 < start_of s" "8 dvd start_of s" "brk_of s \<le> top_of s"
    and "start_of s + 16 + extent bs < 4294967296"
  using assms unat_u32_less [of "mem_max_addr s"]
  by (auto simp: ff_inv_def arena_ok_def in_arena_def ac_simps)

section \<open>The helper routines keep the invariant\<close>

lemma ff_find_fit_inv:
  assumes "ff_inv s bs" "a < 4294967296"
  shows "ff_find_fit (w32 a) s = ok (case first_fit a bs of
    None \<Rightarrow> 0 | Some (xs, n, ys) \<Rightarrow> w32 (start_of s + 16 + extent xs))"
proof -
  have "ff_find_loop (w32 a) (w32 (start_of s + 4 + 4)) s = ok (case first_fit a ((8, True) # bs) of
      None \<Rightarrow> 0 | Some (xs, n, ys) \<Rightarrow> w32 (start_of s + 4 + extent xs + 4))"
    using assms ff_invD(4) [OF assms(1)]
    by (intro ff_find_loop_first_fit) (auto simp: ff_inv_def ac_simps)
  then show ?thesis using assms(1)
    by (auto simp: ff_find_fit_def ff_inv_def ac_simps split: option.splits)
qed

lemma ff_place_inv:
  assumes inv: "ff_inv s (xs @ (n, False) # ys)" and a: "16 \<le> a" "8 dvd a" "a \<le> n"
  shows "\<exists>m'. ff_place (w32 (start_of s + 16 + extent xs)) (w32 a) s = ok (s\<lparr>heap_bytes := m'\<rparr>)
    \<and> ff_inv (s\<lparr>heap_bytes := m'\<rparr>) (xs @ place_blocks n a @ ys)
    \<and> same_outside (start_of s + 12 + extent xs) (start_of s + 12 + extent xs + n) (heap_bytes s) m'"
proof -
  let ?h = "start_of s + 12 + extent xs"
  let ?m' = "place_mem (heap_bytes s) ?h n a"
  note D = ff_invD [OF inv]
  have n: "8 dvd n" "load32 (heap_bytes s) ?h = tag n False" "in_arena s ?h n"
    using D(1,4) by (auto simp: in_arena_def)
  note pm = place_mem_chain(1,2) [where h = ?h and m = "heap_bytes s", OF n(1) _ a(2,3)]
    place_mem_chain(3) [OF n(1) _ a(2,3)]
  have "ff_place (w32 (?h + 4)) (w32 a) s = ok (s\<lparr>heap_bytes := ?m'\<rparr>)"
    by (rule ff_place_mem) (use a n in auto)
  moreover have "chain ?m' (start_of s + 12) (xs @ place_blocks n a @ ys)"
    using chain_replace [of exact_ftr "heap_bytes s" "start_of s + 12" xs "[(n, False)]" ys ?m'] pm D(1) a(1) by auto
  moreover have "load32 ?m' p = load32 (heap_bytes s) p" if "p + 4 \<le> ?h \<or> ?h + n \<le> p" for p
    using same_outside_load32 [OF pm(2) that] a(1) by simp
  moreover have "coalesced (xs @ place_blocks n a @ ys)"
    using inv by (auto simp: ff_inv_def place_blocks_def coalesced_append coalesced_Cons)
  moreover have "\<forall>b \<in> set (xs @ place_blocks n a @ ys). 16 \<le> fst b"
    using inv a by (auto simp: ff_inv_def place_blocks_def)
  ultimately show ?thesis
    using inv D(2,3) pm(2,3) a(1)
    by (intro exI [of _ ?m']) (auto simp: ff_inv_def arena_ok_def ac_simps)
qed

text \<open>The effect of \<^verbatim>\<open>mm_free\<close> on memory: the block is stamped free, then joined with its neighbours.\<close>

lemma ff_free_mem:
  assumes inv: "ff_inv s (xs @ (n, True) # ys)" and j: "join_blocks xs n ys = (xs', n', ys')"
  shows "\<exists>m'. ff_mm_free (w32 (start_of s + 16 + extent xs)) s = ok (s\<lparr>heap_bytes := m'\<rparr>)
    \<and> chain m' (start_of s + 4) (((8, True) # xs') @ (n', False) # ys')
    \<and> same_outside (start_of s + 12 + extent xs') (start_of s + 12 + extent xs' + n') (heap_bytes s) m'"
proof -
  let ?h = "start_of s + 12 + extent xs" and ?L = "((8, True) # xs) @ (n, False) # ys"
  let ?m1 = "set_block (heap_bytes s) ?h n False"
  let ?s1 = "s\<lparr>heap_bytes := ?m1\<rparr>"
  note D = ff_invD [OF inv]
  have n: "8 \<le> n" "8 dvd n" "load32 (heap_bytes s) ?h = tag n True" "in_arena s ?h n"
    using D(1,4) by (auto simp: in_arena_def)
  obtain b where b: "n = 8 + b" using n(1) by (metis le_iff_add)
  have free: "ff_mm_free (w32 (?h + 4)) s = bnd (ff_coalesce (w32 (?h + 4)) ?s1) (\<lambda>(_, s). ok s)"
    using n unfolding ff_mm_free_def b by (simp add: set_block_def in_arena_def ac_simps)
  have out: "load32 ?m1 p = load32 (heap_bytes s) p" if "p + 4 \<le> ?h \<or> ?h + n \<le> p" for p
    using same_outside_load32 [OF same_outside_set_block [OF n(1)] that] .
  have "chain ?m1 (start_of s + 4) (((8, True) # xs) @ [(n, False)] @ ys)"
    using chain_restamp [of "heap_bytes s" "start_of s + 4" "(8, True) # xs" "[(n, True)]" ys n False]
      inv n(1) by (auto simp: ff_inv_def ac_simps)
  then have ch: "chain ?m1 (start_of s + 4) ?L" by simp
  have e: "load32 ?m1 (start_of s + 4 + extent ?L) = tag 0 True"
    using inv out by (auto simp: ff_inv_def ac_simps)
  have ar: "in_arena ?s1 (start_of s + 4) (extent ?L + 4)" using D(4) by simp
  have "\<exists>m'. ff_coalesce (w32 (start_of s + 4 + extent ((8, True) # xs) + 4)) ?s1
        = ok (w32 (start_of s + 4 + extent ((8, True) # xs') + 4), ?s1\<lparr>heap_bytes := m'\<rparr>)
      \<and> chain m' (start_of s + 4) (((8, True) # xs') @ (n', False) # ys')
      \<and> same_outside (start_of s + 4 + extent ((8, True) # xs'))
          (start_of s + 4 + extent ((8, True) # xs') + n') (heap_bytes ?s1) m'"
    by (rule ff_coalesce_chain [where e = 0, OF _ _ _ _ ar join_blocks_prologue [OF j]])
      (use ch e in simp_all)
  then obtain m' where m': "ff_coalesce (w32 (?h + 4)) ?s1 = ok (w32 (start_of s + 16 + extent xs'), ?s1\<lparr>heap_bytes := m'\<rparr>)"
      "chain m' (start_of s + 4) (((8, True) # xs') @ (n', False) # ys')"
      "same_outside (start_of s + 12 + extent xs') (start_of s + 12 + extent xs' + n') ?m1 m'"
    by (auto simp: add.assoc)
  have "same_outside (start_of s + 12 + extent xs') (start_of s + 12 + extent xs' + n') (heap_bytes s) m'"
    by (rule same_outside_trans [OF same_outside_mono [OF same_outside_set_block [OF n(1)]] m'(3)])
      (use join_blocks_extent [OF j] in auto)
  then show ?thesis using free m'(1,2) by (intro exI [of _ m']) (simp add: add.assoc)
qed

lemma ff_free_inv:
  assumes inv: "ff_inv s (xs @ (n, True) # ys)" and j: "join_blocks xs n ys = (xs', n', ys')"
  shows "\<exists>m'. ff_mm_free (w32 (start_of s + 16 + extent xs)) s = ok (s\<lparr>heap_bytes := m'\<rparr>)
    \<and> ff_inv (s\<lparr>heap_bytes := m'\<rparr>) (xs' @ (n', False) # ys')
    \<and> same_outside (start_of s + 12 + extent xs') (start_of s + 12 + extent xs' + n') (heap_bytes s) m'"
proof -
  obtain m' where m': "ff_mm_free (w32 (start_of s + 16 + extent xs)) s = ok (s\<lparr>heap_bytes := m'\<rparr>)"
      "chain m' (start_of s + 4) (((8, True) # xs') @ (n', False) # ys')"
      "same_outside (start_of s + 12 + extent xs') (start_of s + 12 + extent xs' + n') (heap_bytes s) m'"
    using ff_free_mem [OF inv j] by blast
  note X = join_blocks_extent [OF j]
  have ext: "extent (xs' @ (n', False) # ys') = extent (xs @ (n, True) # ys)" using X(1) by simp
  have old: "brk_of s = start_of s + 16 + extent (xs @ (n, True) # ys)"
      "load32 (heap_bytes s) (start_of s + 12 + extent (xs @ (n, True) # ys)) = tag 0 True"
    using inv by (simp_all add: ff_inv_def)
  have wf: "coalesced xs" "coalesced ys" "\<forall>b \<in> set xs. 16 \<le> fst b" "\<forall>b \<in> set ys. 16 \<le> fst b" "16 \<le> n"
    using inv by (auto simp: ff_inv_def coalesced_append coalesced_Cons)
  have "ff_inv (s\<lparr>heap_bytes := m'\<rparr>) (xs' @ (n', False) # ys')"
  proof (rule ff_inv_update [OF inv])
    show "load32 (heap_bytes (s\<lparr>heap_bytes := m'\<rparr>)) (start_of s + 12 + extent (xs' @ (n', False) # ys')) = tag 0 True"
      using old(2) same_outside_load32 [OF m'(3), of "start_of s + 12 + extent (xs @ (n, True) # ys)"] X(1)
      unfolding ext by simp
    show "brk_of (s\<lparr>heap_bytes := m'\<rparr>) = start_of s + 16 + extent (xs' @ (n', False) # ys')"
      unfolding ext using old(1) by simp
  qed (use m'(2) ff_invD(7) [OF inv] join_blocks_wf [OF j wf] in simp_all)
  then show ?thesis using m'(1,3) by (intro exI [of _ m']) simp
qed

lemma ff_extend_inv:
  assumes inv: "ff_inv s bs" and e: "16 \<le> e" "8 dvd e" "e < 2 ^ 31" "brk_of s + e \<le> top_of s"
    and j: "join_blocks bs e [] = (xs', n', ys')"
  shows "ys' = [] \<and> e \<le> n' \<and> (\<exists>s'. ff_extend_heap (w32 (e div 4)) s = ok (w32 (start_of s + 16 + extent xs'), s')
    \<and> start_of s' = start_of s \<and> top_of s' = top_of s \<and> ff_inv s' (xs' @ [(n', False)])
    \<and> same_outside (start_of s + 12 + extent xs') (brk_of s') (heap_bytes s) (heap_bytes s'))"
proof -
  let ?B = "(8, True) # bs"
  note D = ff_invD [OF inv]
  have y: "ys' = []" and le: "e \<le> n'"
    using j by (auto simp: join_blocks_def join_next_def split: if_splits)
  have top: "brk_of s + e < 4294967296"
    using e(4) unat_u32_less [of "mem_max_addr s"] by simp
  have "\<exists>m'. ff_extend_heap (w32 (e div 4)) s
        = ok (w32 (start_of s + 4 + extent ((8, True) # xs') + 4), s\<lparr>mem_brk := w32 (brk_of s + e), heap_bytes := m'\<rparr>)
      \<and> chain m' (start_of s + 4) (((8, True) # xs') @ (n', False) # ys')
      \<and> load32 m' (start_of s + 4 + extent ?B + e) = tag 0 True
      \<and> same_outside (start_of s + 4 + extent ((8, True) # xs')) (start_of s + 4 + extent ?B + e + 4) (heap_bytes s) m'"
    by (rule ff_extend_heap_ok [OF _ _ _ e(4) _ _ e(2,3) join_blocks_prologue [OF j]])
      (use inv e(1) in \<open>simp_all add: ff_inv_def\<close>)
  then obtain m' where m': "ff_extend_heap (w32 (e div 4)) s
        = ok (w32 (start_of s + 4 + extent ((8, True) # xs') + 4), s\<lparr>mem_brk := w32 (brk_of s + e), heap_bytes := m'\<rparr>)"
      "chain m' (start_of s + 4) (((8, True) # xs') @ (n', False) # ys')"
      "load32 m' (start_of s + 4 + extent ?B + e) = tag 0 True"
      "same_outside (start_of s + 4 + extent ((8, True) # xs')) (start_of s + 4 + extent ?B + e + 4) (heap_bytes s) m'"
    by blast
  let ?s' = "s\<lparr>mem_brk := w32 (brk_of s + e), heap_bytes := m'\<rparr>"
  have X: "extent xs' + n' = extent bs + e" using join_blocks_extent [OF j] y by simp
  have wf: "coalesced bs" "\<forall>b \<in> set bs. 16 \<le> fst b" and b: "brk_of s = start_of s + 16 + extent bs"
    using inv by (simp_all add: ff_inv_def)
  have b': "brk_of ?s' = start_of s + 16 + extent bs + e" using top b by simp
  have "ff_inv ?s' (xs' @ [(n', False)])"
  proof (rule ff_inv_update [OF inv])
    show "brk_of ?s' = start_of s + 16 + extent (xs' @ [(n', False)])"
      using b' X by simp
    show "brk_of ?s' \<le> top_of s" using b' b e(4) by simp
    have E: "start_of s + 12 + extent (xs' @ [(n', False)]) = start_of s + 4 + extent ?B + e"
      using X by simp
    show "load32 (heap_bytes ?s') (start_of s + 12 + extent (xs' @ [(n', False)])) = tag 0 True"
      unfolding E using m'(3) by (simp del: extent_simps)
    show "coalesced (xs' @ [(n', False)])"
      using join_blocks_wf(1) [OF j wf(1) coalesced_Nil wf(2) _ e(1)] unfolding y by simp
    show "\<forall>b \<in> set (xs' @ [(n', False)]). 16 \<le> fst b"
      using join_blocks_wf(2) [OF j wf(1) coalesced_Nil wf(2) _ e(1)] unfolding y by simp
    show "chain (heap_bytes ?s') (start_of s + 4) ((8, True) # xs' @ [(n', False)])"
      using m'(2) y by simp
  qed simp_all
  moreover have "same_outside (start_of s + 12 + extent xs') (brk_of ?s') (heap_bytes s) m'"
    using m'(4) b' by (simp add: ac_simps)
  moreover have "start_of s + 4 + extent ((8, True) # xs') + 4 = start_of s + 16 + extent xs'" by simp
  ultimately show ?thesis using m'(1) y le
    by (intro conjI exI [of _ ?s']) (simp_all add: ac_simps)
qed

section \<open>Requests\<close>

lemma ff_asize_w32:
  assumes "n + 15 < 2 ^ 32"
  shows "ff_asize (w32 n) = w32 (asize_of n)"
proof -
  have "(n + 15) div 8 < 4294967296" using assms by simp
  then show ?thesis using assms
    by (simp add: ff_asize_def asize_of_def w32_consts OVERHEAD_def w32_1 w32_div add.commute)
qed

section \<open>The interface\<close>

text \<open>
  What \<open>mm_malloc\<close> does to the block list: first fit and placing, else an extension by at
  least a chunk (when \<open>room\<close> says the arena has room for it) joined with a trailing free
  block; the offset is that of the block's header behind the prologue. \<open>None\<close> is NULL.
\<close>

definition grow_by :: "nat \<Rightarrow> nat" where
  "grow_by a = max a 4096"

definition malloc_blocks :: "nat \<Rightarrow> bool \<Rightarrow> blk list \<Rightarrow> (nat \<times> blk list) option" where
  "malloc_blocks a room bs =
     (case first_fit a bs of
        Some (xs, n, ys) \<Rightarrow> Some (extent xs, xs @ place_blocks n a @ ys)
      | None \<Rightarrow>
          (if room then
             (case join_blocks bs (grow_by a) [] of
                (xs, n, ys) \<Rightarrow> Some (extent xs, xs @ place_blocks n a @ ys))
           else None))"

definition has_room :: "'a mem_scheme \<Rightarrow> nat \<Rightarrow> bool" where
  "has_room s a \<longleftrightarrow> brk_of s + grow_by a \<le> top_of s \<and> grow_by a < 2 ^ 31"

lemma ff_asize_pos: "w32 n \<le> 0 \<longleftrightarrow> n = 0" if "n < 4294967296"
  using that by (simp add: word_le_nat_alt)

lemma ff_malloc_fit:
  assumes inv: "ff_inv s bs" and n: "0 < n" "no_wrap s n"
    and fit: "first_fit (asize_of n) bs = Some (xs, k, ys)"
  shows "\<exists>s'. ff_mm_malloc (w32 n) s = ok (w32 (start_of s + 16 + extent xs), s')
    \<and> start_of s' = start_of s \<and> top_of s' = top_of s
    \<and> ff_inv s' (xs @ place_blocks k (asize_of n) @ ys)
    \<and> kept (ff_payloads s bs) (heap_bytes s) (heap_bytes s')"
proof -
  let ?a = "asize_of n"
  have a: "?a < 4294967296" "16 \<le> ?a" "8 dvd ?a" and n15: "n + 15 < 2 ^ 32"
    using n(2) asize_of_props [of n] by (auto simp: no_wrap_def)
  from first_fit_Some [OF fit] have bs: "bs = xs @ (k, False) # ys" and k: "?a \<le> k" by auto
  note D = ff_invD [OF inv]
  obtain m' where m': "ff_place (w32 (start_of s + 16 + extent xs)) (w32 ?a) s = ok (s\<lparr>heap_bytes := m'\<rparr>)"
      "ff_inv (s\<lparr>heap_bytes := m'\<rparr>) (xs @ place_blocks k ?a @ ys)"
      "same_outside (start_of s + 12 + extent xs) (start_of s + 12 + extent xs + k) (heap_bytes s) m'"
    using ff_place_inv [of s xs k ys ?a] inv bs a k by auto
  have find: "ff_find_fit (w32 ?a) s = ok (w32 (start_of s + 16 + extent xs))"
    using ff_find_fit_inv [OF inv a(1)] a fit by simp
  have "w32 (start_of s + 16 + extent xs) \<noteq> 0"
    using D(8) bs by simp
  then have "ff_mm_malloc (w32 n) s = ok (w32 (start_of s + 16 + extent xs), s\<lparr>heap_bytes := m'\<rparr>)"
    using n n15 by (simp add: ff_mm_malloc_def ff_asize_pos ff_asize_w32 find m'(1) Let_def)
  moreover have "kept (ff_payloads s bs) (heap_bytes s) m'"
    using kept_outside [OF D(1) [unfolded bs] m'(3)] bs by (simp add: ff_payloads_def)
  ultimately show ?thesis using m'(2) by (intro exI [of _ "s\<lparr>heap_bytes := m'\<rparr>"]) simp
qed

lemma ff_malloc_grow:
  assumes inv: "ff_inv s bs" and n: "0 < n" "no_wrap s n"
    and fit: "first_fit (asize_of n) bs = None" and room: "has_room s (asize_of n)"
    and j: "join_blocks bs (grow_by (asize_of n)) [] = (xs, k, ys)"
  shows "\<exists>s'. ff_mm_malloc (w32 n) s = ok (w32 (start_of s + 16 + extent xs), s')
    \<and> start_of s' = start_of s \<and> top_of s' = top_of s
    \<and> ff_inv s' (xs @ place_blocks k (asize_of n) @ ys)
    \<and> kept (ff_payloads s bs) (heap_bytes s) (heap_bytes s')"
proof -
  let ?a = "asize_of n" and ?e = "grow_by (asize_of n)"
  have a: "?a < 4294967296" "16 \<le> ?a" "8 dvd ?a" and n15: "n + 15 < 2 ^ 32"
    using n(2) asize_of_props [of n] by (auto simp: no_wrap_def)
  have e: "16 \<le> ?e" "8 dvd ?e" "?e < 2 ^ 31" "brk_of s + ?e \<le> top_of s" "?a \<le> ?e"
    using a room by (auto simp: grow_by_def has_room_def max_def)
  from ff_extend_inv [OF inv e(1-4) j] obtain s1 where y: "ys = []" and k: "?e \<le> k"
    and s1: "ff_extend_heap (w32 (?e div 4)) s = ok (w32 (start_of s + 16 + extent xs), s1)"
      "start_of s1 = start_of s" "top_of s1 = top_of s" "ff_inv s1 (xs @ [(k, False)])"
      "same_outside (start_of s + 12 + extent xs) (brk_of s1) (heap_bytes s) (heap_bytes s1)" by blast
  obtain m' where m': "ff_place (w32 (start_of s + 16 + extent xs)) (w32 ?a) s1 = ok (s1\<lparr>heap_bytes := m'\<rparr>)"
      "ff_inv (s1\<lparr>heap_bytes := m'\<rparr>) (xs @ place_blocks k ?a @ ys)"
      "same_outside (start_of s + 12 + extent xs) (start_of s + 12 + extent xs + k) (heap_bytes s1) m'"
    using ff_place_inv [of s1 xs k "[]" ?a] s1(2,4) a e(5) k y by auto
  have find: "ff_find_fit (w32 ?a) s = ok 0"
    using ff_find_fit_inv [OF inv a(1)] a fit by simp
  have words: "CMAX (w32 ?a) 4096 div WSIZE = w32 (?e div 4)"
    using a(1) by (auto simp: CMAX_def grow_by_def w32_consts w32_div max_def)
  have "w32 (start_of s + 16 + extent xs) \<noteq> 0"
    using ff_invD(8) [OF s1(4)] s1(2) by simp
  then have "ff_mm_malloc (w32 n) s = ok (w32 (start_of s + 16 + extent xs), s1\<lparr>heap_bytes := m'\<rparr>)"
    using n n15 by (simp add: ff_mm_malloc_def ff_asize_pos ff_asize_w32 find words s1(1) m'(1) Let_def)
  moreover have "kept (ff_payloads s bs) (heap_bytes s) m'"
  proof (rule kept_trans)
    have pl: "ff_payloads s bs = payloads (start_of s + 12) xs"
      using join_blocks_payloads [OF j, of "start_of s + 12"] y by (simp add: ff_payloads_def)
    have ch: "chain (heap_bytes s1) (start_of s + 12) (xs @ [(k, False)])"
      using ff_invD(1) [OF s1(4)] s1(2) by simp
    have brk1: "brk_of s1 = start_of s + 12 + extent xs + k + 4"
      using s1(2,4) by (simp add: ff_inv_def)
    show "kept (ff_payloads s bs) (heap_bytes s) (heap_bytes s1)"
      unfolding pl kept_def
      using payload_bounds [of _ _ "start_of s + 12" xs exact_ftr "heap_bytes s1"] ch s1(5)
      by (fastforce simp: same_outside_def)
    show "kept (ff_payloads s bs) (heap_bytes s1) m'"
      unfolding pl using kept_outside [OF ch m'(3)] by simp
  qed
  ultimately show ?thesis using m'(2) s1(2,3) by (intro exI [of _ "s1\<lparr>heap_bytes := m'\<rparr>"]) simp
qed

lemma ff_malloc_full:
  assumes inv: "ff_inv s bs" and n: "0 < n" "no_wrap s n"
    and fit: "first_fit (asize_of n) bs = None" and room: "\<not> has_room s (asize_of n)"
  shows "ff_mm_malloc (w32 n) s = ok (0, s)"
proof -
  let ?a = "asize_of n" and ?e = "grow_by (asize_of n)"
  have a: "?a < 4294967296" "16 \<le> ?a" "8 dvd ?a" "?a \<le> n + 16" and n15: "n + 15 < 2 ^ 32"
    using n(2) asize_of_props [of n] by (auto simp: no_wrap_def)
  have find: "ff_find_fit (w32 ?a) s = ok 0"
    using ff_find_fit_inv [OF inv a(1)] a fit by simp
  have words: "CMAX (w32 ?a) 4096 div WSIZE = w32 (?e div 4)"
    using a(1) by (auto simp: CMAX_def grow_by_def w32_consts w32_div max_def)
  have "brk_of s + ?e < 2 ^ 32" "8 dvd ?e"
    using n(2) a ff_invD(7) [OF inv] by (auto simp: no_wrap_def grow_by_def max_def)
  then have "ff_extend_heap (w32 (?e div 4)) s = ok (0, s)"
    using room by (intro ff_extend_heap_fail) (auto simp: has_room_def)
  then show ?thesis
    using n n15 by (simp add: ff_mm_malloc_def ff_asize_pos ff_asize_w32 find words Let_def)
qed

text \<open>The three cases of \<open>mm_malloc\<close> in one statement.\<close>

lemma ff_mm_malloc_blocks:
  assumes inv: "ff_inv s bs" and n: "0 < n" "no_wrap s n"
  shows "case malloc_blocks (asize_of n) (has_room s (asize_of n)) bs of
      None \<Rightarrow> ff_mm_malloc (w32 n) s = ok (0, s)
    | Some (off, bs') \<Rightarrow> \<exists>s'. ff_mm_malloc (w32 n) s = ok (w32 (start_of s + 16 + off), s')
        \<and> start_of s' = start_of s \<and> top_of s' = top_of s
        \<and> ff_inv s' bs' \<and> kept (ff_payloads s bs) (heap_bytes s) (heap_bytes s')"
proof (cases "first_fit (asize_of n) bs")
  case (Some r)
  then show ?thesis using ff_malloc_fit [OF inv n]
    by (cases r) (auto simp: malloc_blocks_def)
next
  case None
  obtain xs k ys where j: "join_blocks bs (grow_by (asize_of n)) [] = (xs, k, ys)"
    using prod_cases3 by blast
  show ?thesis
    using ff_malloc_grow [OF inv n None _ j] ff_malloc_full [OF inv n None] None j
    by (auto simp: malloc_blocks_def)
qed

lemma ff_mm_free_blocks:
  assumes inv: "ff_inv s (xs @ (n, True) # ys)" and j: "join_blocks xs n ys = (xs', n', ys')"
  shows "\<exists>s'. ff_mm_free (w32 (start_of s + 16 + extent xs)) s = ok s'
    \<and> start_of s' = start_of s \<and> top_of s' = top_of s
    \<and> ff_inv s' (xs' @ (n', False) # ys')
    \<and> kept (ff_payloads s' (xs' @ (n', False) # ys')) (heap_bytes s) (heap_bytes s')"
proof -
  obtain m' where m': "ff_mm_free (w32 (start_of s + 16 + extent xs)) s = ok (s\<lparr>heap_bytes := m'\<rparr>)"
      "ff_inv (s\<lparr>heap_bytes := m'\<rparr>) (xs' @ (n', False) # ys')"
      "same_outside (start_of s + 12 + extent xs') (start_of s + 12 + extent xs' + n') (heap_bytes s) m'"
    using ff_free_inv [OF inv j] by blast
  have "chain m' (start_of s + 12) (xs' @ (n', False) # ys')"
    using ff_invD(1) [OF m'(2)] by simp
  from kept_outside [OF this m'(3)] show ?thesis using m'
    by (intro exI [of _ "s\<lparr>heap_bytes := m'\<rparr>"]) (simp add: ff_payloads_def)
qed

text \<open>\<open>mm_init\<close> on an empty heap: one free block of a chunk.\<close>

lemma ff_mm_init_blocks:
  assumes "arena_ok s" "mem_brk s = mem_start_brk s"
  shows "\<exists>s'. ff_mm_init s = ok (0, s') \<and> start_of s' = start_of s \<and> top_of s' = top_of s
    \<and> ff_inv s' [(4096, False)]"
proof -
  let ?b = "start_of s"
  have b: "0 < ?b" "8 dvd ?b" "top_of s = ?b + 20971520" "?b + 20971520 < 4294967296"
    using assms(1) unat_u32_less [of "mem_max_addr s"] by (auto simp: arena_ok_def)
  have mb: "mem_brk s = w32 ?b" by (metis assms(2) w32_unat)
  have sbrk: "mem_sbrk (4 * WSIZE) s = (w32 ?b, s\<lparr>mem_brk := w32 (?b + 16)\<rparr>)"
    using mem_sbrk_ok [of "w32 16" s] b assms(2) w32_add [of ?b 16] by (simp add: w32_consts)
  let ?m = "store32 (store32 (store32 (store32 (heap_bytes s) ?b 0) (?b + 4) (tag 8 True))
    (?b + 8) (tag 8 True)) (?b + 12) (tag 0 True)"
  let ?s1 = "s\<lparr>mem_brk := w32 (?b + 16), heap_bytes := ?m, heap_listp := w32 (?b + 8)\<rparr>"
  have tags: "PACK OVERHEAD 1 = tag 8 True" by (simp add: OVERHEAD_def w32_numeral)
  have ini: "ff_mm_init s = bnd (ff_extend_heap (w32 (4096 div 4)) ?s1)
      (\<lambda>(bp, s). if bp = 0 then ok (-1, s) else ok (0, s))"
    using b
    by (simp only: ff_mm_init_def sbrk Let_def prod.case tags)
      (simp add: w32_consts w32_div in_arena_def ac_simps del: w32_unat)
  have "ff_inv ?s1 []"
    using assms(1) b by (simp add: ff_inv_def arena_ok_def ac_simps)
  moreover have "join_blocks [] 4096 [] = ([], 4096, [])"
    by (simp add: join_blocks_def join_next_def)
  ultimately obtain s' where s': "ff_extend_heap (w32 (4096 div 4)) ?s1 = ok (w32 (?b + 16), s')"
      "start_of s' = ?b" "top_of s' = top_of s" "ff_inv s' [(4096, False)]"
    using ff_extend_inv [of ?s1 "[]" 4096 "[]" 4096 "[]"] b by auto
  then show ?thesis using ini b by (intro exI [of _ s']) simp
qed

section \<open>Consequences for a caller\<close>

lemma ff_payloads_facts:
  assumes "ff_inv s bs" "(p, n) \<in> set (ff_payloads s bs)" "(q, k) \<in> set (ff_payloads s bs)"
  shows "8 dvd p \<and> start_of s + 16 \<le> p \<and> p + n < brk_of s \<and> (p \<noteq> q \<longrightarrow> p + n \<le> q \<or> q + k \<le> p)"
proof -
  note D = ff_invD [OF assms(1)]
  have "8 dvd start_of s + 12 + 4" using D(6) by simp
  then have "8 dvd p" using payload_aligned [OF _ D(1)] assms(2) by (simp add: ff_payloads_def)
  moreover have "start_of s + 12 + 4 \<le> p \<and> p + n + 4 \<le> start_of s + 12 + extent bs"
    using payload_bounds [OF _ D(1)] assms(2) by (simp add: ff_payloads_def)
  moreover have "brk_of s = start_of s + 16 + extent bs" using assms(1) by (simp add: ff_inv_def)
  moreover have "p \<noteq> q \<Longrightarrow> p + n \<le> q \<or> q + k \<le> p"
    using payloads_disjoint [of p n "start_of s + 12" bs q k, OF _ _ D(1)] assms(2,3)
    by (auto simp: ff_payloads_def)
  ultimately show ?thesis by simp
qed

lemma ff_find_fit_spec:
  assumes "ff_inv s bs" "a < 4294967296"
  shows "(\<exists>xs n ys. ff_find_fit (w32 a) s = ok (w32 (start_of s + 16 + extent xs)) \<and> bs = xs @ (n, False) # ys
        \<and> a \<le> n \<and> (\<forall>(k, f) \<in> set xs. f \<or> k < a))
    \<or> ff_find_fit (w32 a) s = ok 0 \<and> (\<forall>(k, f) \<in> set bs. f \<or> k < a)"
proof (cases "first_fit a bs")
  case None
  with ff_find_fit_inv [OF assms] first_fit_None [of a bs] show ?thesis by auto
next
  case (Some r)
  then obtain xs n ys where "first_fit a bs = Some (xs, n, ys)" by (cases r) auto
  then show ?thesis using ff_find_fit_inv [OF assms] first_fit_Some [of a bs xs n ys] by auto
qed

lemma ff_extend_grows:
  assumes "ff_inv s bs" "16 \<le> e" "8 dvd e" "e < 2 ^ 31" "brk_of s + e \<le> top_of s"
    and "join_blocks bs e [] = (xs', n', [])"
  shows "\<exists>s'. ff_extend_heap (w32 (e div 4)) s = ok (w32 (start_of s + 16 + extent xs'), s')
    \<and> brk_of s' = brk_of s + e \<and> ff_inv s' (xs' @ [(n', False)])
    \<and> same_outside (start_of s + 12 + extent xs') (brk_of s') (heap_bytes s) (heap_bytes s')"
proof -
  obtain s' where s': "ff_extend_heap (w32 (e div 4)) s = ok (w32 (start_of s + 16 + extent xs'), s')"
      "start_of s' = start_of s" "ff_inv s' (xs' @ [(n', False)])"
      "same_outside (start_of s + 12 + extent xs') (brk_of s') (heap_bytes s) (heap_bytes s')"
    using ff_extend_inv [OF assms] by blast
  have "brk_of s = start_of s + 16 + extent bs" "brk_of s' = start_of s' + 16 + (extent xs' + n')"
    using assms(1) s'(3) by (simp_all add: ff_inv_def)
  then show ?thesis using s' join_blocks_extent(1) [OF assms(6)] by auto
qed

text \<open>Requests so large that rounding them up wraps around.\<close>

lemma ff_asize_wraps:
  assumes "2 ^ 32 - 15 \<le> n" "n < 2 ^ 32"
  obtains a where "ff_asize (w32 n) = w32 a" "a \<le> 8" "8 dvd a"
proof -
  obtain d where d: "n = 2 ^ 32 - 15 + d" "d < 15"
    using assms by (intro that [of "n - (2 ^ 32 - 15)"]) auto
  have "w32 n + (8 + 7) = w32 (n + 15)" by (simp add: w32_numeral del: w32_unat)
  also have "\<dots> = w32 d" unfolding d(1) by (simp add: w32_def)
  finally have "ff_asize (w32 n) = w32 (8 * (d div 8))"
    using assms d by (simp add: ff_asize_def OVERHEAD_def w32_consts w32_1 w32_div add.assoc)
  moreover have "d div 8 \<le> 1" using d(2) by auto
  then have "8 * (d div 8) \<le> 8" by simp
  ultimately show thesis using that by simp
qed

end
