(* ===== verification/Ranges.thy ===== *)
theory Ranges
  imports Memlib
begin

text \<open>
  The range list of \<^verbatim>\<open>src/mdriver.c\<close>: the driver's record of every allocated payload, with
  the checks it makes on each new one, and the error log behind \<^verbatim>\<open>malloc_error\<close>.
\<close>

section \<open>Error reports\<close>

text \<open>The messages \<^verbatim>\<open>malloc_error\<close> is called with, with the values they print.\<close>

datatype mm_error =
    Init_failed | Malloc_failed | Realloc_failed | Data_lost
  | Misaligned u32
  | Outside_heap u32 u32 u32 u32
  | Overlaps u32 u32 u32 u32

text \<open>The global \<^verbatim>\<open>errors\<close> counter and the printed lines: trace, line number, message.\<close>

record report =
  errors :: int
  printed :: "(int \<times> int \<times> mm_error) list"

definition LINENUM :: "int \<Rightarrow> int" where
  "LINENUM i = i + 5"

definition malloc_error :: "int \<Rightarrow> int \<Rightarrow> mm_error \<Rightarrow> report \<Rightarrow> report" where
  "malloc_error tracenum opnum e d =
     d\<lparr>errors := errors d + 1, printed := printed d @ [(tracenum, LINENUM opnum, e)]\<rparr>"

section \<open>The range list\<close>

record range_t =
  range_lo :: u32
  range_hi :: u32

definition ALIGNMENT :: u32 where "ALIGNMENT = 8"

definition IS_ALIGNED :: "u32 \<Rightarrow> bool" where
  "IS_ALIGNED p \<longleftrightarrow> p mod ALIGNMENT = 0"

text \<open>The loop of \<^verbatim>\<open>add_range\<close>: the first range that holds an end point of \<open>[lo, hi]\<close>.\<close>

fun find_overlap :: "u32 \<Rightarrow> u32 \<Rightarrow> range_t list \<Rightarrow> range_t option" where
  "find_overlap lo hi [] = None"
| "find_overlap lo hi (p # ps) =
     (if (range_lo p \<le> lo \<and> lo \<le> range_hi p) \<or> (range_lo p \<le> hi \<and> hi \<le> range_hi p)
      then Some p else find_overlap lo hi ps)"

text \<open>
  \<open>add_range oom ranges lo size \<dots>\<close>: \<open>oom\<close> says whether libc's \<^verbatim>\<open>malloc\<close> fails to provide
  the list node; the result is the return value with the new range list and report.
\<close>

definition add_range ::
  "bool \<Rightarrow> range_t list \<Rightarrow> u32 \<Rightarrow> int \<Rightarrow> int \<Rightarrow> int \<Rightarrow> 'a mem_scheme \<Rightarrow> report
     \<Rightarrow> (int \<times> range_t list \<times> report) res" where
  "add_range oom ranges lo sz tracenum opnum s d =
     (let hi = lo + word_of_int sz - 1 in
      if \<not> sz > 0 then fail AssertFail
      else if \<not> IS_ALIGNED lo then
        ok (0, ranges, malloc_error tracenum opnum (Misaligned lo) d)
      else if lo < mem_heap_lo s \<or> lo > mem_heap_hi s \<or> hi < mem_heap_lo s \<or> hi > mem_heap_hi s then
        ok (0, ranges, malloc_error tracenum opnum (Outside_heap lo hi (mem_heap_lo s) (mem_heap_hi s)) d)
      else
        (case find_overlap lo hi ranges of
           Some p \<Rightarrow> ok (0, ranges, malloc_error tracenum opnum (Overlaps lo hi (range_lo p) (range_hi p)) d)
         | None \<Rightarrow>
             if oom then fail (Exit 1)
             else ok (1, \<lparr>range_lo = lo, range_hi = hi\<rparr> # ranges, d)))"

fun remove_range :: "u32 \<Rightarrow> range_t list \<Rightarrow> range_t list" where
  "remove_range lo [] = []"
| "remove_range lo (p # ps) = (if range_lo p = lo then ps else p # remove_range lo ps)"

definition clear_ranges :: "range_t list \<Rightarrow> range_t list" where
  "clear_ranges ranges = []"

section \<open>Laws\<close>

definition disjoint_ranges :: "range_t \<Rightarrow> range_t \<Rightarrow> bool" where
  "disjoint_ranges p q \<longleftrightarrow> range_hi p < range_lo q \<or> range_hi q < range_lo p"

definition encloses :: "u32 \<Rightarrow> u32 \<Rightarrow> range_t \<Rightarrow> bool" where
  "encloses lo hi p \<longleftrightarrow> lo < range_lo p \<and> range_hi p < hi"

text \<open>
  What the end-point test really checks: a new range is accepted exactly when it is disjoint
  from, or strictly encloses, every recorded one.
\<close>

lemma find_overlap_None:
  assumes "lo \<le> hi" "\<forall>p \<in> set ps. range_lo p \<le> range_hi p"
  shows "find_overlap lo hi ps = None \<longleftrightarrow>
    (\<forall>p \<in> set ps. disjoint_ranges \<lparr>range_lo = lo, range_hi = hi\<rparr> p \<or> encloses lo hi p)"
  using assms by (induction ps) (auto simp: disjoint_ranges_def encloses_def)

lemma find_overlap_Some:
  "find_overlap lo hi ps = Some p \<Longrightarrow> p \<in> set ps \<and>
    ((range_lo p \<le> lo \<and> lo \<le> range_hi p) \<or> (range_lo p \<le> hi \<and> hi \<le> range_hi p))"
  by (induction ps) (auto split: if_splits)

lemma set_remove_range: "set (remove_range lo ps) \<subseteq> set ps"
  by (induction ps) auto

text \<open>With distinct low ends, removing takes out exactly the range at \<open>lo\<close>.\<close>

lemma remove_range_set:
  "distinct (map range_lo ps) \<Longrightarrow> set (remove_range lo ps) = {p \<in> set ps. range_lo p \<noteq> lo}"
  by (induction ps) (auto simp: image_iff)

lemma remove_range_distinct:
  "distinct (map range_lo ps) \<Longrightarrow> distinct (map range_lo (remove_range lo ps))"
  by (induction ps) (auto simp: image_iff dest: set_remove_range [THEN subsetD])

lemma add_then_remove:
  assumes "add_range oom ranges lo sz t i s d = ok (1, ranges', d')"
  shows "remove_range lo ranges' = ranges"
  using assms by (auto simp: add_range_def Let_def split: if_splits option.splits)

end
