(* ===== verification/Allocator.thy ===== *)
theory Allocator
  imports Memlib
begin

text \<open>
  The interface of \<^verbatim>\<open>src/mm.h\<close> as the driver uses it: a package of the four entry points,
  and the contract a correct package meets. The contract is stated over an invariant
  \<open>inv s L\<close>, where \<open>L\<close> maps the payload pointers the client holds to the requested sizes.
\<close>

section \<open>The package the driver is linked against\<close>

record 's mm_package =
  mm_init :: "'s \<Rightarrow> (int \<times> 's) res"
  mm_malloc :: "u32 \<Rightarrow> 's \<Rightarrow> (u32 \<times> 's) res"
  mm_free :: "u32 \<Rightarrow> 's \<Rightarrow> 's res"
  mm_realloc :: "u32 \<Rightarrow> u32 \<Rightarrow> 's \<Rightarrow> (u32 \<times> 's) res"

text \<open>The team structure every package defines.\<close>

record team_t =
  teamname :: string
  name1 :: string
  id1 :: string
  name2 :: string
  id2 :: string
  name3 :: string
  id3 :: string

text \<open>The bytes of every live payload are unchanged.\<close>

definition keeps_live :: "(nat \<rightharpoonup> nat) \<Rightarrow> memory \<Rightarrow> memory \<Rightarrow> bool" where
  "keeps_live L m m' \<longleftrightarrow> (\<forall>p n x. L p = Some n \<longrightarrow> p \<le> x \<longrightarrow> x < p + n \<longrightarrow> m' x = m x)"

lemma keeps_liveD: "keeps_live L m m' \<Longrightarrow> L p = Some n \<Longrightarrow> p \<le> x \<Longrightarrow> x < p + n \<Longrightarrow> m' x = m x"
  by (simp add: keeps_live_def)

definition same_arena :: "'a mem_scheme \<Rightarrow> 'a mem_scheme \<Rightarrow> bool" where
  "same_arena s s' \<longleftrightarrow> start_of s' = start_of s \<and> top_of s' = top_of s"

section \<open>The contract\<close>

locale allocator =
  fixes pkg :: "'a mem_scheme mm_package"
    and inv :: "'a mem_scheme \<Rightarrow> (nat \<rightharpoonup> nat) \<Rightarrow> bool"
  assumes inv_arena: "inv s L \<Longrightarrow> arena_ok s"
    and live_range: "inv s L \<Longrightarrow> L p = Some n \<Longrightarrow> 8 dvd p \<and> start_of s \<le> p \<and> p + n < brk_of s"
    and live_disjoint: "inv s L \<Longrightarrow> L p = Some n \<Longrightarrow> L q = Some k \<Longrightarrow> p \<noteq> q \<Longrightarrow> p + n \<le> q \<or> q + k \<le> p"
    and init_ok: "arena_ok s \<Longrightarrow> mem_brk s = mem_start_brk s \<Longrightarrow>
      \<exists>s'. mm_init pkg s = ok (0, s') \<and> same_arena s s' \<and> inv s' Map.empty"
    and malloc_ok: "inv s L \<Longrightarrow> 0 < n \<Longrightarrow> no_wrap s n \<Longrightarrow>
      mm_malloc pkg (w32 n) s = ok (0, s)
      \<or> (\<exists>p s'. mm_malloc pkg (w32 n) s = ok (w32 p, s') \<and> same_arena s s' \<and> L p = None
          \<and> inv s' (L(p \<mapsto> n)) \<and> keeps_live L (heap_bytes s) (heap_bytes s'))"
    and free_ok: "inv s L \<Longrightarrow> L p = Some n \<Longrightarrow>
      \<exists>s'. mm_free pkg (w32 p) s = ok s' \<and> same_arena s s' \<and> inv s' (L(p := None))
          \<and> keeps_live (L(p := None)) (heap_bytes s) (heap_bytes s')"
    and realloc_ok: "inv s L \<Longrightarrow> L p = Some k \<Longrightarrow> 0 < n \<Longrightarrow> no_wrap s n \<Longrightarrow>
      mm_realloc pkg (w32 p) (w32 n) s = fail (Exit 1)
      \<or> (\<exists>q s'. mm_realloc pkg (w32 p) (w32 n) s = ok (w32 q, s') \<and> same_arena s s'
          \<and> (L(p := None)) q = None \<and> inv s' ((L(p := None))(q \<mapsto> n))
          \<and> keeps_live (L(p := None)) (heap_bytes s) (heap_bytes s')
          \<and> (\<forall>i < min k n. heap_bytes s' (q + i) = heap_bytes s (p + i)))"
    and write_ok: "inv s L \<Longrightarrow> L p = Some n \<Longrightarrow> same_outside p (p + n) (heap_bytes s) m' \<Longrightarrow>
      inv (s\<lparr>heap_bytes := m'\<rparr>) L"

section \<open>A contract with a bound on growth\<close>

locale growing_allocator = allocator pkg inv
  for pkg :: "'a mem_scheme mm_package" and inv :: "'a mem_scheme \<Rightarrow> (nat \<rightharpoonup> nat) \<Rightarrow> bool" +
  fixes fresh :: nat and grow :: "nat \<Rightarrow> nat"
  assumes init_brk: "arena_ok s \<Longrightarrow> mem_brk s = mem_start_brk s \<Longrightarrow> mm_init pkg s = ok (0, s') \<Longrightarrow>
      brk_of s' \<le> start_of s + fresh"
    and malloc_room: "inv s L \<Longrightarrow> 0 < n \<Longrightarrow> no_wrap s n \<Longrightarrow> brk_of s + grow n \<le> top_of s \<Longrightarrow>
      \<exists>p s'. mm_malloc pkg (w32 n) s = ok (p, s') \<and> p \<noteq> 0
        \<and> brk_of s \<le> brk_of s' \<and> brk_of s' \<le> brk_of s + grow n"
    and free_brk: "inv s L \<Longrightarrow> L p = Some n \<Longrightarrow> mm_free pkg (w32 p) s = ok s' \<Longrightarrow> brk_of s' = brk_of s"
    and realloc_room: "inv s L \<Longrightarrow> L p = Some k \<Longrightarrow> 0 < n \<Longrightarrow> no_wrap s n \<Longrightarrow>
      brk_of s + grow n \<le> top_of s \<Longrightarrow>
      \<exists>q s'. mm_realloc pkg (w32 p) (w32 n) s = ok (q, s')
        \<and> brk_of s \<le> brk_of s' \<and> brk_of s' \<le> brk_of s + grow n"

context growing_allocator
begin

text \<open>The contract of each call, given room: the two laws about it in one.\<close>

lemma malloc_grows:
  assumes "inv s L" "0 < n" "no_wrap s n" "brk_of s + grow n \<le> top_of s"
  obtains p s' where "mm_malloc pkg (w32 n) s = ok (w32 p, s')" "same_arena s s'" "L p = None"
    "inv s' (L(p \<mapsto> n))" "keeps_live L (heap_bytes s) (heap_bytes s')" "w32 p \<noteq> 0"
    "brk_of s \<le> brk_of s'" "brk_of s' \<le> brk_of s + grow n"
proof -
  obtain p0 s0 where 0: "mm_malloc pkg (w32 n) s = ok (p0, s0)" "p0 \<noteq> 0"
      "brk_of s \<le> brk_of s0" "brk_of s0 \<le> brk_of s + grow n"
    using malloc_room [OF assms] by blast
  with malloc_ok [OF assms(1-3)] that show thesis by force
qed

lemma realloc_grows:
  assumes "inv s L" "L p = Some k" "0 < n" "no_wrap s n" "brk_of s + grow n \<le> top_of s"
  obtains q s' where "mm_realloc pkg (w32 p) (w32 n) s = ok (w32 q, s')" "same_arena s s'"
    "(L(p := None)) q = None" "inv s' ((L(p := None))(q \<mapsto> n))"
    "keeps_live (L(p := None)) (heap_bytes s) (heap_bytes s')"
    "\<forall>i < min k n. heap_bytes s' (q + i) = heap_bytes s (p + i)"
    "brk_of s \<le> brk_of s'" "brk_of s' \<le> brk_of s + grow n"
proof -
  obtain q0 s0 where 0: "mm_realloc pkg (w32 p) (w32 n) s = ok (q0, s0)"
      "brk_of s \<le> brk_of s0" "brk_of s0 \<le> brk_of s + grow n"
    using realloc_room [OF assms] by blast
  from realloc_ok [OF assms(1-4)] 0 obtain q where "mm_realloc pkg (w32 p) (w32 n) s = ok (w32 q, s0)"
      "same_arena s s0" "(L(p := None)) q = None" "inv s0 ((L(p := None))(q \<mapsto> n))"
      "keeps_live (L(p := None)) (heap_bytes s) (heap_bytes s0)"
      "\<forall>i < min k n. heap_bytes s0 (q + i) = heap_bytes s (p + i)" by auto
  with 0 that show thesis by blast
qed

lemma free_keeps:
  assumes "inv s L" "L p = Some n"
  obtains s' where "mm_free pkg (w32 p) s = ok s'" "same_arena s s'" "inv s' (L(p := None))"
    "keeps_live (L(p := None)) (heap_bytes s) (heap_bytes s')" "brk_of s' = brk_of s"
  using free_ok [OF assms] free_brk [OF assms] by blast

end

end
