(* ===== verification/Driver.thy ===== *)
theory Driver
  imports Ranges Trace Allocator
begin

text \<open>
  The evaluation routines of \<^verbatim>\<open>src/mdriver.c\<close>: the correctness check, the utilisation and
  speed runs over a trace, for the \<^verbatim>\<open>mm\<close> package the driver is linked against and for libc.
\<close>

section \<open>State of a run\<close>

text \<open>
  The memory system and the allocator's globals (\<open>machine\<close>), the range list, the two arrays
  of the trace and the error report.
\<close>

record 'm run =
  machine :: 'm
  ranges :: "range_t list"
  r_blocks :: "u32 list"
  r_sizes :: "u32 list"
  rep :: report

section \<open>The correctness check\<close>

text \<open>One byte of memory, read through a \<^verbatim>\<open>char *\<close>: signed on this platform.\<close>

definition load_char :: "u32 \<Rightarrow> 'a mem_scheme \<Rightarrow> int res" where
  "load_char p s = (if in_arena s (unat p) 1 then ok (sint (heap_bytes s (unat p))) else fail (Segv p))"

text \<open>The loop over \<open>newp[j]\<close>, with \<open>k\<close> bytes left: do all of them equal \<open>c\<close>?\<close>

fun check_data :: "u32 \<Rightarrow> int \<Rightarrow> nat \<Rightarrow> nat \<Rightarrow> 'a mem_scheme \<Rightarrow> bool res" where
  "check_data newp c j 0 s = ok True"
| "check_data newp c j (Suc k) s =
     bnd (load_char (newp + w32 j) s) (\<lambda>b. if b \<noteq> c then ok False else check_data newp c (Suc j) k s)"

text \<open>
  One request of \<^verbatim>\<open>eval_mm_valid\<close>: \<open>(True, v)\<close> goes on with the next request,
  \<open>(False, v)\<close> is the early \<^verbatim>\<open>return 0\<close>.
\<close>

definition valid_step ::
  "'a mem_scheme mm_package \<Rightarrow> bool \<Rightarrow> int \<Rightarrow> int \<Rightarrow> traceop \<Rightarrow> 'a mem_scheme run
     \<Rightarrow> (bool \<times> 'a mem_scheme run) res" where
  "valid_step pkg oom tracenum i op v =
     (let index = op_index op; sz = op_size op; err = (\<lambda>e v. v\<lparr>rep := malloc_error tracenum i e (rep v)\<rparr>) in
      case op_type op of
        ALLOC \<Rightarrow>
          bnd (mm_malloc pkg (word_of_int sz) (machine v)) (\<lambda>(p, s).
          let v = v\<lparr>machine := s\<rparr> in
          if p = 0 then ok (False, err Malloc_failed v)
          else
            bnd (add_range oom (ranges v) p sz tracenum i (machine v) (rep v)) (\<lambda>(r, rs, d).
            let v = v\<lparr>ranges := rs, rep := d\<rparr> in
            if r = 0 then ok (False, v)
            else
              bnd (memset p (word_of_int (take_bit 8 index)) (unat (word_of_int sz :: u32)) (machine v)) (\<lambda>s.
              bnd (arr_set (r_blocks v) index p) (\<lambda>bl.
              bnd (arr_set (r_sizes v) index (word_of_int sz)) (\<lambda>bs.
              ok (True, v\<lparr>machine := s, r_blocks := bl, r_sizes := bs\<rparr>))))))
      | REALLOC \<Rightarrow>
          bnd (arr_get (r_blocks v) index) (\<lambda>oldp.
          bnd (mm_realloc pkg oldp (word_of_int sz) (machine v)) (\<lambda>(newp, s).
          let v = v\<lparr>machine := s\<rparr> in
          if newp = 0 then ok (False, err Realloc_failed v)
          else
            bnd (add_range oom (remove_range oldp (ranges v)) newp sz tracenum i (machine v) (rep v)) (\<lambda>(r, rs, d).
            let v = v\<lparr>ranges := rs, rep := d\<rparr> in
            if r = 0 then ok (False, v)
            else
              bnd (arr_get (r_sizes v) index) (\<lambda>osz.
              let oldsize = sint osz; oldsize = (if sz < oldsize then sz else oldsize) in
              bnd (check_data newp (take_bit 8 index) 0 (nat oldsize) (machine v)) (\<lambda>same.
              if \<not> same then ok (False, err Data_lost v)
              else
                bnd (memset newp (word_of_int (take_bit 8 index)) (unat (word_of_int sz :: u32)) (machine v)) (\<lambda>s.
                bnd (arr_set (r_blocks v) index newp) (\<lambda>bl.
                bnd (arr_set (r_sizes v) index (word_of_int sz)) (\<lambda>bs.
                ok (True, v\<lparr>machine := s, r_blocks := bl, r_sizes := bs\<rparr>)))))))))
      | FREE \<Rightarrow>
          bnd (arr_get (r_blocks v) index) (\<lambda>p.
          let v = v\<lparr>ranges := remove_range p (ranges v)\<rparr> in
          bnd (mm_free pkg p (machine v)) (\<lambda>s.
          ok (True, v\<lparr>machine := s\<rparr>))))"

text \<open>The loop over the requests; the result is the value \<^verbatim>\<open>eval_mm_valid\<close> returns.\<close>

fun valid_loop ::
  "'a mem_scheme mm_package \<Rightarrow> (nat \<Rightarrow> bool) \<Rightarrow> int \<Rightarrow> nat \<Rightarrow> traceop list \<Rightarrow> 'a mem_scheme run
     \<Rightarrow> (int \<times> 'a mem_scheme run) res" where
  "valid_loop pkg oom tracenum i [] v = ok (1, v)"
| "valid_loop pkg oom tracenum i (op # rest) v =
     bnd (valid_step pkg (oom i) tracenum (int i) op v) (\<lambda>(go, v).
     if go then valid_loop pkg oom tracenum (Suc i) rest v else ok (0, v))"

text \<open>
  \<open>oom i\<close> says whether libc's \<^verbatim>\<open>malloc\<close> refuses the driver the range node for request \<open>i\<close>.
\<close>

definition eval_mm_valid ::
  "'a mem_scheme mm_package \<Rightarrow> (nat \<Rightarrow> bool) \<Rightarrow> trace \<Rightarrow> int \<Rightarrow> range_t list \<Rightarrow> report \<Rightarrow> 'a mem_scheme
     \<Rightarrow> (int \<times> 'a mem_scheme run) res" where
  "eval_mm_valid pkg oom tr tracenum rs d s =
     (let s = mem_reset_brk s; rs = clear_ranges rs in
      bnd (mm_init pkg s) (\<lambda>(r, s).
      let v = \<lparr>machine = s, ranges = rs, r_blocks = blocks tr, r_sizes = block_sizes tr, rep = d\<rparr> in
      if r < 0 then ok (0, v\<lparr>rep := malloc_error tracenum 0 Init_failed (rep v)\<rparr>)
      else valid_loop pkg oom tracenum 0 (ops tr) v))"

section \<open>Space utilisation\<close>

text \<open>
  The running and the maximal total of requested bytes, both C \<^verbatim>\<open>int\<close>s, so sums wrap around at 32
  bits. A failed request ends the program through \<^verbatim>\<open>app_error\<close>, that is with exit code 1.
\<close>

definition c_int :: "int \<Rightarrow> int" where
  "c_int v = sint (word_of_int v :: u32)"

lemma c_int_id: "0 \<le> v \<Longrightarrow> v < 2 ^ 31 \<Longrightarrow> c_int v = v"
  by (simp add: c_int_def signed_of_int signed_take_bit_int_eq_self)

record 'm util_run =
  u_machine :: 'm
  u_blocks :: "u32 list"
  u_sizes :: "u32 list"
  total_size :: int
  max_total_size :: int

definition util_grow :: "int \<Rightarrow> 'm util_run \<Rightarrow> 'm util_run" where
  "util_grow n u =
     (let t = c_int (total_size u + n) in
      u\<lparr>total_size := t, max_total_size := (if t > max_total_size u then t else max_total_size u)\<rparr>)"

definition util_step ::
  "'a mem_scheme mm_package \<Rightarrow> traceop \<Rightarrow> 'a mem_scheme util_run \<Rightarrow> 'a mem_scheme util_run res" where
  "util_step pkg op u =
     (let index = op_index op in
      case op_type op of
        ALLOC \<Rightarrow>
          bnd (mm_malloc pkg (word_of_int (op_size op)) (u_machine u)) (\<lambda>(p, s).
          if p = 0 then fail (Exit 1)
          else
            bnd (arr_set (u_blocks u) index p) (\<lambda>bl.
            bnd (arr_set (u_sizes u) index (word_of_int (op_size op))) (\<lambda>bs.
            ok (util_grow (op_size op) (u\<lparr>u_machine := s, u_blocks := bl, u_sizes := bs\<rparr>)))))
      | REALLOC \<Rightarrow>
          bnd (arr_get (u_sizes u) index) (\<lambda>osz.
          bnd (arr_get (u_blocks u) index) (\<lambda>oldp.
          bnd (mm_realloc pkg oldp (word_of_int (op_size op)) (u_machine u)) (\<lambda>(newp, s).
          if newp = 0 then fail (Exit 1)
          else
            bnd (arr_set (u_blocks u) index newp) (\<lambda>bl.
            bnd (arr_set (u_sizes u) index (word_of_int (op_size op))) (\<lambda>bs.
            ok (util_grow (op_size op - sint osz) (u\<lparr>u_machine := s, u_blocks := bl, u_sizes := bs\<rparr>)))))))
      | FREE \<Rightarrow>
          bnd (arr_get (u_sizes u) index) (\<lambda>osz.
          bnd (arr_get (u_blocks u) index) (\<lambda>p.
          bnd (mm_free pkg p (u_machine u)) (\<lambda>s.
          ok (u\<lparr>u_machine := s, total_size := c_int (total_size u - sint osz)\<rparr>)))))"

fun util_loop ::
  "'a mem_scheme mm_package \<Rightarrow> traceop list \<Rightarrow> 'a mem_scheme util_run \<Rightarrow> 'a mem_scheme util_run res" where
  "util_loop pkg [] u = ok u"
| "util_loop pkg (op # rest) u = bnd (util_step pkg op u) (\<lambda>u. util_loop pkg rest u)"

text \<open>
  The result is the pair the C function divides: the high water mark of the requested bytes
  and the size of the heap.
\<close>

definition eval_mm_util ::
  "'a mem_scheme mm_package \<Rightarrow> trace \<Rightarrow> 'a mem_scheme \<Rightarrow> (int \<times> u32 \<times> 'a mem_scheme util_run) res" where
  "eval_mm_util pkg tr s =
     (let s = mem_reset_brk s in
      bnd (mm_init pkg s) (\<lambda>(r, s).
      if r < 0 then fail (Exit 1)
      else
        bnd (util_loop pkg (ops tr)
          \<lparr>u_machine = s, u_blocks = blocks tr, u_sizes = block_sizes tr, total_size = 0, max_total_size = 0\<rparr>)
          (\<lambda>u. ok (max_total_size u, mem_heapsize (u_machine u), u))))"

section \<open>Speed\<close>

text \<open>The run that is timed: the requests and nothing else.\<close>

definition speed_step ::
  "'a mem_scheme mm_package \<Rightarrow> traceop \<Rightarrow> u32 list \<times> 'a mem_scheme \<Rightarrow> (u32 list \<times> 'a mem_scheme) res" where
  "speed_step pkg op = (\<lambda>(bl, s).
     (case op_type op of
        ALLOC \<Rightarrow>
          bnd (mm_malloc pkg (word_of_int (op_size op)) s) (\<lambda>(p, s).
          if p = 0 then fail (Exit 1) else bnd (arr_set bl (op_index op) p) (\<lambda>bl. ok (bl, s)))
      | REALLOC \<Rightarrow>
          bnd (arr_get bl (op_index op)) (\<lambda>oldp.
          bnd (mm_realloc pkg oldp (word_of_int (op_size op)) s) (\<lambda>(newp, s).
          if newp = 0 then fail (Exit 1) else bnd (arr_set bl (op_index op) newp) (\<lambda>bl. ok (bl, s))))
      | FREE \<Rightarrow>
          bnd (arr_get bl (op_index op)) (\<lambda>p.
          bnd (mm_free pkg p s) (\<lambda>s. ok (bl, s)))))"

fun speed_loop ::
  "'a mem_scheme mm_package \<Rightarrow> traceop list \<Rightarrow> u32 list \<times> 'a mem_scheme \<Rightarrow> (u32 list \<times> 'a mem_scheme) res" where
  "speed_loop pkg [] v = ok v"
| "speed_loop pkg (op # rest) v = bnd (speed_step pkg op v) (\<lambda>v. speed_loop pkg rest v)"

definition eval_mm_speed ::
  "'a mem_scheme mm_package \<Rightarrow> trace \<Rightarrow> 'a mem_scheme \<Rightarrow> (u32 list \<times> 'a mem_scheme) res" where
  "eval_mm_speed pkg tr s =
     (let s = mem_reset_brk s in
      bnd (mm_init pkg s) (\<lambda>(r, s).
      if r < 0 then fail (Exit 1) else speed_loop pkg (ops tr) (blocks tr, s)))"

end
