(* ===== verification/Doubles.thy ===== *)
theory Doubles
  imports Complex_Main
begin

text \<open>
  The C type \<^verbatim>\<open>double\<close> where divisions by zero can occur, in the summary of \<^verbatim>\<open>src/mdriver.c\<close>: a
  real number, infinity, or not a number. The numbers there are never negative, so there is no negative
  infinity and no signed zero; rounding is left out. The operators are those of C: every comparison
  with \<open>NaN\<close> is false, and every operation on it gives \<open>NaN\<close> again.
\<close>

datatype double = Finite real | Infinite | NaN

instantiation double :: "{plus, times, inverse, ord}"
begin

fun plus_double :: "double \<Rightarrow> double \<Rightarrow> double" where
  "Finite a + Finite b = Finite (a + b)"
| "NaN + y = NaN"
| "x + NaN = NaN"
| "x + y = Infinite"

fun times_double :: "double \<Rightarrow> double \<Rightarrow> double" where
  "Finite a * Finite b = Finite (a * b)"
| "Finite a * Infinite = (if a = 0 then NaN else Infinite)"
| "Infinite * Finite b = (if b = 0 then NaN else Infinite)"
| "Infinite * Infinite = Infinite"
| "x * y = NaN"

fun divide_double :: "double \<Rightarrow> double \<Rightarrow> double" where
  "divide (Finite a) (Finite b) = (if b \<noteq> 0 then Finite (a / b) else if a = 0 then NaN else Infinite)"
| "divide (Finite a) Infinite = Finite 0"
| "divide Infinite (Finite b) = Infinite"
| "divide x y = NaN"

definition inverse_double :: "double \<Rightarrow> double" where
  "inverse_double x = divide (Finite 1) x"

fun less_double :: "double \<Rightarrow> double \<Rightarrow> bool" where
  "Finite a < Finite b \<longleftrightarrow> a < b"
| "Finite a < Infinite \<longleftrightarrow> True"
| "(x :: double) < y \<longleftrightarrow> False"

definition less_eq_double :: "double \<Rightarrow> double \<Rightarrow> bool" where
  "x \<le> y \<longleftrightarrow> x < y \<or> x = y \<and> x \<noteq> (NaN :: double)"

instance ..

end

lemma finite_le [simp]: "Finite a \<le> Finite b \<longleftrightarrow> a \<le> b"
  by (auto simp: less_eq_double_def)

lemma nan_compares [simp]: "\<not> x < NaN" "\<not> NaN < x" "\<not> x \<le> NaN" "\<not> NaN \<le> x"
  by (cases x; simp add: less_eq_double_def)+

lemma nan_absorbs [simp]: "x + NaN = NaN" "NaN * x = NaN" "x * NaN = NaN" "x / NaN = NaN" "NaN / x = NaN"
  by (cases x; simp)+

lemma divide_rescale: "0 < c \<Longrightarrow> Finite (a / c) / Finite b * Finite c = Finite a / Finite b"
  by simp

text \<open>Between 0 and a bound, or not a number.\<close>

definition at_most :: "real \<Rightarrow> double \<Rightarrow> bool" where
  "at_most c x \<longleftrightarrow> x = NaN \<or> Finite 0 \<le> x \<and> x \<le> Finite c"

lemma at_most_simps [simp]:
  "at_most c NaN" "at_most c (Finite a) \<longleftrightarrow> 0 \<le> a \<and> a \<le> c" "\<not> at_most c Infinite"
  by (simp_all add: at_most_def) (simp add: less_eq_double_def)

lemma at_most_add: "at_most a x \<Longrightarrow> at_most b y \<Longrightarrow> at_most (a + b) (x + y)"
  by (cases x; cases y) auto

lemma at_most_scale: "at_most a x \<Longrightarrow> 0 \<le> c \<Longrightarrow> at_most (a * c) (x * Finite c)"
  by (cases x) (auto intro: mult_right_mono)

end
