(* ===== verification/Sampler.thy ===== *)
theory Sampler
  imports Complex_Main "HOL-Library.Multiset" Prelude
begin

text \<open>
  The K-best sampler of \<^verbatim>\<open>src/fcyc.c\<close>. A C \<^verbatim>\<open>double\<close> is a real number here; the sampler only moves
  and compares its samples.
\<close>

section \<open>The K-best sampler\<close>

text \<open>The file's parameters and its two sampling variables.\<close>

record sampler =
  kbest :: int
  maxsamples :: int
  epsilon :: real
  best_values :: "real list"
  samplecount :: int

text \<open>
  \<open>init_sampler refused\<close>: \<open>refused\<close> says whether \<^verbatim>\<open>calloc\<close> returns NULL, which the code does not
  check; an access to the NULL array is then an access outside the empty list.
\<close>

definition init_sampler :: "bool \<Rightarrow> sampler \<Rightarrow> sampler" where
  "init_sampler refused f =
     f\<lparr>best_values := (if refused then [] else replicate (nat (kbest f)) 0), samplecount := 0\<rparr>"

text \<open>The insertion loop of \<^verbatim>\<open>add_sample\<close>, from position \<open>pos\<close> down.\<close>

fun sift :: "nat \<Rightarrow> 'a::linorder list \<Rightarrow> 'a list" where
  "sift 0 vs = vs"
| "sift (Suc p) vs =
     (if vs ! p > vs ! Suc p then sift p (vs[p := vs ! Suc p, Suc p := vs ! p]) else vs)"

definition add_sample :: "real \<Rightarrow> sampler \<Rightarrow> sampler res" where
  "add_sample val f =
     bnd (if samplecount f < kbest f then
            bnd (arr_set (best_values f) (samplecount f) val) (\<lambda>vs. ok (samplecount f, vs))
          else
            bnd (arr_get (best_values f) (kbest f - 1)) (\<lambda>worst.
            if val < worst then bnd (arr_set (best_values f) (kbest f - 1) val) (\<lambda>vs. ok (kbest f - 1, vs))
            else ok (0, best_values f))) (\<lambda>(pos, vs).
     ok (f\<lparr>best_values := sift (nat pos) vs, samplecount := samplecount f + 1\<rparr>))"

definition has_converged :: "sampler \<Rightarrow> bool res" where
  "has_converged f =
     (if samplecount f \<ge> kbest f then
        bnd (arr_get (best_values f) 0) (\<lambda>best.
        bnd (arr_get (best_values f) (kbest f - 1)) (\<lambda>worst.
        ok ((1 + epsilon f) * best \<ge> worst)))
      else ok False)"

lemma add_sample_count: "add_sample v f = ok f' \<Longrightarrow>
    samplecount f' = samplecount f + 1 \<and> kbest f' = kbest f \<and> maxsamples f' = maxsamples f \<and> epsilon f' = epsilon f"
  by (auto simp: add_sample_def elim!: bnd_eq_okE split: if_splits)

section \<open>The sampler keeps the K smallest samples\<close>

text \<open>Sifting inserts the element at the end of a sorted prefix.\<close>

lemma sift_length [simp]: "length (sift p vs) = length vs"
  by (induction p vs rule: sift.induct) auto

lemma sift_insort:
  assumes "sorted xs"
  shows "sift (length xs) (xs @ v # ys) = insort v xs @ ys"
  using assms
proof (induction xs arbitrary: v ys rule: rev_induct)
  case Nil
  then show ?case by simp
next
  case (snoc x xs)
  have s: "sorted xs" and le: "\<forall>y \<in> set xs. y \<le> x" using snoc.prems by (auto simp: sorted_append)
  show ?case
  proof (cases "v < x")
    case True
    have "insort v (xs @ [x]) = insort v xs @ [x]"
      using True by (induction xs) auto
    then show ?thesis using True snoc.IH [OF s, of v "x # ys"]
      by (simp add: nth_append list_update_append)
  next
    case False
    then have "insort v (xs @ [x]) = xs @ [x, v]"
      using snoc.prems le by (intro sorted_insort_is_snoc [THEN trans]) (auto simp: sorted_append)
    then show ?thesis using False by (simp add: nth_append)
  qed
qed

lemma insort_sort: "insort v (sort xs) = sort (xs @ [v])"
  by (rule sym, rule properties_for_sort) (simp_all add: sorted_insort)

text \<open>What the \<open>Suc k\<close> smallest become when one more sample comes in.\<close>

lemma take_insort:
  assumes "sorted xs" "k < length xs"
  shows "take (Suc k) (insort v xs) = (if v < xs ! k then insort v (take k xs) else take (Suc k) xs)"
  using assms
proof (induction xs arbitrary: k)
  case Nil
  then show ?case by simp
next
  case (Cons x xs)
  show ?case
  proof (cases "v \<le> x")
    case False
    show ?thesis
    proof (cases k)
      case 0
      then show ?thesis using False by auto
    next
      case (Suc j)
      then show ?thesis using False Cons.IH [of j] Cons.prems by simp
    qed
  next
    case True
    show ?thesis
    proof (cases "v < (x # xs) ! k")
      case True
      with \<open>v \<le> x\<close> show ?thesis by (cases k) auto
    next
      case False
      have "y = v" if "y \<in> set (take (Suc k) (x # xs))" for y
      proof -
        from that obtain i where "i < length (take (Suc k) (x # xs))" "y = take (Suc k) (x # xs) ! i"
          by (metis in_set_conv_nth)
        then have "i \<le> k" "y = (x # xs) ! i" by (simp_all del: take_Suc_Cons)
        then have "x \<le> y" "y \<le> (x # xs) ! k"
          using Cons.prems sorted_nth_mono [of "x # xs" 0 i] sorted_nth_mono [of "x # xs" i k] by auto
        with True False show ?thesis by simp
      qed
      then have r: "take (Suc k) (x # xs) = replicate (Suc k) v"
        using Cons.prems(2) by (intro replicate_eqI) auto
      then have "take k (x # xs) = replicate k v"
        by (metis take_replicate take_take min.absorb1 lessI less_imp_le)
      then show ?thesis using True False r by simp
    qed
  qed
qed

text \<open>The invariant: the array holds the K smallest of the samples so far, in order.\<close>

definition sampler_ok :: "real list \<Rightarrow> sampler \<Rightarrow> bool" where
  "sampler_ok xs f \<longleftrightarrow> 0 < kbest f \<and> samplecount f = int (length xs)
     \<and> best_values f = take (nat (kbest f)) (sort xs) @ replicate (nat (kbest f) - length xs) 0"

lemma init_sampler_ok: "0 < kbest f \<Longrightarrow> sampler_ok [] (init_sampler False f)"
  by (simp add: sampler_ok_def init_sampler_def)

lemma add_sample_ok:
  assumes "sampler_ok xs f"
  shows "\<exists>f'. add_sample v f = ok f' \<and> sampler_ok (xs @ [v]) f'"
proof -
  let ?n = "length xs" and ?S = "sort xs"
  obtain k where k: "kbest f = int (Suc k)"
    using assms by (auto simp: sampler_ok_def intro: that [of "nat (kbest f) - 1"])
  have vs: "best_values f = take (Suc k) ?S @ replicate (Suc k - ?n) 0" and cnt: "samplecount f = int ?n"
    using assms k by (simp_all add: sampler_ok_def nat_add_distrib)
  let ?f = "\<lambda>vs. f\<lparr>best_values := vs, samplecount := samplecount f + 1\<rparr>"
  have goal: "sampler_ok (xs @ [v]) (?f (take (Suc k) (sort (xs @ [v])) @ replicate (k - ?n) 0))"
    using k cnt by (simp add: sampler_ok_def nat_add_distrib)
  show ?thesis
  proof (cases "?n < Suc k")
    case True
    have "best_values f = ?S @ 0 # replicate (k - ?n) 0"
      using True vs by (simp add: Suc_diff_le)
    then have "add_sample v f = ok (?f (insort v ?S @ replicate (k - ?n) 0))"
      using True k cnt sift_insort [of ?S v "replicate (k - ?n) 0"]
      by (simp add: add_sample_def list_update_append)
    moreover have "insort v ?S = take (Suc k) (sort (xs @ [v]))"
      using True by (simp add: insort_sort [symmetric])
    ultimately show ?thesis using goal by simp
  next
    case False
    then have vs': "best_values f = take (Suc k) ?S" using vs by simp
    then have len: "length (best_values f) = Suc k" using False by simp
    have last: "best_values f ! k = ?S ! k" using False vs' by simp
    have top: "take (Suc k) (sort (xs @ [v])) = (if v < ?S ! k then insort v (take k ?S) else take (Suc k) ?S)"
      using False take_insort [of ?S k v] by (simp add: insort_sort)
    have "(best_values f)[k := v] = take k ?S @ [v]"
      using False vs' by (simp add: take_Suc_conv_app_nth list_update_append)
    then have "sift k ((best_values f)[k := v]) = insort v (take k ?S)"
      using sift_insort [of "take k ?S" v "[]"] False by (simp add: sorted_wrt_take)
    then have "add_sample v f = ok (?f (take (Suc k) (sort (xs @ [v]))))"
      using False k cnt len last top vs' by (auto simp: add_sample_def)
    then show ?thesis using goal False by simp
  qed
qed

text \<open>What stops the loop: convergence of the K best, or the limit on the samples.\<close>

definition settled :: "sampler \<Rightarrow> real list \<Rightarrow> bool" where
  "settled f xs \<longleftrightarrow> maxsamples f \<le> int (length xs)
     \<or> kbest f \<le> int (length xs) \<and> (1 + epsilon f) * (sort xs ! 0) \<ge> sort xs ! nat (kbest f - 1)"

lemma has_converged_ok:
  assumes "sampler_ok xs f" "xs \<noteq> []"
  shows "has_converged f = ok (kbest f \<le> int (length xs)
    \<and> (1 + epsilon f) * (sort xs ! 0) \<ge> sort xs ! nat (kbest f - 1))"
proof -
  obtain k where k: "kbest f = int (Suc k)"
    using assms by (auto simp: sampler_ok_def intro: that [of "nat (kbest f) - 1"])
  have cnt: "samplecount f = int (length xs)" using assms by (simp add: sampler_ok_def)
  show ?thesis
  proof (cases "Suc k \<le> length xs")
    case True
    then have "best_values f = take (Suc k) (sort xs)"
      using assms(1) k by (simp add: sampler_ok_def nat_add_distrib)
    then show ?thesis using True k cnt by (auto simp: has_converged_def arr_get_def)
  next
    case False
    then show ?thesis using k cnt by (simp add: has_converged_def)
  qed
qed

lemma best_is_minimum:
  assumes "sampler_ok xs f" "xs \<noteq> []"
  shows "arr_get (best_values f) 0 = ok (Min (set xs))"
proof -
  let ?S = "sort xs"
  have "?S \<noteq> []" using assms(2) by (metis length_0_conv length_sort)
  then have S: "?S \<noteq> []" "sorted ?S" "set ?S = set xs" by simp_all
  have "?S ! 0 = Min (set xs)"
  proof (rule Min_eqI [symmetric])
    show "?S ! 0 \<in> set xs" using assms(2) nth_mem [of 0 ?S] by (simp add: S(3))
    show "?S ! 0 \<le> y" if "y \<in> set xs" for y
      using that S(2,3) sorted_nth_mono [of ?S 0] by (metis in_set_conv_nth le0)
  qed simp
  then show ?thesis using assms S(1) by (auto simp: sampler_ok_def arr_get_def nth_append)
qed

end
