(* ===== verification/Clock.thy ===== *)
theory Clock
  imports Complex_Main "HOL-Library.Stream" Prelude
begin

text \<open>
  \<^verbatim>\<open>src/clock.c\<close> in its x86 variant: the cycle counter, the clock rate, and the counter that
  compensates for timer interrupts. A C \<^verbatim>\<open>double\<close> is a real number here.
\<close>

section \<open>State\<close>

text \<open>
  The static variables of the file, and what the machine is going to answer: the values of the
  next \<^verbatim>\<open>rdtsc\<close> instructions (high and low half) and the user times of the next \<^verbatim>\<open>times\<close> calls.
  The answers may be any streams; how much time passes between two of them is not fixed.
\<close>

record clock =
  tsc :: "(u32 \<times> u32) stream"
  utimes :: "int stream"
  cyc_hi :: u32
  cyc_lo :: u32
  cyc_per_tick :: real
  start_tick :: int

section \<open>The cycle counter\<close>

definition access_counter :: "'a clock_scheme \<Rightarrow> (u32 \<times> u32) \<times> 'a clock_scheme" where
  "access_counter s = (shd (tsc s), s\<lparr>tsc := stl (tsc s)\<rparr>)"

definition times_utime :: "'a clock_scheme \<Rightarrow> int \<times> 'a clock_scheme" where
  "times_utime s = (shd (utimes s), s\<lparr>utimes := stl (utimes s)\<rparr>)"

definition start_counter :: "'a clock_scheme \<Rightarrow> 'a clock_scheme" where
  "start_counter s = (let ((hi, lo), s) = access_counter s in s\<lparr>cyc_hi := hi, cyc_lo := lo\<rparr>)"

text \<open>
  The 64-bit difference put together from two 32-bit halves with a borrow. It is never negative,
  so the complaint of \<^verbatim>\<open>get_counter\<close> about a negative result is not printed.
\<close>

definition counter_diff :: "u32 \<times> u32 \<Rightarrow> u32 \<times> u32 \<Rightarrow> real" where
  "counter_diff cyc ncyc =
     (let lo = snd ncyc - snd cyc;
          borrow = (if lo > snd ncyc then 1 else 0);
          hi = fst ncyc - fst cyc - borrow
      in real (unat hi) * 2 ^ 30 * 4 + real (unat lo))"

definition get_counter :: "'a clock_scheme \<Rightarrow> real \<times> 'a clock_scheme" where
  "get_counter s = (let (n, s) = access_counter s in (counter_diff (cyc_hi s, cyc_lo s) n, s))"

section \<open>Overhead and clock rate\<close>

fun ovhd_loop :: "nat \<Rightarrow> real \<Rightarrow> 'a clock_scheme \<Rightarrow> real \<times> 'a clock_scheme" where
  "ovhd_loop 0 result s = (result, s)"
| "ovhd_loop (Suc i) result s = (let s = start_counter s; (result, s) = get_counter s in ovhd_loop i result s)"

text \<open>The variable \<^verbatim>\<open>result\<close> starts uninitialised, and is not read before the first round sets it.\<close>

definition ovhd :: "'a clock_scheme \<Rightarrow> real \<times> 'a clock_scheme" where
  "ovhd s = ovhd_loop 2 0 s"

text \<open>The sleep lies between the two answers of the counter; a sleep of no time would divide by zero.\<close>

definition mhz_full :: "int \<Rightarrow> 'a clock_scheme \<Rightarrow> real \<times> 'a clock_scheme" where
  "mhz_full sleeptime s =
     (let s = start_counter s; (c, s) = get_counter s in (c / (1000000 * of_int sleeptime), s))"

definition mhz :: "'a clock_scheme \<Rightarrow> real \<times> 'a clock_scheme" where
  "mhz s = mhz_full 2 s"

section \<open>Compensation for timer interrupts\<close>

definition NEVENT :: int where "NEVENT = 100"
definition THRESHOLD :: real where "THRESHOLD = 1000"
definition RECORDTHRESH :: real where "RECORDTHRESH = 3000"

text \<open>An event: the counter jumped, and the user time moved from \<open>oldc\<close> to \<open>newc\<close> meanwhile.\<close>

definition record_event :: "real \<Rightarrow> int \<Rightarrow> 'a clock_scheme \<Rightarrow> 'a clock_scheme" where
  "record_event jump ticks s =
     (let cpt = jump / of_int ticks
      in if (cyc_per_tick s = 0 \<or> cyc_per_tick s > cpt) \<and> cpt > RECORDTHRESH
         then s\<lparr>cyc_per_tick := cpt\<rparr> else s)"

text \<open>The loop waits for \<^verbatim>\<open>NEVENT\<close> events; nothing makes them happen.\<close>

partial_function (option) callibrate_loop ::
  "int \<Rightarrow> real \<Rightarrow> int \<Rightarrow> 'a clock_scheme \<Rightarrow> 'a clock_scheme res" where
  "callibrate_loop e oldt oldc s =
     (if e < NEVENT then
        (let (newt, s) = get_counter s in
         if newt - oldt \<ge> THRESHOLD then
           (let (newc, s) = times_utime s in
            if newc > oldc then callibrate_loop (e + 1) newt newc (record_event (newt - oldt) (newc - oldc) s)
            else callibrate_loop e newt oldc s)
         else callibrate_loop e oldt oldc s)
      else ok s)"

definition callibrate :: "'a clock_scheme \<Rightarrow> 'a clock_scheme res" where
  "callibrate s =
     (let (oldc, s) = times_utime s; s = start_counter s; (oldt, s) = get_counter s
      in callibrate_loop 0 oldt oldc s)"

definition start_comp_counter :: "'a clock_scheme \<Rightarrow> 'a clock_scheme res" where
  "start_comp_counter s =
     bnd (if cyc_per_tick s = 0 then callibrate s else ok s) (\<lambda>s.
     let (t, s) = times_utime s; s = s\<lparr>start_tick := t\<rparr> in ok (start_counter s))"

definition get_comp_counter :: "'a clock_scheme \<Rightarrow> real \<times> 'a clock_scheme" where
  "get_comp_counter s =
     (let (time, s) = get_counter s; (t, s) = times_utime s; ticks = t - start_tick s
      in (time - of_int ticks * cyc_per_tick s, s))"

section \<open>What the counter shows\<close>

text \<open>The 64-bit value of a pair of halves.\<close>

definition counter_val :: "u32 \<times> u32 \<Rightarrow> int" where
  "counter_val c = 2 ^ 32 * uint (fst c) + uint (snd c)"

lemma pair_mod:
  assumes "0 \<le> l" "l < 2 ^ 32"
  shows "(2 ^ 32 * h + l) mod 2 ^ 64 = 2 ^ 32 * (h mod 2 ^ 32) + (l :: int)"
proof -
  have "(2 ^ 32 * h + l) mod (2 ^ 32 * 2 ^ 32)
      = 2 ^ 32 * ((2 ^ 32 * h + l) div 2 ^ 32 mod 2 ^ 32) + (2 ^ 32 * h + l) mod 2 ^ 32"
    by (rule zmod_zmult2_eq) simp
  then show ?thesis using assms by simp
qed

lemma counter_diff_val:
  "counter_diff c n = of_int ((counter_val n - counter_val c) mod 2 ^ 64)"
proof -
  obtain ch cl nh nl where c: "c = (ch, cl)" and n: "n = (nh, nl)" by fastforce
  let ?lo = "nl - cl" and ?b = "if nl < cl then 1 else 0 :: u32"
  have bnd: "0 \<le> uint ?lo" "uint ?lo < 2 ^ 32" using uint_lt2p [of ?lo] by simp_all
  have lo: "uint ?lo = uint nl - uint cl + 2 ^ 32 * uint ?b"
    by (simp add: uint_sub_if' word_less_def)
  have borrow: "?lo > nl \<longleftrightarrow> nl < cl"
    using lo uint_lt2p [of cl] uint_lt2p [of nl] by (auto simp: word_less_def)
  have hi: "uint (nh - ch - ?b) = (uint nh - uint ch - uint ?b) mod 2 ^ 32"
    by (simp add: uint_word_ariths mod_simps)
  have "counter_val n - counter_val c = 2 ^ 32 * (uint nh - uint ch - uint ?b) + uint ?lo"
    by (simp add: c n counter_val_def lo)
  then have "(counter_val n - counter_val c) mod 2 ^ 64 = 2 ^ 32 * uint (nh - ch - ?b) + uint ?lo"
    using pair_mod [OF bnd] hi by metis
  moreover have "counter_diff c n = real_of_int (2 ^ 32 * uint (nh - ch - ?b) + uint ?lo)"
    by (simp add: counter_diff_def c n borrow Let_def)
  ultimately show ?thesis by simp
qed

lemma counter_diff_nonneg: "0 \<le> counter_diff c n"
  by (simp add: counter_diff_val)

lemma counter_diff_add:
  assumes "counter_val c \<le> counter_val n" "counter_val n \<le> counter_val k" "counter_val k < counter_val c + 2 ^ 64"
  shows "counter_diff c k - counter_diff c n = of_int (counter_val k - counter_val n)"
  using assms by (simp add: counter_diff_val)

text \<open>The elementary steps, on streams of answers.\<close>

lemma start_counter_step:
  "start_counter s = s\<lparr>tsc := stl (tsc s), cyc_hi := fst (tsc s !! 0), cyc_lo := snd (tsc s !! 0)\<rparr>"
  by (simp add: start_counter_def access_counter_def split: prod.splits)

lemma get_counter_step:
  "get_counter s = (counter_diff (cyc_hi s, cyc_lo s) (tsc s !! 0), s\<lparr>tsc := stl (tsc s)\<rparr>)"
  by (simp add: get_counter_def access_counter_def)

lemma times_step: "times_utime s = (utimes s !! 0, s\<lparr>utimes := stl (utimes s)\<rparr>)"
  by (simp add: times_utime_def)

lemmas clock_steps = start_counter_step get_counter_step times_step

text \<open>What one measurement shows: the difference of two consecutive answers.\<close>

lemma counter_reading:
  "get_counter (start_counter s)
    = (counter_diff (tsc s !! 0) (tsc s !! 1),
       s\<lparr>tsc := stl (stl (tsc s)), cyc_hi := fst (tsc s !! 0), cyc_lo := snd (tsc s !! 0)\<rparr>)"
  by (simp add: clock_steps)

lemma ovhd_second: "fst (ovhd s) = counter_diff (tsc s !! 2) (tsc s !! 3)"
  by (simp add: ovhd_def clock_steps numeral_2_eq_2 numeral_3_eq_3)

lemma mhz_rate: "fst (mhz_full n s) = of_int ((counter_val (tsc s !! 1) - counter_val (tsc s !! 0)) mod 2 ^ 64) / (1000000 * of_int n)"
  by (simp add: mhz_full_def clock_steps counter_diff_val)

text \<open>The compensated counter takes off a fixed number of cycles per clock tick.\<close>

lemma comp_reading:
  assumes "cyc_per_tick s \<noteq> 0"
  shows "\<exists>s1. start_comp_counter s = ok s1
    \<and> get_comp_counter s1 = (counter_diff (tsc s !! 0) (tsc s !! 1) - of_int (utimes s !! 1 - utimes s !! 0) * cyc_per_tick s,
         s\<lparr>tsc := stl (stl (tsc s)), utimes := stl (stl (utimes s)), cyc_hi := fst (tsc s !! 0),
           cyc_lo := snd (tsc s !! 0), start_tick := utimes s !! 0\<rparr>)"
  using assms by (simp add: start_comp_counter_def get_comp_counter_def clock_steps)

section \<open>Calibration\<close>

text \<open>What one event makes of the estimate.\<close>

definition better :: "real \<Rightarrow> real \<Rightarrow> real" where
  "better old cpt = (if (old = 0 \<or> old > cpt) \<and> cpt > RECORDTHRESH then cpt else old)"

lemma record_event_better: "record_event jump ticks s = s\<lparr>cyc_per_tick := better (cyc_per_tick s) (jump / of_int ticks)\<rparr>"
  by (simp add: record_event_def better_def Let_def)

lemma foldl_better:
  "old = 0 \<or> RECORDTHRESH < old \<Longrightarrow>
   foldl better old cs = (let best = set (filter (\<lambda>c. RECORDTHRESH < c) cs) \<union> (if old = 0 then {} else {old})
     in if best = {} then 0 else Min best)"
proof (induction cs arbitrary: old)
  case Nil
  then show ?case by (auto simp: Let_def)
next
  case (Cons c cs)
  let ?B = "\<lambda>x. set (filter (\<lambda>c. RECORDTHRESH < c) cs) \<union> x"
  have pos: "0 < RECORDTHRESH" by (simp add: RECORDTHRESH_def)
  have two: "Min (insert a (insert b B)) = Min (insert (min a b) B)" if "finite B" for a b :: real and B
    using that by (cases "B = {}") (simp_all add: min.assoc)
  have st: "better old c = 0 \<or> RECORDTHRESH < better old c" using Cons.prems by (auto simp: better_def)
  show ?case
  proof (cases "RECORDTHRESH < c")
    case False
    then have "better old c = old" by (simp add: better_def)
    then show ?thesis using Cons.IH [OF Cons.prems] False by simp
  next
    case True
    then have b: "better old c = (if old = 0 then c else min old c)" by (auto simp: better_def)
    then have nz: "better old c \<noteq> 0" using True Cons.prems pos by (auto simp: min_def)
    show ?thesis
    proof (cases "old = 0")
      case True
      then show ?thesis using Cons.IH [OF st] nz b \<open>RECORDTHRESH < c\<close> by (simp add: Let_def)
    next
      case False
      then show ?thesis
        using Cons.IH [OF st] nz b \<open>RECORDTHRESH < c\<close>
          two [of "set (filter (\<lambda>c. RECORDTHRESH < c) cs)" old c]
        by (simp add: Let_def insert_commute min.commute)
    qed
  qed
qed

text \<open>
  When every answer of the counter is at least \<^verbatim>\<open>THRESHOLD\<close> cycles after the one before, and the
  user time moves on each time, the loop ends after its hundred events.
\<close>

lemma callibrate_loop_steady:
  assumes "\<forall>i. counter_diff (cyc_hi s, cyc_lo s) (tsc s !! i) = T (Suc i)" "\<forall>i. utimes s !! i = U (Suc i)"
    and "\<forall>i < n. THRESHOLD \<le> T (Suc i) - T i" "\<forall>i < n. U i < U (Suc i)"
  shows "\<exists>s'. callibrate_loop (NEVENT - int n) (T 0) (U 0) s = ok s'
    \<and> cyc_per_tick s' = foldl better (cyc_per_tick s) (map (\<lambda>i. (T (Suc i) - T i) / of_int (U (Suc i) - U i)) [0..<n])"
  using assms
proof (induction n arbitrary: s T U)
  case 0
  then show ?case by (subst callibrate_loop.simps) simp
next
  case (Suc n)
  let ?cpt = "\<lambda>i. (T (Suc i) - T i) / of_int (U (Suc i) - U i)"
  let ?s = "record_event (T 1 - T 0) (U 1 - U 0) (s\<lparr>tsc := stl (tsc s), utimes := stl (utimes s)\<rparr>)"
  have now: "counter_diff (cyc_hi s, cyc_lo s) (shd (tsc s)) = T 1" "shd (utimes s) = U 1"
    using Suc.prems(1,2) snth.simps(1) by (metis One_nat_def)+
  have go: "THRESHOLD \<le> T 1 - T 0" "U 0 < U 1" using Suc.prems(3,4) by (metis One_nat_def zero_less_Suc)+
  have one: "callibrate_loop e (T 0) (U 0) s = callibrate_loop (e + 1) (T 1) (U 1) ?s" if "e < NEVENT" for e
    using now go that by (subst callibrate_loop.simps) (simp add: clock_steps)
  have e: "NEVENT - int (Suc n) < NEVENT" "NEVENT - int (Suc n) + 1 = NEVENT - int n" by simp_all
  have step: "callibrate_loop (NEVENT - int (Suc n)) (T 0) (U 0) s = callibrate_loop (NEVENT - int n) (T 1) (U 1) ?s"
    using one [OF e(1)] unfolding e(2) .
  have "\<forall>i. counter_diff (cyc_hi ?s, cyc_lo ?s) (tsc ?s !! i) = T (Suc (Suc i))" "\<forall>i. utimes ?s !! i = U (Suc (Suc i))"
    using Suc.prems(1,2) by (simp_all add: record_event_better, metis snth.simps(2), metis snth.simps(2))
  moreover have "\<forall>i < n. THRESHOLD \<le> T (Suc (Suc i)) - T (Suc i)" "\<forall>i < n. U (Suc i) < U (Suc (Suc i))"
    using Suc.prems(3,4) by simp_all
  ultimately obtain s' where s': "callibrate_loop (NEVENT - int n) (T 1) (U 1) ?s = ok s'"
      "cyc_per_tick s' = foldl better (cyc_per_tick ?s) (map (\<lambda>i. ?cpt (Suc i)) [0..<n])"
    using Suc.IH [of ?s "\<lambda>i. T (Suc i)" "\<lambda>i. U (Suc i)"] by auto
  have "map ?cpt [0..<Suc n] = ?cpt 0 # map (\<lambda>i. ?cpt (Suc i)) [0..<n]"
    by (simp add: upt_conv_Cons map_Suc_upt [symmetric] comp_def del: upt_Suc)
  then show ?case using step s' by (simp add: record_event_better)
qed

lemma callibrate_steady:
  assumes T: "\<And>i. T i = counter_diff (tsc s !! 0) (tsc s !! Suc i)"
    and jump: "\<And>i. i < 100 \<Longrightarrow> THRESHOLD \<le> T (Suc i) - T i" and tick: "\<And>i. i < 100 \<Longrightarrow> utimes s !! i < utimes s !! Suc i"
  shows "\<exists>s'. callibrate s = ok s'
    \<and> cyc_per_tick s' = foldl better (cyc_per_tick s)
        (map (\<lambda>i. (T (Suc i) - T i) / of_int (utimes s !! Suc i - utimes s !! i)) [0..<100])"
proof -
  let ?s = "s\<lparr>utimes := stl (utimes s), cyc_hi := fst (tsc s !! 0), cyc_lo := snd (tsc s !! 0), tsc := stl (stl (tsc s))\<rparr>"
  have "NEVENT - int 100 = 0" by (simp add: NEVENT_def)
  then have "callibrate s = callibrate_loop (NEVENT - int 100) (T 0) (utimes s !! 0) ?s"
    by (simp add: callibrate_def clock_steps T)
  moreover have "\<forall>i. counter_diff (cyc_hi ?s, cyc_lo ?s) (tsc ?s !! i) = T (Suc i)" by (simp add: T)
  moreover have "\<forall>i. utimes ?s !! i = utimes s !! Suc i" by simp
  ultimately show ?thesis
    using callibrate_loop_steady [of ?s T "\<lambda>i. utimes s !! i" 100] jump tick by simp
qed

text \<open>On a counter not calibrated before, the result is the smallest ratio above \<^verbatim>\<open>RECORDTHRESH\<close>.\<close>

lemma callibrate_minimum:
  assumes T: "\<And>i. T i = counter_diff (tsc s !! 0) (tsc s !! Suc i)"
    and jump: "\<And>i. i < 100 \<Longrightarrow> THRESHOLD \<le> T (Suc i) - T i" and tick: "\<And>i. i < 100 \<Longrightarrow> utimes s !! i < utimes s !! Suc i"
    and new: "cyc_per_tick s = 0"
  shows "\<exists>s'. callibrate s = ok s'
    \<and> cyc_per_tick s' = (let best = {c \<in> (\<lambda>i. (T (Suc i) - T i) / of_int (utimes s !! Suc i - utimes s !! i)) ` {..<100}. RECORDTHRESH < c}
        in if best = {} then 0 else Min best)"
proof -
  let ?c = "\<lambda>i. (T (Suc i) - T i) / of_int (utimes s !! Suc i - utimes s !! i)"
  have "set (filter (\<lambda>c. RECORDTHRESH < c) (map ?c [0..<100])) = {c \<in> ?c ` {..<100}. RECORDTHRESH < c}"
    by (simp only: set_filter set_map atLeastLessThan_upt [symmetric] atLeast0LessThan)
  then have "foldl better 0 (map ?c [0..<100]) = (let best = {c \<in> ?c ` {..<100}. RECORDTHRESH < c} in if best = {} then 0 else Min best)"
    using foldl_better [of 0 "map ?c [0..<100]"] by simp
  then show ?thesis using callibrate_steady [OF T jump tick] new by simp
qed

text \<open>When the user time does not move, the loop does not end.\<close>

lemma callibrate_loop_Some:
  assumes "callibrate_loop e oldt oldc s = Some r"
  shows "e < NEVENT \<longrightarrow> (\<exists>i. oldc < utimes s !! i)"
proof (rule callibrate_loop.raw_induct [OF _ assms, where P = "\<lambda>e oldt oldc s r. e < NEVENT \<longrightarrow> (\<exists>i. oldc < utimes s !! i)"])
  fix f :: "int \<Rightarrow> real \<Rightarrow> int \<Rightarrow> 'a clock_scheme \<Rightarrow> 'a clock_scheme res" and e oldt oldc s r
  assume IH: "\<And>e oldt oldc s r. f e oldt oldc s = Some r \<Longrightarrow> e < NEVENT \<longrightarrow> (\<exists>i. oldc < utimes s !! i)"
    and body: "(if e < NEVENT then
        (let (newt, s) = get_counter s in
         if newt - oldt \<ge> THRESHOLD then
           (let (newc, s) = times_utime s in
            if newc > oldc then f (e + 1) newt newc (record_event (newt - oldt) (newc - oldc) s)
            else f e newt oldc s)
         else f e oldt oldc s)
      else ok s) = Some r"
  show "e < NEVENT \<longrightarrow> (\<exists>i. oldc < utimes s !! i)"
  proof
    assume e: "e < NEVENT"
    show "\<exists>i. oldc < utimes s !! i"
    proof (cases "oldc < utimes s !! 0")
      case False
      then consider newt where "f e newt oldc (s\<lparr>tsc := stl (tsc s), utimes := stl (utimes s)\<rparr>) = Some r"
        | "f e oldt oldc (s\<lparr>tsc := stl (tsc s)\<rparr>) = Some r"
        using body e by (auto simp: clock_steps split: if_splits)
      then show ?thesis
      proof cases
        case 1
        from IH [OF this] e obtain i where "oldc < stl (utimes s) !! i" by auto
        then show ?thesis by (intro exI [of _ "Suc i"]) simp
      next
        case 2
        from IH [OF this] e show ?thesis by auto
      qed
    qed blast
  qed
qed

lemma callibrate_hangs:
  assumes "\<And>i. utimes s !! i \<le> utimes s !! 0"
  shows "callibrate s = None"
proof (rule ccontr)
  let ?s = "s\<lparr>utimes := stl (utimes s), cyc_hi := fst (tsc s !! 0), cyc_lo := snd (tsc s !! 0), tsc := stl (stl (tsc s))\<rparr>"
  assume "callibrate s \<noteq> None"
  then obtain r oldt where "callibrate_loop 0 oldt (utimes s !! 0) ?s = Some r"
    by (auto simp: callibrate_def clock_steps)
  from callibrate_loop_Some [OF this] obtain i where "utimes s !! 0 < utimes s !! Suc i" by (auto simp: NEVENT_def)
  with assms [of "Suc i"] show False by simp
qed

end
