(* ===== verification/Fcyc.thy ===== *)
theory Fcyc
  imports Sampler Clock
begin

text \<open>
  \<^verbatim>\<open>src/fcyc.c\<close>: the measuring loop with and without compensation for clock ticks, the code that
  clears the cache, and the setters of the parameters.
\<close>

section \<open>State\<close>

text \<open>
  The static variables of the file: the sampler, the flags (C \<^verbatim>\<open>int\<close>s), and the cache buffer, a
  pointer with the bytes it points to. \<^verbatim>\<open>clock.c\<close> has its own variables in the same record.
\<close>

record fcyc_st = clock +
  sam :: sampler
  compensate :: int
  clear_cache :: int
  cache_bytes :: int
  cache_block :: int
  cache_buf :: u32
  cache_mem :: memory
  sink :: u32

section \<open>Clearing the cache\<close>

text \<open>
  The loop of \<^verbatim>\<open>clear\<close>, with the pointers of the code; it reads whatever \<^verbatim>\<open>malloc\<close> left in the buffer.
  The sum is kept modulo \<open>2 ^ 32\<close>; it is only stored in a variable nothing reads.
\<close>

partial_function (option) clear_loop ::
  "u32 \<Rightarrow> u32 \<Rightarrow> u32 \<Rightarrow> u32 \<Rightarrow> 'a fcyc_st_scheme \<Rightarrow> u32 res" where
  "clear_loop cptr acc incr cend s =
     (if cptr < cend then
        if unat (cache_buf s) \<le> unat cptr \<and> unat cptr + 4 \<le> unat (cache_buf s) + nat (cache_bytes s)
        then clear_loop (cptr + 4 * incr) (acc + load32 (cache_mem s) (unat cptr)) incr cend s
        else fail (Segv cptr)
      else ok acc)"

text \<open>
  \<open>cmalloc\<close> is libc's \<^verbatim>\<open>malloc\<close>: the address for a size, 0 for NULL. The divisions by \<^verbatim>\<open>sizeof(int)\<close>
  are unsigned.
\<close>

definition clear :: "(u32 \<Rightarrow> u32) \<Rightarrow> 'a fcyc_st_scheme \<Rightarrow> 'a fcyc_st_scheme res" where
  "clear cmalloc s =
     (let x = sink s; incr = word_of_int (cache_block s) div 4 in
      bnd (if cache_buf s = 0 then
             (let s = s\<lparr>cache_buf := cmalloc (word_of_int (cache_bytes s))\<rparr>
              in if cache_buf s = 0 then fail (Exit 1) else ok s)
           else ok s) (\<lambda>s.
      let cptr = cache_buf s; cend = cptr + 4 * (word_of_int (cache_bytes s) div 4) in
      bnd (clear_loop cptr x incr cend s) (\<lambda>x. ok (s\<lparr>sink := x\<rparr>))))"

section \<open>Measuring\<close>

text \<open>
  One round of each of the two loops of \<^verbatim>\<open>fcyc\<close>. The timed function works on a state \<open>u\<close> of its own; its
  result may be an abnormal end, which ends the measurement as well.
\<close>

definition measure_comp ::
  "(u32 \<Rightarrow> u32) \<Rightarrow> ('u \<Rightarrow> 'u res) \<Rightarrow> 'a fcyc_st_scheme \<times> 'u \<Rightarrow> (real \<times> 'a fcyc_st_scheme \<times> 'u) res" where
  "measure_comp cmalloc f = (\<lambda>(s, u).
     bnd (if clear_cache s \<noteq> 0 then clear cmalloc s else ok s) (\<lambda>s.
     bnd (start_comp_counter s) (\<lambda>s.
     bnd (f u) (\<lambda>u.
     let (cyc, s) = get_comp_counter s in ok (cyc, s, u)))))"

definition measure_plain ::
  "(u32 \<Rightarrow> u32) \<Rightarrow> ('u \<Rightarrow> 'u res) \<Rightarrow> 'a fcyc_st_scheme \<times> 'u \<Rightarrow> (real \<times> 'a fcyc_st_scheme \<times> 'u) res" where
  "measure_plain cmalloc f = (\<lambda>(s, u).
     bnd (if clear_cache s \<noteq> 0 then clear cmalloc s else ok s) (\<lambda>s.
     let s = start_counter s in
     bnd (f u) (\<lambda>u.
     let (cyc, s) = get_counter s in ok (cyc, s, u))))"

text \<open>The \<^verbatim>\<open>do \<dots> while\<close> loop, over one of the two rounds.\<close>

function fcyc_loop :: "('w \<Rightarrow> (real \<times> 'w) res) \<Rightarrow> 'w \<Rightarrow> sampler \<Rightarrow> ('w \<times> sampler) res" where
  "fcyc_loop meas w f =
     bnd (meas w) (\<lambda>(cyc, w).
     bnd (add_sample cyc f) (\<lambda>f'.
     bnd (has_converged f') (\<lambda>conv.
     if \<not> conv \<and> samplecount f' < maxsamples f' then fcyc_loop meas w f' else ok (w, f'))))"
  by pat_completeness auto

termination
  by (relation "measure (\<lambda>(_, _, f). nat (maxsamples f - samplecount f))") (auto dest!: add_sample_count)

declare fcyc_loop.simps [simp del]

text \<open>\<open>refused\<close>: libc's \<^verbatim>\<open>calloc\<close> returns NULL for the array of samples. The array is freed at the end.\<close>

definition fcyc ::
  "(u32 \<Rightarrow> u32) \<Rightarrow> bool \<Rightarrow> ('u \<Rightarrow> 'u res) \<Rightarrow> 'a fcyc_st_scheme \<Rightarrow> 'u \<Rightarrow> (real \<times> 'a fcyc_st_scheme \<times> 'u) res" where
  "fcyc cmalloc refused f s u =
     bnd (fcyc_loop (if compensate s \<noteq> 0 then measure_comp cmalloc f else measure_plain cmalloc f)
            (s, u) (init_sampler refused (sam s))) (\<lambda>((s, u), sp).
     bnd (arr_get (best_values sp) 0) (\<lambda>result.
     ok (result, s\<lparr>sam := sp\<lparr>best_values := []\<rparr>\<rparr>, u)))"

section \<open>Setting the parameters\<close>

definition set_fcyc_clear_cache :: "int \<Rightarrow> 'a fcyc_st_scheme \<Rightarrow> 'a fcyc_st_scheme" where
  "set_fcyc_clear_cache c s = s\<lparr>clear_cache := c\<rparr>"

definition set_fcyc_cache_size :: "int \<Rightarrow> 'a fcyc_st_scheme \<Rightarrow> 'a fcyc_st_scheme" where
  "set_fcyc_cache_size bytes s =
     (if bytes \<noteq> cache_bytes s then
        (let s = s\<lparr>cache_bytes := bytes\<rparr> in if cache_buf s \<noteq> 0 then s\<lparr>cache_buf := 0\<rparr> else s)
      else s)"

definition set_fcyc_cache_block :: "int \<Rightarrow> 'a fcyc_st_scheme \<Rightarrow> 'a fcyc_st_scheme" where
  "set_fcyc_cache_block bytes s = s\<lparr>cache_block := bytes\<rparr>"

definition set_fcyc_compensate :: "int \<Rightarrow> 'a fcyc_st_scheme \<Rightarrow> 'a fcyc_st_scheme" where
  "set_fcyc_compensate c s = s\<lparr>compensate := c\<rparr>"

definition set_fcyc_k :: "int \<Rightarrow> 'a fcyc_st_scheme \<Rightarrow> 'a fcyc_st_scheme" where
  "set_fcyc_k k s = s\<lparr>sam := (sam s)\<lparr>kbest := k\<rparr>\<rparr>"

definition set_fcyc_maxsamples :: "int \<Rightarrow> 'a fcyc_st_scheme \<Rightarrow> 'a fcyc_st_scheme" where
  "set_fcyc_maxsamples n s = s\<lparr>sam := (sam s)\<lparr>maxsamples := n\<rparr>\<rparr>"

definition set_fcyc_epsilon :: "real \<Rightarrow> 'a fcyc_st_scheme \<Rightarrow> 'a fcyc_st_scheme" where
  "set_fcyc_epsilon e s = s\<lparr>sam := (sam s)\<lparr>epsilon := e\<rparr>\<rparr>"

text \<open>The initial values of the file's parameters.\<close>

definition fcyc_defaults :: "'a fcyc_st_scheme \<Rightarrow> bool" where
  "fcyc_defaults s \<longleftrightarrow> kbest (sam s) = 3 \<and> maxsamples (sam s) = 20 \<and> epsilon (sam s) = 1 / 100
     \<and> compensate s = 0 \<and> clear_cache s = 0 \<and> cache_bytes s = 2 ^ 19 \<and> cache_block s = 32 \<and> cache_buf s = 0"

section \<open>The buffer is read inside its bounds\<close>

text \<open>When \<^verbatim>\<open>clear\<close> returns: a block of at least one \<^verbatim>\<open>int\<close>, and a buffer that does not touch the end of the address space.\<close>

definition buffer_at :: "(u32 \<Rightarrow> u32) \<Rightarrow> 'a fcyc_st_scheme \<Rightarrow> u32" where
  "buffer_at cmalloc s = (if cache_buf s = 0 then cmalloc (word_of_int (cache_bytes s)) else cache_buf s)"

definition clear_ready :: "(u32 \<Rightarrow> u32) \<Rightarrow> 'a fcyc_st_scheme \<Rightarrow> bool" where
  "clear_ready cmalloc s \<longleftrightarrow> 4 \<le> cache_block s \<and> cache_block s < 2 ^ 31 \<and> 0 \<le> cache_bytes s \<and> cache_bytes s < 2 ^ 31
     \<and> buffer_at cmalloc s \<noteq> 0
     \<and> unat (buffer_at cmalloc s) + nat (cache_bytes s) + nat (cache_block s) < 2 ^ 32"

lemma clear_loop_total:
  assumes "0 < k" "b = unat (cache_buf s)" "b + nat (cache_bytes s) + 4 * k < 2 ^ 32" "n = nat (cache_bytes s) div 4"
  shows "j < n + k \<Longrightarrow> \<exists>y. clear_loop (w32 (b + 4 * j)) x (w32 k) (w32 (b + 4 * n)) s = ok y"
proof (induction "n - j" arbitrary: j x rule: less_induct)
  case less
  have n: "4 * n \<le> nat (cache_bytes s)" using assms(4) by simp
  show ?case
  proof (cases "j < n")
    case True
    have step: "w32 (b + 4 * j) + 4 * w32 k = w32 (b + 4 * (j + k))" by (simp add: w32_def algebra_simps)
    have "\<exists>y. clear_loop (w32 (b + 4 * (j + k))) x' (w32 k) (w32 (b + 4 * n)) s = ok y" for x'
      by (rule less.hyps) (use True assms(1) in auto)
    then show ?thesis using True n assms(2,3) step
      by (subst clear_loop.simps) simp
  next
    case False
    then show ?thesis using n less.prems assms(3) by (subst clear_loop.simps) simp
  qed
qed

lemma int_div_w32: "0 \<le> i \<Longrightarrow> i < 2 ^ 31 \<Longrightarrow> (word_of_int i :: u32) div 4 = w32 (nat i div 4)"
  using w32_div [of "nat i" 4] by (simp add: word_of_int_w32 w32_numeral)

lemma clear_start:
  assumes "buffer_at cmalloc s \<noteq> 0"
  shows "clear cmalloc s
    = (let s' = s\<lparr>cache_buf := buffer_at cmalloc s\<rparr>
       in bnd (clear_loop (buffer_at cmalloc s) (sink s) (word_of_int (cache_block s) div 4)
            (buffer_at cmalloc s + 4 * (word_of_int (cache_bytes s) div 4)) s') (\<lambda>x. ok (s'\<lparr>sink := x\<rparr>)))"
  using assms by (cases "cache_buf s = 0") (auto simp: clear_def buffer_at_def Let_def)

lemma clear_ok:
  assumes "clear_ready cmalloc s"
  shows "\<exists>x. clear cmalloc s = ok (s\<lparr>cache_buf := buffer_at cmalloc s, sink := x\<rparr>)"
proof -
  let ?b = "buffer_at cmalloc s" and ?s = "s\<lparr>cache_buf := buffer_at cmalloc s\<rparr>"
  let ?k = "nat (cache_block s) div 4" and ?n = "nat (cache_bytes s) div 4"
  have R: "4 \<le> cache_block s" "cache_block s < 2 ^ 31" "0 \<le> cache_bytes s" "cache_bytes s < 2 ^ 31" "?b \<noteq> 0"
      "unat ?b + nat (cache_bytes s) + nat (cache_block s) < 2 ^ 32"
    using assms unfolding clear_ready_def by blast+
  have "0 < ?k" using R(1) by simp
  moreover have "unat ?b + nat (cache_bytes ?s) + 4 * ?k < 2 ^ 32" using R(6) by simp
  ultimately obtain y where y: "clear_loop (w32 (unat ?b + 4 * 0)) (sink s) (w32 ?k) (w32 (unat ?b + 4 * ?n)) ?s = ok y"
    using clear_loop_total [of ?k "unat ?b" ?s ?n 0 "sink s"] by auto
  have incr: "(word_of_int (cache_block s) :: u32) div 4 = w32 ?k" "(word_of_int (cache_bytes s) :: u32) div 4 = w32 ?n"
    using R by (simp_all add: int_div_w32)
  have cend: "?b + 4 * w32 ?n = w32 (unat ?b + 4 * ?n)" by (simp add: w32_def)
  have "clear cmalloc s = bnd (clear_loop ?b (sink s) (w32 ?k) (?b + 4 * w32 ?n) ?s) (\<lambda>x. ok (?s\<lparr>sink := x\<rparr>))"
    using clear_start [OF R(5)] by (simp add: incr Let_def)
  then have "clear cmalloc s = ok (?s\<lparr>sink := y\<rparr>)" using y by (simp add: cend)
  then show ?thesis by blast
qed

text \<open>A block smaller than an \<^verbatim>\<open>int\<close> makes the step 0, and the loop does not end.\<close>

lemma clear_loop_stuck:
  assumes "clear_loop cptr acc incr cend s = Some r"
  shows "incr = 0 \<longrightarrow> \<not> (cptr < cend \<and> unat (cache_buf s) \<le> unat cptr
    \<and> unat cptr + 4 \<le> unat (cache_buf s) + nat (cache_bytes s))"
  by (rule clear_loop.raw_induct [OF _ assms, where P = "\<lambda>cptr acc incr cend s r. incr = 0 \<longrightarrow>
      \<not> (cptr < cend \<and> unat (cache_buf s) \<le> unat cptr \<and> unat cptr + 4 \<le> unat (cache_buf s) + nat (cache_bytes s))"])
    (auto split: if_splits)

lemma clear_hangs:
  assumes "0 \<le> cache_block s" "cache_block s < 4" "4 \<le> cache_bytes s" "cache_bytes s < 2 ^ 31"
    and "buffer_at cmalloc s \<noteq> 0" "unat (buffer_at cmalloc s) + nat (cache_bytes s) < 2 ^ 32"
  shows "clear cmalloc s = None"
proof -
  let ?b = "buffer_at cmalloc s" and ?s = "s\<lparr>cache_buf := buffer_at cmalloc s\<rparr>"
  let ?n = "nat (cache_bytes s) div 4"
  have incr: "(word_of_int (cache_block s) :: u32) div 4 = 0" "(word_of_int (cache_bytes s) :: u32) div 4 = w32 ?n"
    using assms(1-4) by (simp_all add: int_div_w32 nat_less_iff)
  have n: "0 < ?n" "4 * ?n \<le> nat (cache_bytes s)" using assms(3) by auto
  have cend: "?b + 4 * w32 ?n = w32 (unat ?b + 4 * ?n)" by (simp add: w32_def)
  have "?b < w32 (unat ?b + 4 * ?n)" using n assms(6) by (simp add: word_less_nat_alt)
  then have "clear_loop ?b x 0 (?b + 4 * w32 ?n) ?s = None" for x
    using clear_loop_stuck [of ?b x 0 "?b + 4 * w32 ?n" ?s] assms(3) unfolding cend
    by (cases "clear_loop ?b x 0 (w32 (unat ?b + 4 * ?n)) ?s") auto
  moreover have "clear cmalloc s = bnd (clear_loop ?b (sink s) 0 (?b + 4 * w32 ?n) ?s) (\<lambda>x. ok (?s\<lparr>sink := x\<rparr>))"
    using clear_start [OF assms(5)] by (simp add: incr Let_def)
  ultimately show ?thesis by simp
qed

text \<open>The setter of the size drops the buffer, so that a buffer always has the size the bound is taken from.\<close>

lemma set_cache_size_drops: "bytes \<noteq> cache_bytes s \<Longrightarrow> cache_buf (set_fcyc_cache_size bytes s) = 0"
  by (simp add: set_fcyc_cache_size_def Let_def)

section \<open>The measurement\<close>

text \<open>
  What the \<open>i\<close>th measurement shows: the difference of two answers of the cycle counter, less the
  cycles of the clock ticks between two answers of \<^verbatim>\<open>times\<close> when compensation is on.
\<close>

definition reading :: "'a fcyc_st_scheme \<Rightarrow> nat \<Rightarrow> real" where
  "reading s i = counter_diff (tsc s !! (2 * i)) (tsc s !! (2 * i + 1))
     - (if compensate s \<noteq> 0 then of_int (utimes s !! (2 * i + 1) - utimes s !! (2 * i)) * cyc_per_tick s else 0)"

text \<open>Nothing stands in the way of a measurement: the cache can be cleared, the counter is calibrated.\<close>

definition measurable :: "(u32 \<Rightarrow> u32) \<Rightarrow> 'a fcyc_st_scheme \<Rightarrow> bool" where
  "measurable cmalloc s \<longleftrightarrow> (clear_cache s \<noteq> 0 \<longrightarrow> clear_ready cmalloc s) \<and> (compensate s \<noteq> 0 \<longrightarrow> cyc_per_tick s \<noteq> 0)"

definition measure_of :: "(u32 \<Rightarrow> u32) \<Rightarrow> ('u \<Rightarrow> 'u res) \<Rightarrow> bool \<Rightarrow> 'a fcyc_st_scheme \<times> 'u \<Rightarrow> (real \<times> 'a fcyc_st_scheme \<times> 'u) res" where
  "measure_of cmalloc f c = (if c then measure_comp cmalloc f else measure_plain cmalloc f)"

lemma clear_stage:
  assumes "measurable cmalloc s"
  shows "\<exists>b x. (if clear_cache s \<noteq> 0 then clear cmalloc s else ok s) = ok (s\<lparr>cache_buf := b, sink := x\<rparr>)
    \<and> (clear_cache s \<noteq> 0 \<longrightarrow> b = buffer_at cmalloc s)"
proof (cases "clear_cache s = 0")
  case True
  then show ?thesis by (intro exI [of _ "cache_buf s"] exI [of _ "sink s"]) simp
next
  case False
  then show ?thesis using assms clear_ok [of cmalloc s] by (auto simp: measurable_def)
qed

lemma measure_step:
  assumes m: "measurable cmalloc s" and f: "f u = ok u'"
  shows "\<exists>s'. measure_of cmalloc f (compensate s \<noteq> 0) (s, u) = ok (reading s 0, s', u') \<and> measurable cmalloc s'
    \<and> compensate s' = compensate s \<and> reading s' = (\<lambda>i. reading s (Suc i))"
proof -
  obtain b x where b: "(if clear_cache s \<noteq> 0 then clear cmalloc s else ok s) = ok (s\<lparr>cache_buf := b, sink := x\<rparr>)"
      "clear_cache s \<noteq> 0 \<longrightarrow> b = buffer_at cmalloc s"
    using clear_stage [OF m] by blast
  let ?s = "s\<lparr>cache_buf := b, sink := x\<rparr>"
  have ready: "clear_cache s \<noteq> 0 \<longrightarrow> clear_ready cmalloc s'"
    if "cache_buf s' = b" "cache_block s' = cache_block s" "cache_bytes s' = cache_bytes s" for s' :: "'a fcyc_st_scheme"
    using m b(2) that by (auto simp: measurable_def clear_ready_def buffer_at_def split: if_splits)
  show ?thesis
  proof (cases "compensate s = 0")
    case True
    let ?s' = "snd (get_counter (start_counter ?s))"
    have "measure_of cmalloc f (compensate s \<noteq> 0) (s, u) = ok (reading s 0, ?s', u')"
      using True b(1) f by (simp add: measure_of_def measure_plain_def reading_def counter_reading)
    moreover have "measurable cmalloc ?s'"
      using True ready [of ?s'] by (simp add: measurable_def counter_reading)
    moreover have "reading ?s' = (\<lambda>i. reading s (Suc i))"
      using True by (simp add: reading_def counter_reading fun_eq_iff)
    ultimately show ?thesis by (intro exI [of _ ?s']) (simp add: counter_reading)
  next
    case False
    then have "cyc_per_tick ?s \<noteq> 0" using m by (simp add: measurable_def)
    from comp_reading [OF this] obtain s1 where s1: "start_comp_counter ?s = ok s1" and
      "get_comp_counter s1 = (counter_diff (tsc ?s !! 0) (tsc ?s !! 1) - of_int (utimes ?s !! 1 - utimes ?s !! 0) * cyc_per_tick ?s,
         ?s\<lparr>tsc := stl (stl (tsc ?s)), utimes := stl (stl (utimes ?s)), cyc_hi := fst (tsc ?s !! 0),
           cyc_lo := snd (tsc ?s !! 0), start_tick := utimes ?s !! 0\<rparr>)" (is "_ = (_, ?s')")
      by blast
    then have g: "get_comp_counter s1 = (reading s 0, ?s')" using False by (simp add: reading_def)
    have "measure_of cmalloc f (compensate s \<noteq> 0) (s, u) = ok (reading s 0, ?s', u')"
      using False b(1) f s1 g by (simp add: measure_of_def measure_comp_def)
    moreover have "measurable cmalloc ?s'"
      using m ready [of ?s'] by (simp add: measurable_def)
    moreover have "reading ?s' = (\<lambda>i. reading s (Suc i))"
      using False by (simp add: reading_def fun_eq_iff)
    ultimately show ?thesis by (intro exI [of _ ?s']) simp
  qed
qed

lemma fcyc_loop_ok:
  assumes F: "\<And>u. J u \<Longrightarrow> \<exists>u'. f u = ok u' \<and> J u'"
  shows "m = measure_of cmalloc f (compensate s \<noteq> 0) \<Longrightarrow> sampler_ok xs sp \<Longrightarrow> measurable cmalloc s \<Longrightarrow> J u \<Longrightarrow>
    \<exists>n s' u' sp'. fcyc_loop m (s, u) sp = ok ((s', u'), sp')
      \<and> sampler_ok (xs @ map (reading s) [0..<n]) sp' \<and> repeat_run n f u = ok u' \<and> 0 < n
      \<and> int (length xs + n) \<le> max (int (length xs) + 1) (maxsamples sp) \<and> settled sp (xs @ map (reading s) [0..<n])"
proof (induction m "(s, u)" sp arbitrary: s u xs rule: fcyc_loop.induct)
  case (1 m sp s u xs)
  let ?xs = "xs @ [reading s 0]"
  obtain u1 where u1: "f u = ok u1" "J u1" using F [OF 1(5)] by blast
  obtain s1 where s1: "m (s, u) = ok (reading s 0, s1, u1)" "measurable cmalloc s1" "compensate s1 = compensate s"
      "reading s1 = (\<lambda>i. reading s (Suc i))"
    using measure_step [where f = f, OF 1(4) u1(1)] 1(2) by blast
  obtain sp1 where sp1: "add_sample (reading s 0) sp = ok sp1" "sampler_ok ?xs sp1"
    using add_sample_ok [OF 1(3)] by blast
  note same = add_sample_count [OF sp1(1)]
  have cnt: "samplecount sp1 = int (length xs + 1)" using sp1(2) by (simp add: sampler_ok_def)
  let ?c = "kbest sp \<le> int (length ?xs) \<and> (1 + epsilon sp) * (sort ?xs ! 0) \<ge> sort ?xs ! nat (kbest sp - 1)"
  have conv: "has_converged sp1 = ok ?c"
    using has_converged_ok [OF sp1(2)] same by simp
  show ?case
  proof (cases "\<not> ?c \<and> samplecount sp1 < maxsamples sp1")
    case True
    then have step: "fcyc_loop m (s, u) sp = fcyc_loop m (s1, u1) sp1"
      using s1(1) sp1(1) conv by (subst fcyc_loop.simps) simp
    have m1: "m = measure_of cmalloc f (compensate s1 \<noteq> 0)" using 1(2) s1(3) by simp
    obtain n s' u' sp' where n: "fcyc_loop m (s1, u1) sp1 = ok ((s', u'), sp')"
        "sampler_ok (?xs @ map (reading s1) [0..<n]) sp'" "repeat_run n f u1 = ok u'" "0 < n"
        "int (length ?xs + n) \<le> max (int (length ?xs) + 1) (maxsamples sp1)" "settled sp1 (?xs @ map (reading s1) [0..<n])"
      using 1(1) [OF s1(1) refl sp1(1) conv True m1 sp1(2) s1(2) u1(2)] by blast
    have all: "?xs @ map (reading s1) [0..<n] = xs @ map (reading s) [0..<Suc n]"
      by (simp add: s1(4) upt_conv_Cons map_Suc_upt [symmetric] comp_def del: upt_Suc)
    have "int (length xs + Suc n) \<le> max (int (length xs) + 1) (maxsamples sp)"
      using n(5) True cnt same by auto
    moreover have "repeat_run (Suc n) f u = ok u'" using u1(1) n(3) by simp
    moreover have "settled sp (xs @ map (reading s) [0..<Suc n])" using n(6) same unfolding all by (simp add: settled_def)
    moreover have "sampler_ok (xs @ map (reading s) [0..<Suc n]) sp'" using n(2) unfolding all .
    moreover have "fcyc_loop m (s, u) sp = ok ((s', u'), sp')" using step n(1) by simp
    ultimately show ?thesis by blast
  next
    case False
    then have "fcyc_loop m (s, u) sp = ok ((s1, u1), sp1)"
      using s1(1) sp1(1) conv by (subst fcyc_loop.simps) auto
    moreover have "settled sp ?xs" using False cnt same by (auto simp: settled_def)
    ultimately show ?thesis using sp1(2) u1(1)
      by (intro exI [of _ 1] exI [of _ s1] exI [of _ u1] exI [of _ sp1]) simp
  qed
qed

text \<open>
  \<^verbatim>\<open>fcyc\<close> returns the smallest of the measurements it made, having called the function once per
  measurement.
\<close>

lemma fcyc_ok:
  assumes "\<And>u. J u \<Longrightarrow> \<exists>u'. f u = ok u' \<and> J u'" "J u" "measurable cmalloc s" "0 < kbest (sam s)"
  shows "\<exists>n s' u'. fcyc cmalloc False f s u = ok (Min (reading s ` {..<n}), s', u')
    \<and> repeat_run n f u = ok u' \<and> 0 < n \<and> int n \<le> max 1 (maxsamples (sam s)) \<and> settled (sam s) (map (reading s) [0..<n])"
proof -
  let ?sp = "init_sampler False (sam s)"
  obtain n s' u' sp' where n: "fcyc_loop (measure_of cmalloc f (compensate s \<noteq> 0)) (s, u) ?sp = ok ((s', u'), sp')"
      "sampler_ok ([] @ map (reading s) [0..<n]) sp'" "repeat_run n f u = ok u'" "0 < n"
      "int (length ([] :: real list) + n) \<le> max (int (length ([] :: real list)) + 1) (maxsamples ?sp)"
      "settled ?sp ([] @ map (reading s) [0..<n])"
    using fcyc_loop_ok [where J = J and f = f, OF assms(1) refl init_sampler_ok [OF assms(4)] assms(3,2)] by blast
  have "sampler_ok (map (reading s) [0..<n]) sp'" "map (reading s) [0..<n] \<noteq> []" using n(2,4) by simp_all
  from best_is_minimum [OF this] have "arr_get (best_values sp') 0 = ok (Min (reading s ` {..<n}))"
    by (simp add: atLeast0LessThan)
  moreover have "int n \<le> max 1 (maxsamples (sam s))" "settled (sam s) (map (reading s) [0..<n])"
    using n(5,6) by (simp_all add: init_sampler_def settled_def)
  ultimately show ?thesis using n(1,3,4) by (intro exI [of _ n]) (simp add: fcyc_def measure_of_def)
qed

text \<open>Compensation without a calibrated counter, on a machine whose user time stands still.\<close>

lemma fcyc_hangs:
  assumes "compensate s \<noteq> 0" "cyc_per_tick s = 0" "clear_cache s \<noteq> 0 \<longrightarrow> clear_ready cmalloc s"
    and "\<And>i. utimes s !! i \<le> utimes s !! 0"
  shows "fcyc cmalloc refused f s u = None"
proof -
  have "\<exists>b x. (if clear_cache s \<noteq> 0 then clear cmalloc s else ok s) = ok (s\<lparr>cache_buf := b, sink := x\<rparr>)"
  proof (cases "clear_cache s = 0")
    case True
    then show ?thesis by (intro exI [of _ "cache_buf s"] exI [of _ "sink s"]) simp
  next
    case False
    then show ?thesis using clear_ok [of cmalloc s] assms(3) by auto
  qed
  then obtain b x where e: "(if clear_cache s \<noteq> 0 then clear cmalloc s else ok s) = ok (s\<lparr>cache_buf := b, sink := x\<rparr>)"
    by blast
  have "callibrate (s\<lparr>cache_buf := b, sink := x\<rparr>) = None"
    by (rule callibrate_hangs) (use assms(4) in simp)
  then have "measure_comp cmalloc f (s, u) = None"
    using assms(2) unfolding measure_comp_def prod.case e by (simp add: start_comp_counter_def)
  then show ?thesis using assms(1) by (simp add: fcyc_def, subst fcyc_loop.simps) simp
qed

end
