(* ===== verification/Fsecs.thy ===== *)
theory Fsecs
  imports Fcyc
begin

text \<open>
  The function timers of \<^verbatim>\<open>src/ftimer.c\<close> and the wrapper \<^verbatim>\<open>src/fsecs.c\<close> that the driver calls, in all
  three variants \<^verbatim>\<open>src/config.h\<close> can choose from.
\<close>

section \<open>State\<close>

text \<open>
  The static variables of the two files, and the machine's next answers: the times of
  \<^verbatim>\<open>gettimeofday\<close> and what \<^verbatim>\<open>getitimer(ITIMER_REAL)\<close> shows, both in seconds and microseconds. The
  answers for the two other interval timers are read by the code and not used.
\<close>

record timing = fcyc_st +
  Mhz :: real
  tods :: "(int \<times> int) stream"
  real_timer :: "(int \<times> int) stream"
  first_u :: "int \<times> int"
  first_r :: "int \<times> int"
  first_p :: "int \<times> int"

section \<open>The interval timer\<close>

definition MAX_ETIME :: int where "MAX_ETIME = 86400"

definition init_etime :: "'a timing_scheme \<Rightarrow> 'a timing_scheme" where
  "init_etime s = s\<lparr>first_u := (MAX_ETIME, 0), first_r := (MAX_ETIME, 0), first_p := (MAX_ETIME, 0)\<rparr>"

definition get_etime :: "'a timing_scheme \<Rightarrow> real \<times> 'a timing_scheme" where
  "get_etime s =
     (let r_curr = shd (real_timer s); s = s\<lparr>real_timer := stl (real_timer s)\<rparr>
      in (of_int (fst (first_p s) - fst r_curr) + of_int (snd (first_p s) - snd r_curr) * (1 / 1000000), s))"

definition ftimer_itimer ::
  "('u \<Rightarrow> 'u res) \<Rightarrow> nat \<Rightarrow> 'a timing_scheme \<Rightarrow> 'u \<Rightarrow> (real \<times> 'a timing_scheme \<times> 'u) res" where
  "ftimer_itimer f n s u =
     (let s = init_etime s; (start, s) = get_etime s in
      bnd (repeat_run n f u) (\<lambda>u.
      let (now, s) = get_etime s; tmeas = now - start in ok (tmeas / real n, s, u)))"

section \<open>The time of day\<close>

definition gettod_secs :: "int \<times> int \<Rightarrow> int \<times> int \<Rightarrow> int \<Rightarrow> real" where
  "gettod_secs stv etv n =
     (let diff = 1000 * of_int (fst etv - fst stv) + of_int (snd etv - snd stv) / 1000;
          diff = diff / of_int n
      in diff / 1000)"

definition ftimer_gettod ::
  "('u \<Rightarrow> 'u res) \<Rightarrow> nat \<Rightarrow> 'a timing_scheme \<Rightarrow> 'u \<Rightarrow> (real \<times> 'a timing_scheme \<times> 'u) res" where
  "ftimer_gettod f n s u =
     (let stv = shd (tods s); s = s\<lparr>tods := stl (tods s)\<rparr> in
      bnd (repeat_run n f u) (\<lambda>u.
      let etv = shd (tods s); s = s\<lparr>tods := stl (tods s)\<rparr> in ok (gettod_secs stv etv (int n), s, u)))"

section \<open>The wrapper\<close>

text \<open>The choice \<^verbatim>\<open>config.h\<close> makes at compile time, and the one it makes in this repository.\<close>

datatype timer_kind = USE_FCYC | USE_ITIMER | USE_GETTOD

definition configured :: timer_kind where "configured = USE_GETTOD"

definition init_fsecs :: "timer_kind \<Rightarrow> timing \<Rightarrow> timing" where
  "init_fsecs m s =
     (let s = s\<lparr>Mhz := 0\<rparr> in
      case m of
        USE_FCYC \<Rightarrow>
          (let s = set_fcyc_maxsamples 20 s; s = set_fcyc_clear_cache 1 s; s = set_fcyc_compensate 1 s;
               s = set_fcyc_epsilon (1 / 100) s; s = set_fcyc_k 3 s; (rate, s) = mhz s
           in s\<lparr>Mhz := rate\<rparr>)
      | USE_ITIMER \<Rightarrow> s
      | USE_GETTOD \<Rightarrow> s)"

definition fsecs ::
  "timer_kind \<Rightarrow> (u32 \<Rightarrow> u32) \<Rightarrow> bool \<Rightarrow> ('u \<Rightarrow> 'u res) \<Rightarrow> timing \<Rightarrow> 'u \<Rightarrow> (real \<times> timing \<times> 'u) res" where
  "fsecs m cmalloc refused f s u =
     (case m of
        USE_FCYC \<Rightarrow> bnd (fcyc cmalloc refused f s u) (\<lambda>(cycles, s, u). ok (cycles / (Mhz s * 1000000), s, u))
      | USE_ITIMER \<Rightarrow> ftimer_itimer f 10 s u
      | USE_GETTOD \<Rightarrow> ftimer_gettod f 10 s u)"

section \<open>What the variants return\<close>

text \<open>An instant in seconds.\<close>

definition instant :: "int \<times> int \<Rightarrow> real" where
  "instant tv = of_int (fst tv) + of_int (snd tv) / 10 ^ 6"

lemma gettod_secs_mean: "gettod_secs stv etv n = (instant etv - instant stv) / of_int n"
  by (simp add: gettod_secs_def instant_def add_divide_distrib diff_divide_distrib)

lemma ftimer_gettod_ok:
  "ftimer_gettod f n s u = bnd (repeat_run n f u) (\<lambda>u.
     ok ((instant (tods s !! 1) - instant (tods s !! 0)) / real n, s\<lparr>tods := stl (stl (tods s))\<rparr>, u))"
  by (simp add: ftimer_gettod_def gettod_secs_mean Let_def)

text \<open>The interval timer runs down, so the earlier answer is the larger one; its initial value cancels.\<close>

lemma ftimer_itimer_ok:
  "ftimer_itimer f n s u = bnd (repeat_run n f u) (\<lambda>u.
     ok ((instant (real_timer s !! 0) - instant (real_timer s !! 1)) / real n,
         (init_etime s)\<lparr>real_timer := stl (stl (real_timer s))\<rparr>, u))"
proof -
  have "(m - a1 + (0 - b1) * (1 / 1000000)) - (m - a0 + (0 - b0) * (1 / 1000000)) = (a0 + b0 / 10 ^ 6) - (a1 + b1 / 10 ^ 6)"
    for m a0 a1 b0 b1 :: real by (simp add: field_simps)
  from this [of "of_int MAX_ETIME" "of_int (fst (real_timer s !! 1))" "of_int (snd (real_timer s !! 1))"
      "of_int (fst (real_timer s !! 0))" "of_int (snd (real_timer s !! 0))"]
  show ?thesis by (simp add: ftimer_itimer_def get_etime_def init_etime_def instant_def Let_def diff_add_eq_diff_diff_swap)
qed

text \<open>The time alone, when the rest of the result is left out.\<close>

lemma time_of_run: "map_option (map_sum id fst) (bnd r (\<lambda>u. ok (t, g u))) = map_option (map_sum id (\<lambda>_. t)) r"
  by (cases r rule: res_cases) simp_all

text \<open>The rate \<^verbatim>\<open>init_fsecs\<close> measures, and the parameters it sets.\<close>

lemma init_fsecs_fcyc:
  "Mhz (init_fsecs USE_FCYC s) = of_int ((counter_val (tsc s !! 1) - counter_val (tsc s !! 0)) mod 2 ^ 64) / 2000000"
  "kbest (sam (init_fsecs USE_FCYC s)) = 3" "maxsamples (sam (init_fsecs USE_FCYC s)) = 20"
  "epsilon (sam (init_fsecs USE_FCYC s)) = 1 / 100"
  "compensate (init_fsecs USE_FCYC s) = 1" "clear_cache (init_fsecs USE_FCYC s) = 1"
  "cyc_per_tick (init_fsecs USE_FCYC s) = cyc_per_tick s" "utimes (init_fsecs USE_FCYC s) = utimes s"
  by (simp_all add: init_fsecs_def set_fcyc_maxsamples_def set_fcyc_clear_cache_def set_fcyc_compensate_def
      set_fcyc_epsilon_def set_fcyc_k_def mhz_def mhz_full_def clock_steps counter_diff_val Let_def)

end
