(* ===== verification/Mdriver.thy ===== *)
theory Mdriver
  imports Driver Doubles Fsecs
begin

text \<open>
  The main program of \<^verbatim>\<open>src/mdriver.c\<close>: its options, the team check, the loops over the trace
  files for libc and for the \<^verbatim>\<open>mm\<close> package, the performance index and the printed tables. A line of
  output is a value that holds the numbers \<^verbatim>\<open>printf\<close> is given; their formatting is left out, and so
  are progress messages.
\<close>

section \<open>Command line\<close>

text \<open>\<^verbatim>\<open>TRACEDIR\<close> and \<^verbatim>\<open>DEFAULT_TRACEFILES\<close> of \<^verbatim>\<open>src/config.h\<close>.\<close>

definition TRACEDIR :: string where "TRACEDIR = ''/labs/sty16/data/traces/''"

definition default_tracefiles :: "string list" where
  "default_tracefiles = [''amptjp-bal.rep'', ''binary2-bal.rep'', ''binary-bal.rep'', ''cccp-bal.rep'',
     ''coalescing-bal.rep'', ''cp-decl-bal.rep'', ''expr-bal.rep'', ''random2-bal.rep'', ''random-bal.rep'',
     ''realloc2-bal.rep'', ''realloc-bal.rep'', ''3coalescing-bal.rep'']"

text \<open>
  \<^verbatim>\<open>getopt(argc, argv, "f:t:hvVgal")\<close> of the C library: what it answers until the end of the options,
  each answer with \<^verbatim>\<open>optarg\<close>. The first argument of \<open>getopt\<close> is the rest of the cluster of options
  under scan, the second the command line behind it. A letter that is not in the specification, and one
  whose argument is missing, is answered with a question mark. Other arguments are skipped, as the GNU
  library does.
\<close>

definition optstring :: string where "optstring = ''f:t:hvVgal''"

text \<open>Does the letter take an argument? \<open>None\<close> when it is no option.\<close>

fun opt_spec :: "char \<Rightarrow> string \<Rightarrow> bool option" where
  "opt_spec c [] = None"
| "opt_spec c (x # xs) = (if c \<noteq> CHR '':'' \<and> x = c then Some (xs \<noteq> [] \<and> hd xs = CHR '':'') else opt_spec c xs)"

function getopt :: "string \<Rightarrow> string list \<Rightarrow> (char \<times> string) list" where
  "getopt [] [] = []"
| "getopt [] (a # as) =
     (if a = ''--'' then []
      else if 1 < length a \<and> hd a = CHR ''-'' then getopt (tl a) as
      else getopt [] as)"
| "getopt (c # cs) as =
     (case opt_spec c optstring of
        None \<Rightarrow> (CHR ''?'', []) # getopt cs as
      | Some False \<Rightarrow> (c, []) # getopt cs as
      | Some True \<Rightarrow>
          if cs \<noteq> [] then (c, cs) # getopt [] as
          else if as = [] then [(CHR ''?'', [])]
          else (c, hd as) # getopt [] (tl as))"
  by pat_completeness auto

termination
  by (relation "measure (\<lambda>(cs, as). length cs + sum_list (map (Suc \<circ> length) as))") (auto simp: neq_Nil_conv)

record options =
  tracefiles :: "string list option"
  tracedir :: string
  num_tracefiles :: int
  team_check :: bool
  run_libc :: bool
  autograder :: bool
  verbose :: int

definition default_options :: options where
  "default_options = \<lparr>tracefiles = None, tracedir = TRACEDIR, num_tracefiles = 0, team_check = True,
     run_libc = False, autograder = False, verbose = 0\<rparr>"

text \<open>
  One answer of \<^verbatim>\<open>getopt\<close>, with \<^verbatim>\<open>optarg\<close>; \<open>refused\<close>: libc refuses the \<^verbatim>\<open>realloc\<close> of the file
  list. \<^verbatim>\<open>tracedir\<close> is an array of \<^verbatim>\<open>MAXLINE\<close> characters, and an empty \<^verbatim>\<open>optarg\<close> of \<^verbatim>\<open>-t\<close> makes the
  code read the character before it.
\<close>

definition parse_opt :: "bool \<Rightarrow> char \<times> string \<Rightarrow> options \<Rightarrow> options res" where
  "parse_opt refused = (\<lambda>(c, optarg) q.
     if c = CHR ''g'' then ok (q\<lparr>autograder := True\<rparr>)
     else if c = CHR ''f'' then
       if refused then fail (Exit 1)
       else ok (q\<lparr>num_tracefiles := 1, tracedir := ''./'', tracefiles := Some [optarg]\<rparr>)
     else if c = CHR ''t'' then
       if num_tracefiles q = 1 then ok q
       else if MAXLINE \<le> length optarg \<or> optarg = [] then fail OutOfBounds
       else if last optarg \<noteq> CHR ''/'' then
         if MAXLINE \<le> length optarg + 1 then fail OutOfBounds else ok (q\<lparr>tracedir := optarg @ ''/''\<rparr>)
       else ok (q\<lparr>tracedir := optarg\<rparr>)
     else if c = CHR ''a'' then ok (q\<lparr>team_check := False\<rparr>)
     else if c = CHR ''l'' then ok (q\<lparr>run_libc := True\<rparr>)
     else if c = CHR ''v'' then ok (q\<lparr>verbose := 1\<rparr>)
     else if c = CHR ''V'' then ok (q\<lparr>verbose := 2\<rparr>)
     else if c = CHR ''h'' then fail (Exit 0)
     else fail (Exit 1))"

fun parse_opts :: "bool \<Rightarrow> (char \<times> string) list \<Rightarrow> options \<Rightarrow> options res" where
  "parse_opts refused [] o1 = ok o1"
| "parse_opts refused (a # as) o1 = bnd (parse_opt refused a o1) (parse_opts refused as)"

text \<open>The lines \<^verbatim>\<open>usage\<close> prints for \<^verbatim>\<open>-h\<close> and for an answer that is no option, before the program ends.\<close>

definition usage_text :: "string list" where
  "usage_text =
     [''Usage: mdriver [-hvVal] [-f <file>] [-t <dir>]'',
      ''Options'',
      CHR 0x09 # ''-a         Don't check the team structure.'',
      CHR 0x09 # ''-f <file>  Use <file> as the trace file.'',
      CHR 0x09 # ''-g         Generate summary info for autograder.'',
      CHR 0x09 # ''-h         Print this message.'',
      CHR 0x09 # ''-l         Run libc malloc as well.'',
      CHR 0x09 # ''-t <dir>   Directory to find default traces.'',
      CHR 0x09 # ''-v         Print per-trace performance breakdowns.'',
      CHR 0x09 # ''-V         Print additional debug info.'']"

section \<open>The team structure\<close>

definition check_team :: "team_t \<Rightarrow> unit res" where
  "check_team t =
     (if teamname t = '''' then fail (Exit 1)
      else if name1 t = '''' \<or> id1 t = '''' then fail (Exit 1)
      else if name2 t \<noteq> '''' \<and> id2 t = '''' \<or> name2 t = '''' \<and> id2 t \<noteq> '''' then fail (Exit 1)
      else if name3 t \<noteq> '''' \<and> id3 t = '''' \<or> name3 t = '''' \<and> id3 t \<noteq> '''' then fail (Exit 1)
      else ok ())"

section \<open>Statistics and the performance index\<close>

record stats_t =
  st_ops :: real
  st_valid :: int
  st_secs :: real
  st_util :: real

text \<open>\<^verbatim>\<open>UTIL_WEIGHT\<close> and \<^verbatim>\<open>AVG_LIBC_THRUPUT\<close> of \<^verbatim>\<open>src/config.h\<close>.\<close>

definition UTIL_WEIGHT :: real where "UTIL_WEIGHT = 60 / 100"
definition AVG_LIBC_THRUPUT :: real where "AVG_LIBC_THRUPUT = 1500000"

text \<open>The throughput part \<^verbatim>\<open>p2\<close> of the index.\<close>

definition throughput_score :: "double \<Rightarrow> double" where
  "throughput_score avg_mm_throughput =
     (if Finite AVG_LIBC_THRUPUT < avg_mm_throughput then Finite (1 - UTIL_WEIGHT)
      else Finite (1 - UTIL_WEIGHT) * (avg_mm_throughput / Finite AVG_LIBC_THRUPUT))"

text \<open>The aggregate statistics of the last part of \<^verbatim>\<open>main\<close>: how many traces are correct, and the index.\<close>

definition numcorrect :: "stats_t list \<Rightarrow> int" where
  "numcorrect sts = sum_list (map (\<lambda>st. if st_valid st \<noteq> 0 then 1 else 0) sts)"

definition util_score :: "stats_t list \<Rightarrow> double" where
  "util_score sts = Finite UTIL_WEIGHT * (Finite (sum_list (map st_util sts)) / Finite (real (length sts)))"

definition avg_mm_throughput :: "stats_t list \<Rightarrow> double" where
  "avg_mm_throughput sts = Finite (sum_list (map st_ops sts)) / Finite (sum_list (map st_secs sts))"

definition perfindex :: "int \<Rightarrow> stats_t list \<Rightarrow> double" where
  "perfindex errs sts =
     (if errs = 0 then (util_score sts + throughput_score (avg_mm_throughput sts)) * Finite 100 else Finite 0)"

section \<open>Printed results\<close>

text \<open>A line of the table: the number of the trace, utilisation in percent, requests, seconds, Kops.\<close>

datatype row =
    Correct_row nat real real real double
  | Wrong_row nat
  | Total_row double real real double
  | Total_missing

text \<open>The loop of \<^verbatim>\<open>printresults\<close>, with the running sums of seconds, requests and utilisation.\<close>

fun print_rows :: "nat \<Rightarrow> stats_t list \<Rightarrow> real \<Rightarrow> real \<Rightarrow> real \<Rightarrow> row list \<times> real \<times> real \<times> real" where
  "print_rows i [] secs nops util = ([], secs, nops, util)"
| "print_rows i (st # sts) secs nops util =
     (if st_valid st \<noteq> 0 then
        let (rows, totals) = print_rows (Suc i) sts (secs + st_secs st) (nops + st_ops st) (util + st_util st)
        in (Correct_row i (st_util st * 100) (st_ops st) (st_secs st) (Finite (st_ops st / 1000) / Finite (st_secs st)) # rows, totals)
      else let (rows, totals) = print_rows (Suc i) sts secs nops util in (Wrong_row i # rows, totals))"

definition printresults :: "int \<Rightarrow> stats_t list \<Rightarrow> row list" where
  "printresults errs sts =
     (let (rows, secs, nops, util) = print_rows 0 sts 0 0 0 in
      rows @ [if errs = 0
              then Total_row (Finite util / Finite (real (length sts)) * Finite 100) nops secs (Finite (nops / 1000) / Finite secs)
              else Total_missing])"

text \<open>
  The lines behind the table: the index with its two parts, or the number of errors; and for the
  autograder the number of correct traces and the index once more. 
\<close>

datatype line =
    Perf_line double double double
  | Terminated_line int
  | Correct_line int
  | Perfidx_line double

definition final_lines :: "bool \<Rightarrow> int \<Rightarrow> stats_t list \<Rightarrow> line list" where
  "final_lines grade errs sts =
     (if errs = 0 then
        [Perf_line (util_score sts * Finite 100) (throughput_score (avg_mm_throughput sts) * Finite 100) (perfindex errs sts)]
      else [Terminated_line errs])
     @ (if grade then [Correct_line (numcorrect sts), Perfidx_line (perfindex errs sts)] else [])"

section \<open>libc\<close>

text \<open>The three functions of libc under test, on a heap of their own.\<close>

record 'l libc =
  l_malloc :: "u32 \<Rightarrow> 'l \<Rightarrow> u32 \<times> 'l"
  l_realloc :: "u32 \<Rightarrow> u32 \<Rightarrow> 'l \<Rightarrow> u32 \<times> 'l"
  l_free :: "u32 \<Rightarrow> 'l \<Rightarrow> 'l"

definition libc_step :: "'l libc \<Rightarrow> traceop \<Rightarrow> u32 list \<times> 'l \<Rightarrow> (u32 list \<times> 'l) res" where
  "libc_step lc op = (\<lambda>(bl, h).
     case op_type op of
       ALLOC \<Rightarrow>
         (let (p, h) = l_malloc lc (word_of_int (op_size op)) h
          in if p = 0 then fail (Exit 1) else bnd (arr_set bl (op_index op) p) (\<lambda>bl. ok (bl, h)))
     | REALLOC \<Rightarrow>
         bnd (arr_get bl (op_index op)) (\<lambda>oldp.
         let (newp, h) = l_realloc lc oldp (word_of_int (op_size op)) h
         in if newp = 0 then fail (Exit 1) else bnd (arr_set bl (op_index op) newp) (\<lambda>bl. ok (bl, h)))
     | FREE \<Rightarrow> bnd (arr_get bl (op_index op)) (\<lambda>p. ok (bl, l_free lc p h)))"

fun libc_loop :: "'l libc \<Rightarrow> traceop list \<Rightarrow> u32 list \<times> 'l \<Rightarrow> (u32 list \<times> 'l) res" where
  "libc_loop lc [] v = ok v"
| "libc_loop lc (op # rest) v = bnd (libc_step lc op v) (libc_loop lc rest)"

text \<open>A refused call is reported and then ends the program, so the report is lost with it.\<close>

definition eval_libc_valid :: "'l libc \<Rightarrow> trace \<Rightarrow> 'l \<Rightarrow> (int \<times> u32 list \<times> 'l) res" where
  "eval_libc_valid lc tr h = bnd (libc_loop lc (ops tr) (blocks tr, h)) (\<lambda>(bl, h). ok (1, bl, h))"

definition eval_libc_speed :: "'l libc \<Rightarrow> trace \<Rightarrow> u32 list \<times> 'l \<Rightarrow> (u32 list \<times> 'l) res" where
  "eval_libc_speed lc tr v = libc_loop lc (ops tr) v"

section \<open>The loops over the traces\<close>

text \<open>
  What the outside world answers while one trace is handled: which range nodes libc's \<^verbatim>\<open>malloc\<close>
  refuses, the answers of the clocks with the variables of the timing package, and libc's
  \<^verbatim>\<open>malloc\<close> and \<^verbatim>\<open>calloc\<close> for that package. The configured variant of \<^verbatim>\<open>fsecs\<close> carries nothing over from one
  trace to the next.
\<close>

record world =
  w_oom :: "nat \<Rightarrow> bool"
  w_timing :: timing
  w_malloc :: "u32 \<Rightarrow> u32"
  w_calloc :: bool

definition timed_run :: "world \<Rightarrow> ('u \<Rightarrow> 'u res) \<Rightarrow> 'u \<Rightarrow> (real \<times> timing \<times> 'u) res" where
  "timed_run w f u = fsecs configured (w_malloc w) (w_calloc w) f (init_fsecs configured (w_timing w)) u"

record 'm driver =
  d_ranges :: "range_t list"
  d_report :: report
  d_machine :: 'm

definition mm_trace ::
  "'a mem_scheme mm_package \<Rightarrow> int \<Rightarrow> world \<Rightarrow> trace \<Rightarrow> 'a mem_scheme driver
     \<Rightarrow> (stats_t \<times> 'a mem_scheme driver) res" where
  "mm_trace pkg i w tr d =
     bnd (eval_mm_valid pkg (w_oom w) tr i (d_ranges d) (d_report d) (d_machine d)) (\<lambda>(valid, v).
     let d = d\<lparr>d_ranges := ranges v, d_report := rep v, d_machine := machine v\<rparr>;
         tr = tr\<lparr>blocks := r_blocks v, block_sizes := r_sizes v\<rparr>;
         st = \<lparr>st_ops = of_int (num_ops tr), st_valid = valid, st_secs = 0, st_util = 0\<rparr> in
     if valid \<noteq> 0 then
       bnd (eval_mm_util pkg tr (d_machine d)) (\<lambda>(hwm, heap, u).
       let tr = tr\<lparr>blocks := u_blocks u, block_sizes := u_sizes u\<rparr> in
       bnd (timed_run w (\<lambda>(bl, s). eval_mm_speed pkg (tr\<lparr>blocks := bl\<rparr>) s) (blocks tr, u_machine u)) (\<lambda>(t, _, bl, s).
       ok (st\<lparr>st_util := of_int hwm / of_int (uint heap), st_secs := t\<rparr>, d\<lparr>d_machine := s\<rparr>)))
     else ok (st, d))"

text \<open>The loop: \<open>read i\<close> is the outcome of \<^verbatim>\<open>read_trace\<close> on file \<open>i\<close>.\<close>

fun mm_traces ::
  "'a mem_scheme mm_package \<Rightarrow> (nat \<Rightarrow> trace res) \<Rightarrow> (nat \<Rightarrow> world) \<Rightarrow> nat \<Rightarrow> nat \<Rightarrow> 'a mem_scheme driver
     \<Rightarrow> (stats_t list \<times> 'a mem_scheme driver) res" where
  "mm_traces pkg read w i 0 d = ok ([], d)"
| "mm_traces pkg read w i (Suc n) d =
     bnd (read i) (\<lambda>tr.
     bnd (mm_trace pkg (int i) (w i) tr d) (\<lambda>(st, d).
     bnd (mm_traces pkg read w (Suc i) n d) (\<lambda>(sts, d). ok (st # sts, d))))"

definition libc_trace ::
  "'l libc \<Rightarrow> world \<Rightarrow> trace \<Rightarrow> 'l \<Rightarrow> (stats_t \<times> 'l) res" where
  "libc_trace lc w tr h =
     bnd (eval_libc_valid lc tr h) (\<lambda>(valid, bl, h).
     let st = \<lparr>st_ops = of_int (num_ops tr), st_valid = valid, st_secs = 0, st_util = 0\<rparr> in
     if valid \<noteq> 0 then
       bnd (timed_run w (eval_libc_speed lc tr) (bl, h)) (\<lambda>(t, _, _, h). ok (st\<lparr>st_secs := t\<rparr>, h))
     else ok (st, h))"

fun libc_traces ::
  "'l libc \<Rightarrow> (nat \<Rightarrow> trace res) \<Rightarrow> (nat \<Rightarrow> world) \<Rightarrow> nat \<Rightarrow> nat \<Rightarrow> 'l \<Rightarrow> (stats_t list \<times> 'l) res" where
  "libc_traces lc read w i 0 h = ok ([], h)"
| "libc_traces lc read w i (Suc n) h =
     bnd (read i) (\<lambda>tr.
     bnd (libc_trace lc (w i) tr h) (\<lambda>(st, h).
     bnd (libc_traces lc read w (Suc i) n h) (\<lambda>(sts, h). ok (st # sts, h))))"

section \<open>The main program\<close>

text \<open>
  What the environment supplies: the arguments on the command line, the linked team structure, the
  content of the files, and libc's
  memory: what its \<^verbatim>\<open>malloc\<close> refuses and leaves behind while the traces are read, the region for
  the simulated heap, and which of the driver's own arrays it refuses. The flag tells the libc
  loop from the mm loop.
\<close>

record environment =
  e_args :: "string list"
  e_team :: team_t
  e_content :: "string \<Rightarrow> string option"
  e_refuses :: "bool \<Rightarrow> nat \<Rightarrow> u32 \<Rightarrow> bool"
  e_garbage :: "bool \<Rightarrow> nat \<Rightarrow> garbage"
  e_world :: "bool \<Rightarrow> nat \<Rightarrow> world"
  e_arena :: u32
  e_refused :: "nat \<Rightarrow> bool"

definition read_file :: "environment \<Rightarrow> bool \<Rightarrow> string \<Rightarrow> string list \<Rightarrow> nat \<Rightarrow> trace res" where
  "read_file e mm dir files i =
     read_trace (e_refuses e mm i) (e_garbage e mm i) dir (files ! i) (e_content e (dir @ files ! i))"

text \<open>
  The result of a run: the numbers of the summary, the tables, and the lines behind them. The calls
  that allocate the file list and the two statistics arrays are numbered 0, 1 and 2.
\<close>

record outcome =
  o_errors :: int
  o_correct :: int
  o_index :: double
  o_libc :: "row list option"
  o_mm :: "row list option"
  o_lines :: "line list"

definition mdriver_main ::
  "'l libc \<Rightarrow> 'a mem_scheme mm_package \<Rightarrow> environment \<Rightarrow> 'l \<Rightarrow> 'a mem_scheme \<Rightarrow> outcome res" where
  "mdriver_main lc pkg e h s =
     bnd (parse_opts (e_refused e 0) (getopt [] (e_args e)) default_options) (\<lambda>o1.
     bnd (if team_check o1 then check_team (e_team e) else ok ()) (\<lambda>_.
     let files = (case tracefiles o1 of None \<Rightarrow> default_tracefiles | Some fs \<Rightarrow> fs);
         n = length files in
     bnd (if run_libc o1 then
            if e_refused e 1 then fail (Exit 1)
            else
              bnd (libc_traces lc (read_file e False (tracedir o1) files) (e_world e False) 0 n h) (\<lambda>(sts, _).
              ok (if verbose o1 \<noteq> 0 then Some (printresults 0 sts) else None))
          else ok None) (\<lambda>libc_table.
     if e_refused e 2 then fail (Exit 1)
     else
       bnd (mem_init (e_arena e) s) (\<lambda>s.
       bnd (mm_traces pkg (read_file e True (tracedir o1) files) (e_world e True) 0 n
              \<lparr>d_ranges = [], d_report = \<lparr>errors = 0, printed = []\<rparr>, d_machine = s\<rparr>) (\<lambda>(sts, d).
       let errs = errors (d_report d) in
       ok \<lparr>o_errors = errs, o_correct = numcorrect sts, o_index = perfindex errs sts, o_libc = libc_table,
           o_mm = (if verbose o1 \<noteq> 0 then Some (printresults errs sts) else None),
           o_lines = final_lines (autograder o1) errs sts\<rparr>)))))"

end
