(* ===== verification/Mdriver_Options.thy ===== *)
theory Mdriver_Options
  imports Mdriver
begin

text \<open>
  The command line of \<^verbatim>\<open>src/mdriver.c\<close>: what a sequence of options means, whatever their order,
  and how \<^verbatim>\<open>usage\<close>, \<^verbatim>\<open>getopt\<close> and the \<^verbatim>\<open>switch\<close> of \<^verbatim>\<open>main\<close> fit together.
\<close>

section \<open>The meaning of the options\<close>

text \<open>The arguments an option was given with.\<close>

definition args_of :: "char \<Rightarrow> (char \<times> string) list \<Rightarrow> string list" where
  "args_of c xs = map snd (filter (\<lambda>(d, _). d = c) xs)"

definition given :: "char \<Rightarrow> (char \<times> string) list \<Rightarrow> bool" where
  "given c xs \<longleftrightarrow> c \<in> fst ` set xs"

text \<open>The letters that set the level of output.\<close>

definition levels :: "(char \<times> string) list \<Rightarrow> string" where
  "levels xs = filter (\<lambda>c. c = CHR ''v'' \<or> c = CHR ''V'') (map fst xs)"

definition slashed :: "string \<Rightarrow> string" where
  "slashed dir = (if last dir = CHR ''/'' then dir else dir @ ''/'')"

text \<open>
  A reference without state: \<^verbatim>\<open>-f\<close> takes precedence over \<^verbatim>\<open>-t\<close> in either order, the last argument of
  an option counts, and the last of \<^verbatim>\<open>-v\<close> and \<^verbatim>\<open>-V\<close> sets the level.
\<close>

definition options_of :: "(char \<times> string) list \<Rightarrow> options" where
  "options_of xs =
     \<lparr>tracefiles = (if args_of (CHR ''f'') xs = [] then None else Some [last (args_of (CHR ''f'') xs)]),
      tracedir = (if args_of (CHR ''f'') xs \<noteq> [] then ''./''
                  else if args_of (CHR ''t'') xs \<noteq> [] then slashed (last (args_of (CHR ''t'') xs))
                  else TRACEDIR),
      num_tracefiles = (if args_of (CHR ''f'') xs = [] then 0 else 1),
      team_check = (\<not> given (CHR ''a'') xs),
      run_libc = given (CHR ''l'') xs,
      autograder = given (CHR ''g'') xs,
      verbose = (if levels xs = [] then 0 else if last (levels xs) = CHR ''v'' then 1 else 2)\<rparr>"

lemma parse_opts_append: "parse_opts r (xs @ ys) o1 = bnd (parse_opts r xs o1) (parse_opts r ys)"
proof (induction xs arbitrary: o1)
  case (Cons x xs)
  then show ?case by (cases "parse_opt r x o1" rule: res_cases) simp_all
qed simp

lemma args_of_snoc: "args_of c (xs @ [(d, a)]) = args_of c xs @ (if d = c then [a] else [])"
  by (simp add: args_of_def)

lemma given_snoc: "given c (xs @ [(d, a)]) \<longleftrightarrow> given c xs \<or> c = d"
  by (auto simp: given_def)

lemma levels_snoc: "levels (xs @ [(c, a)]) = levels xs @ (if c = CHR ''v'' \<or> c = CHR ''V'' then [c] else [])"
  by (simp add: levels_def)

lemmas snoc_simps = args_of_snoc given_snoc levels_snoc

lemma options_of_snoc:
  "options_of (xs @ [(CHR ''g'', a)]) = (options_of xs)\<lparr>autograder := True\<rparr>"
  "options_of (xs @ [(CHR ''f'', a)]) = (options_of xs)\<lparr>num_tracefiles := 1, tracedir := ''./'', tracefiles := Some [a]\<rparr>"
  "num_tracefiles (options_of xs) = 1 \<Longrightarrow> options_of (xs @ [(CHR ''t'', a)]) = options_of xs"
  "num_tracefiles (options_of xs) \<noteq> 1 \<Longrightarrow> options_of (xs @ [(CHR ''t'', a)]) = (options_of xs)\<lparr>tracedir := slashed a\<rparr>"
  "options_of (xs @ [(CHR ''a'', a)]) = (options_of xs)\<lparr>team_check := False\<rparr>"
  "options_of (xs @ [(CHR ''l'', a)]) = (options_of xs)\<lparr>run_libc := True\<rparr>"
  "options_of (xs @ [(CHR ''v'', a)]) = (options_of xs)\<lparr>verbose := 1\<rparr>"
  "options_of (xs @ [(CHR ''V'', a)]) = (options_of xs)\<lparr>verbose := 2\<rparr>"
  by (simp_all add: options_of_def snoc_simps split: if_splits)

lemma parse_opt_meaning:
  assumes "parse_opt r (c, a) (options_of xs) = ok q"
  shows "q = options_of (xs @ [(c, a)])"
proof (cases "c \<in> {CHR ''g'', CHR ''f'', CHR ''t'', CHR ''a'', CHR ''l'', CHR ''v'', CHR ''V''}")
  case True
  then show ?thesis using assms
    by (elim insertE emptyE) (simp_all add: parse_opt_def options_of_snoc slashed_def split: if_splits)
next
  case False
  then show ?thesis using assms by (simp add: parse_opt_def split: if_splits)
qed

lemma parse_opts_meaning:
  "parse_opts r xs default_options = ok q \<Longrightarrow> q = options_of xs"
proof (induction xs arbitrary: q rule: rev_induct)
  case Nil
  then show ?case by (simp add: options_of_def default_options_def args_of_def given_def levels_def)
next
  case (snoc x xs)
  obtain c a where x: "x = (c, a)" by fastforce
  obtain q1 where q1: "parse_opts r xs default_options = ok q1" "parse_opt r (c, a) q1 = ok q"
    using snoc.prems by (auto simp: parse_opts_append x elim!: bnd_eq_okE)
  show ?case using parse_opt_meaning q1(2) unfolding snoc.IH [OF q1(1)] x by blast
qed

section \<open>The answers of getopt\<close>

text \<open>\<^verbatim>\<open>main\<close> has a case for every answer except the question mark.\<close>

definition option_letters :: string where
  "option_letters = filter (\<lambda>c. c \<noteq> CHR '':'') optstring"

lemma opt_spec_letters: "opt_spec c optstring \<noteq> None \<longleftrightarrow> c \<in> set option_letters"
proof -
  have "opt_spec c xs \<noteq> None \<longleftrightarrow> c \<in> set xs \<and> c \<noteq> CHR '':''" for xs
    by (induction xs) auto
  then show ?thesis by (simp add: option_letters_def)
qed

lemma getopt_answers: "(c, x) \<in> set (getopt cs as) \<Longrightarrow> c \<in> set option_letters \<or> c = CHR ''?''"
proof (induction cs as rule: getopt.induct)
  case (2 a as)
  then show ?case by (simp only: getopt.simps split: if_splits) auto
next
  case (3 d cs as)
  have "d \<in> set option_letters" if "opt_spec d optstring = Some b" for b
    using opt_spec_letters [of d] that by simp
  then show ?case using 3 by (auto split: option.splits bool.splits if_splits)
qed simp

text \<open>The list \<^verbatim>\<open>usage\<close> prints explains exactly these letters; its first line leaves out \<^verbatim>\<open>-g\<close>.\<close>

definition explained :: "string list \<Rightarrow> string" where
  "explained ls = concat (map (\<lambda>l. if take 2 l = [CHR 0x09, CHR ''-''] then [l ! 2] else []) ls)"

lemma usage_explains: "set (explained usage_text) = set option_letters"
  "CHR ''g'' \<notin> set (takeWhile (\<lambda>c. c \<noteq> CHR '']'') (dropWhile (\<lambda>c. c \<noteq> CHR ''['') (hd usage_text)))"
  by (simp_all add: explained_def usage_text_def option_letters_def optstring_def insert_commute)

text \<open>A question mark ends the program with exit code 1, \<^verbatim>\<open>-h\<close> with 0.\<close>

lemma parse_opt_ends:
  "parse_opt r (CHR ''?'', a) o1 = fail (Exit 1)" "parse_opt r (CHR ''h'', a) o1 = fail (Exit 0)"
  by (simp_all add: parse_opt_def)

lemma parse_opts_accepts:
  "parse_opts r xs o1 = ok q \<Longrightarrow> (c, x) \<in> set xs \<Longrightarrow> c \<noteq> CHR ''?'' \<and> c \<noteq> CHR ''h''"
proof (induction xs arbitrary: o1)
  case (Cons y xs)
  obtain d a where y: "y = (d, a)" by fastforce
  obtain q1 where q1: "parse_opt r (d, a) o1 = ok q1" "parse_opts r xs q1 = ok q"
    using Cons.prems(1) by (auto simp: y elim!: bnd_eq_okE)
  have "d \<noteq> CHR ''?'' \<and> d \<noteq> CHR ''h''" using q1(1) by (auto simp: parse_opt_ends)
  then show ?case using Cons.IH [OF q1(2)] Cons.prems(2) y by auto
qed simp

lemma command_line_meaning:
  assumes "parse_opts r (getopt [] argv) default_options = ok q"
  shows "q = options_of (getopt [] argv)"
    and "(c, x) \<in> set (getopt [] argv) \<Longrightarrow> c \<in> set (explained usage_text) \<and> c \<noteq> CHR ''h''"
  using parse_opts_meaning [OF assms] parse_opts_accepts [OF assms] getopt_answers usage_explains(1) by blast+

end
