(* ===== verification/Driver_Correct.thy ===== *)
theory Driver_Correct
  imports Driver
begin

text \<open>
  What the correctness check of the driver says about a package that meets the contract of
  theory \<open>Allocator\<close>: on a well-formed trace every request passes all its tests.
\<close>

section \<open>Well-formed traces\<close>

text \<open>
  Indices in range, sizes positive and at most \<open>B\<close>, and only live indices freed or
  reallocated. The driver compares signed \<^verbatim>\<open>char\<close>s with \<^verbatim>\<open>index & 0xFF\<close>, so a \<open>REALLOC\<close> can
  only pass its data check when the low byte of the index is below 128.
\<close>

fun wf_ops :: "nat \<Rightarrow> nat \<Rightarrow> nat set \<Rightarrow> traceop list \<Rightarrow> bool" where
  "wf_ops ids B live [] = True"
| "wf_ops ids B live (op # rest) =
     (let i = nat (op_index op) in
      0 \<le> op_index op \<and> i < ids \<and>
      (case op_type op of
         ALLOC \<Rightarrow> 0 < op_size op \<and> nat (op_size op) \<le> B \<and> wf_ops ids B (insert i live) rest
       | REALLOC \<Rightarrow> i \<in> live \<and> 0 < op_size op \<and> nat (op_size op) \<le> B \<and> i mod 256 < 128
           \<and> wf_ops ids B live rest
       | FREE \<Rightarrow> i \<in> live \<and> wf_ops ids B (live - {i}) rest))"

text \<open>The three kinds of a well-formed first request.\<close>

lemma wf_ops_ConsE [consumes 1, case_names ALLOC FREE REALLOC]:
  assumes "wf_ops ids B live (op # rest)"
  obtains i n where "op_type op = ALLOC" "op_index op = int i" "op_size op = int n" "i < ids" "0 < n" "n \<le> B"
      "wf_ops ids B (insert i live) rest"
  | i where "op_type op = FREE" "op_index op = int i" "i \<in> live" "wf_ops ids B (live - {i}) rest"
  | i n where "op_type op = REALLOC" "op_index op = int i" "op_size op = int n" "i \<in> live" "i mod 256 < 128"
      "0 < n" "n \<le> B" "wf_ops ids B live rest"
proof -
  obtain i where i: "op_index op = int i" "i < ids"
    using assms by (auto simp: Let_def intro: that [of "nat (op_index op)"])
  show ?thesis
    using assms i that(1) [of i "nat (op_size op)"] that(2) [of i] that(3) [of i "nat (op_size op)"]
    by (cases "op_type op") (simp_all add: Let_def)
qed

section \<open>Arithmetic of the driver's tests\<close>

lemma IS_ALIGNED_w32: "8 dvd p \<Longrightarrow> p < 4294967296 \<Longrightarrow> IS_ALIGNED (w32 p)"
  by (simp add: IS_ALIGNED_def ALIGNMENT_def w32_numeral w32_mod)

lemma heap_hi_w32: "0 < brk_of s \<Longrightarrow> mem_heap_hi s = w32 (brk_of s - 1)"
proof -
  assume "0 < brk_of s"
  then have "w32 (brk_of s) - w32 1 = w32 (brk_of s - 1)" by (simp del: w32_unat)
  then show ?thesis by (simp add: mem_heap_hi_def w32_1)
qed

lemma heap_lo_w32: "mem_heap_lo s = w32 (start_of s)"
  by (simp add: mem_heap_lo_def)

text \<open>The fill byte, and its value read back through a signed \<^verbatim>\<open>char\<close>.\<close>

definition fill_byte :: "nat \<Rightarrow> u8" where
  "fill_byte i = word_of_nat i"

lemma fill_byte_mask: "word_of_int (take_bit 8 (int i)) = fill_byte i"
proof -
  have "(word_of_int (take_bit 8 (int i)) :: u8) = word_of_int (int i)"
    by (subst word_of_int_eq_iff) simp
  then show ?thesis by (simp add: fill_byte_def)
qed

lemma sint_fill_byte:
  assumes "i mod 256 < 128"
  shows "sint (fill_byte i) = take_bit 8 (int i)"
proof -
  have t: "take_bit 8 (int i) = int (i mod 256)" by (simp add: take_bit_eq_mod zmod_int)
  have "fill_byte i = word_of_int (int (i mod 256))"
    using fill_byte_mask [of i] by (simp add: t)
  moreover have "sint (word_of_int (int (i mod 256)) :: u8) = int (i mod 256)"
    using assms by (simp add: signed_of_int signed_take_bit_int_eq_self del: of_int_of_nat_eq)
  ultimately show ?thesis by (simp add: t)
qed

lemma sint_fill_byte_neg:
  assumes "128 \<le> i mod 256"
  shows "sint (fill_byte i) \<noteq> take_bit 8 (int i)"
proof -
  have "sint (fill_byte i) < 128" using sint_lt [of "fill_byte i"] by simp
  moreover have "take_bit 8 (int i) = int (i mod 256)" by (simp add: take_bit_eq_mod zmod_int)
  ultimately show ?thesis using assms by simp
qed

text \<open>The data check on a payload that carries the fill byte everywhere.\<close>

lemma check_data_ok:
  assumes "i mod 256 < 128" "start_of s \<le> q" "q + j + k \<le> top_of s"
    and "\<forall>x. q + j \<le> x \<and> x < q + j + k \<longrightarrow> heap_bytes s x = fill_byte i"
  shows "check_data (w32 q) (take_bit 8 (int i)) j k s = ok True"
  using assms(3,4)
proof (induction k arbitrary: j)
  case 0
  then show ?case by simp
next
  case (Suc k)
  have "q + j < 4294967296"
    using Suc.prems(1) unat_u32_less [of "mem_max_addr s"] by simp
  moreover have "heap_bytes s (q + j) = fill_byte i" using Suc.prems(2) by simp
  ultimately have "load_char (w32 q + w32 j) s = ok (take_bit 8 (int i))"
    using assms(1,2) Suc.prems(1) by (simp add: load_char_def in_arena_def sint_fill_byte)
  moreover have "check_data (w32 q) (take_bit 8 (int i)) (Suc j) k s = ok True"
    using Suc.prems by (intro Suc.IH) auto
  ultimately show ?case by simp
qed

text \<open>The same check for an index whose low byte has its top bit set: it fails on the first byte.\<close>

lemma check_data_signed:
  assumes "128 \<le> i mod 256" "in_arena s q n" "0 < n"
    and "\<forall>x. q \<le> x \<and> x < q + n \<longrightarrow> heap_bytes s x = fill_byte i"
  shows "check_data (w32 q) (take_bit 8 (int i)) 0 n s = ok False"
proof -
  obtain k where k: "n = Suc k" using assms(3) by (cases n) auto
  have "q < 4294967296"
    using assms(2) k unat_u32_less [of "mem_max_addr s"] by (simp add: in_arena_def)
  then have "load_char (w32 q + w32 0) s = ok (sint (fill_byte i))"
    using assms(2,4) k by (simp add: load_char_def in_arena_def)
  then show ?thesis using sint_fill_byte_neg [OF assms(1)] by (simp add: k)
qed

section \<open>The invariant of a run\<close>

text \<open>The ranges recorded are extents of live payloads.\<close>

definition ranges_ok :: "(nat \<rightharpoonup> nat) \<Rightarrow> range_t list \<Rightarrow> bool" where
  "ranges_ok L rs \<longleftrightarrow> distinct (map range_lo rs) \<and>
     (\<forall>r \<in> set rs. \<exists>p n. L p = Some n \<and> 0 < n \<and> range_lo r = w32 p \<and> range_hi r = w32 (p + n - 1))"

text \<open>Every live index names a live payload of its own, filled with the index's low byte.\<close>

definition entry_ok :: "memory \<Rightarrow> (nat \<rightharpoonup> nat) \<Rightarrow> u32 list \<Rightarrow> u32 list \<Rightarrow> nat \<Rightarrow> bool" where
  "entry_ok m L bl bs i \<longleftrightarrow> (\<exists>p n. 0 < n \<and> n < 2 ^ 31 \<and> bl ! i = w32 p \<and> bs ! i = w32 n \<and> L p = Some n
     \<and> (\<forall>x. p \<le> x \<and> x < p + n \<longrightarrow> m x = fill_byte i))"

definition book_ok :: "nat \<Rightarrow> nat set \<Rightarrow> memory \<Rightarrow> u32 list \<Rightarrow> u32 list \<Rightarrow> (nat \<rightharpoonup> nat) \<Rightarrow> bool" where
  "book_ok ids live m bl bs L \<longleftrightarrow> length bl = ids \<and> length bs = ids \<and> live \<subseteq> {..<ids}
     \<and> (\<forall>i \<in> live. entry_ok m L bl bs i)
     \<and> (\<forall>i \<in> live. \<forall>j \<in> live. i \<noteq> j \<longrightarrow> bl ! i \<noteq> bl ! j)"

definition run_ok ::
  "('a mem_scheme \<Rightarrow> (nat \<rightharpoonup> nat) \<Rightarrow> bool) \<Rightarrow> nat \<Rightarrow> nat set \<Rightarrow> 'a mem_scheme run \<Rightarrow> (nat \<rightharpoonup> nat) \<Rightarrow> bool" where
  "run_ok I ids live v L \<longleftrightarrow> I (machine v) L
     \<and> book_ok ids live (heap_bytes (machine v)) (r_blocks v) (r_sizes v) L
     \<and> ranges_ok L (ranges v)"

lemma entry_ok_keep:
  assumes "entry_ok m L bl bs i" "keeps_live L' m m'" "\<And>p. bl ! i = w32 p \<Longrightarrow> L' p = L p"
    "bl' ! i = bl ! i" "bs' ! i = bs ! i" "\<And>p. bl ! i = w32 p \<Longrightarrow> L'' p = L p"
  shows "entry_ok m' L'' bl' bs' i"
  using assms unfolding entry_ok_def keeps_live_def by metis

lemma book_ok_keep:
  "book_ok ids live m bl bs L \<Longrightarrow> keeps_live L m m' \<Longrightarrow> book_ok ids live m' bl bs L"
  unfolding book_ok_def by (auto intro: entry_ok_keep)

lemma book_ok_drop:
  assumes "book_ok ids live m bl bs L" "i \<in> live" "bl ! i = w32 p"
  shows "book_ok ids (live - {i}) m bl bs (L(p := None))"
proof -
  have "entry_ok m (L(p := None)) bl bs j" if "j \<in> live - {i}" for j
  proof -
    have "entry_ok m L bl bs j" "bl ! j \<noteq> bl ! i"
      using that assms(1,2) by (simp_all add: book_ok_def)
    with assms(3) have "entry_ok m L bl bs j" "bl ! j \<noteq> w32 p" by simp_all
    then show ?thesis by (auto simp: entry_ok_def)
  qed
  then show ?thesis using assms(1) unfolding book_ok_def by auto
qed

section \<open>One request on a package that meets the contract\<close>

context allocator
begin

lemma live_bounds:
  assumes "inv s L" "L p = Some n"
  shows "0 < start_of s" "start_of s \<le> p" "p + n < brk_of s" "brk_of s \<le> top_of s" "top_of s < 4294967296"
    "0 < p" "8 dvd p"
  using inv_arena [OF assms(1)] live_range [OF assms] unat_u32_less [of "mem_max_addr s"]
  by (auto simp: arena_ok_def)

text \<open>Every recorded range is a live payload other than the new one; so the two do not overlap.\<close>

lemma ranges_other:
  assumes "ranges_ok L rs" "L p = None" "L \<subseteq>\<^sub>m L'" "r \<in> set rs"
  obtains q k where "L' q = Some k" "0 < k" "range_lo r = w32 q" "range_hi r = w32 (q + k - 1)" "q \<noteq> p"
proof -
  from assms(1,4) obtain q k where q: "L q = Some k" "0 < k" "range_lo r = w32 q" "range_hi r = w32 (q + k - 1)"
    by (auto simp: ranges_ok_def)
  moreover have "L' q = Some k" "q \<noteq> p" using q(1) assms(2,3) by (auto simp: map_le_def dom_def)
  ultimately show ?thesis using that by blast
qed

lemma no_overlap_live:
  assumes inv': "inv s L'" and p: "L' p = Some n" "0 < n"
    and rs: "ranges_ok L rs" "L p = None" "L \<subseteq>\<^sub>m L'"
  shows "find_overlap (w32 p) (w32 (p + n - 1)) rs = None" "w32 p \<notin> range_lo ` set rs"
proof -
  note B = live_bounds [OF inv' p(1)]
  have apart: "range_lo r \<noteq> w32 p \<and> \<not> (range_lo r \<le> w32 p \<and> w32 p \<le> range_hi r)
      \<and> \<not> (range_lo r \<le> w32 (p + n - 1) \<and> w32 (p + n - 1) \<le> range_hi r)" if r: "r \<in> set rs" for r
  proof -
    from rs r obtain q k where q: "L' q = Some k" "0 < k" "range_lo r = w32 q" "range_hi r = w32 (q + k - 1)" "q \<noteq> p"
      by (rule ranges_other)
    note B' = live_bounds [OF inv' q(1)]
    from live_disjoint [OF inv' p(1) q(1)] q(5) have "p + n \<le> q \<or> q + k \<le> p" by simp
    moreover have "w32 q \<noteq> w32 p" using B B' q(5) w32_eq_iff [of q p] by auto
    ultimately show ?thesis using B B' p(2) q(2) unfolding q(3,4) by auto
  qed
  show "find_overlap (w32 p) (w32 (p + n - 1)) rs = None" using apart by (induction rs) auto
  show "w32 p \<notin> range_lo ` set rs" using apart by (metis imageE)
qed

text \<open>The tests of \<open>add_range\<close> pass on a fresh live payload.\<close>

lemma add_range_live:
  assumes inv': "inv s L'" and p: "L' p = Some n" "0 < n"
    and rs: "ranges_ok L rs" and L: "L p = None" "L \<subseteq>\<^sub>m L'"
  shows "add_range oom rs (w32 p) (int n) t i s d
      = (if oom then fail (Exit 1) else ok (1, \<lparr>range_lo = w32 p, range_hi = w32 (p + n - 1)\<rparr> # rs, d))"
    and "ranges_ok L' (\<lparr>range_lo = w32 p, range_hi = w32 (p + n - 1)\<rparr> # rs)"
proof -
  note B = live_bounds [OF inv' p(1)] and N = no_overlap_live [OF inv' p rs L]
  have hi: "w32 p + word_of_int (int n) - 1 = w32 (p + n - 1)"
    using p(2) by (simp add: word_of_int_w32 w32_1 del: of_int_of_nat_eq)
  have "start_of s \<le> p + n - 1" "p + n - 1 \<le> brk_of s - 1" "p \<le> brk_of s - 1"
    using B p(2) by linarith+
  then have "\<not> (w32 p < mem_heap_lo s \<or> mem_heap_hi s < w32 p
      \<or> w32 (p + n - 1) < mem_heap_lo s \<or> mem_heap_hi s < w32 (p + n - 1))"
    using B by (simp add: heap_hi_w32 heap_lo_w32 not_less del: w32_unat)
  then show "add_range oom rs (w32 p) (int n) t i s d
      = (if oom then fail (Exit 1) else ok (1, \<lparr>range_lo = w32 p, range_hi = w32 (p + n - 1)\<rparr> # rs, d))"
    using B p(2) by (simp add: add_range_def hi N(1) IS_ALIGNED_w32 Let_def del: of_int_of_nat_eq One_nat_def)
  show "ranges_ok L' (\<lparr>range_lo = w32 p, range_hi = w32 (p + n - 1)\<rparr> # rs)"
    unfolding ranges_ok_def
  proof (intro conjI ballI)
    fix r' assume "r' \<in> set (\<lparr>range_lo = w32 p, range_hi = w32 (p + n - 1)\<rparr> # rs)"
    then show "\<exists>p n. L' p = Some n \<and> 0 < n \<and> range_lo r' = w32 p \<and> range_hi r' = w32 (p + n - 1)"
      using p ranges_other [OF rs L] by (cases "r' \<in> set rs") (metis, auto)
  qed (use rs N(2) in \<open>simp add: ranges_ok_def\<close>)
qed

text \<open>Filling a live payload.\<close>

lemma memset_live:
  assumes "inv s L" "L p = Some n" "0 < n"
  shows "memset (w32 p) c n s = ok (s\<lparr>heap_bytes := fill_bytes p c n (heap_bytes s)\<rparr>)"
    and "inv (s\<lparr>heap_bytes := fill_bytes p c n (heap_bytes s)\<rparr>) L"
    and "keeps_live (L(p := None)) (heap_bytes s) (fill_bytes p c n (heap_bytes s))"
proof -
  note B = live_bounds [OF assms(1,2)]
  show "memset (w32 p) c n s = ok (s\<lparr>heap_bytes := fill_bytes p c n (heap_bytes s)\<rparr>)"
    using B assms(3) by (simp add: memset_def in_arena_def)
  show "inv (s\<lparr>heap_bytes := fill_bytes p c n (heap_bytes s)\<rparr>) L"
    by (rule write_ok [OF assms(1,2) same_outside_fill])
  show "keeps_live (L(p := None)) (heap_bytes s) (fill_bytes p c n (heap_bytes s))"
    unfolding keeps_live_def
  proof (intro allI impI)
    fix q k x assume "(L(p := None)) q = Some k" and x: "q \<le> x" "x < q + k"
    then have q: "L q = Some k" "q \<noteq> p" by (auto split: if_splits)
    from live_disjoint [OF assms(1,2) q(1)] q(2) have "p + n \<le> q \<or> q + k \<le> p" by simp
    with x show "fill_bytes p c n (heap_bytes s) x = heap_bytes s x"
      by (auto simp: fill_bytes_def)
  qed
qed

text \<open>\<open>ALLOC\<close>: refused requests end the run, granted ones keep the invariant.\<close>

lemma alloc_step_fail:
  assumes "op_type op = ALLOC" "op_size op = int n" "mm_malloc pkg (w32 n) (machine v) = ok (0, s')"
  shows "valid_step pkg oom t k op v
    = ok (False, v\<lparr>machine := s', rep := malloc_error t k Malloc_failed (rep v)\<rparr>)"
  using assms by (simp add: valid_step_def word_of_int_w32 del: of_int_of_nat_eq)

text \<open>Entering a fresh payload, filled with the index's byte, under an index.\<close>

lemma book_ok_install:
  assumes bk: "book_ok ids live (heap_bytes s) bl bs L" and L: "L q = None" "inv s (L(q \<mapsto> n))"
    and i: "i < ids" "0 < n" "n < 2 ^ 31"
  shows "book_ok ids (insert i live) (fill_bytes q (fill_byte i) n (heap_bytes s))
    (bl[i := w32 q]) (bs[i := w32 n]) (L(q \<mapsto> n))"
proof -
  let ?L = "L(q \<mapsto> n)" and ?m = "fill_bytes q (fill_byte i) n (heap_bytes s)"
  let ?bl = "bl[i := w32 q]" and ?bs = "bs[i := w32 n]"
  have Lq: "?L q = Some n" by simp
  note B = live_bounds [OF L(2) Lq]
  have len: "length bl = ids" "length bs = ids" and live: "live \<subseteq> {..<ids}"
    using bk by (simp_all add: book_ok_def)
  have same: "?L(q := None) = L" using L(1) by auto
  have keep: "keeps_live L (heap_bytes s) ?m"
    using memset_live(3) [OF L(2) Lq i(2), of "fill_byte i"] unfolding same .
  have other: "bl ! j \<noteq> w32 q" if "j \<in> live" for j
  proof
    assume e: "bl ! j = w32 q"
    from bk that have "entry_ok (heap_bytes s) L bl bs j" by (simp add: book_ok_def)
    then obtain r l where r: "bl ! j = w32 r" "L r = Some l" by (auto simp: entry_ok_def)
    then have "?L r = Some l" "r \<noteq> q" using L(1) by auto
    with live_bounds [OF L(2), of r l] B e r(1) w32_eq_iff [of q r] show False by auto
  qed
  have "entry_ok ?m ?L ?bl ?bs j" if "j \<in> insert i live" for j
  proof (cases "j = i")
    case True
    then show ?thesis using i len unfolding entry_ok_def
      by (intro exI [of _ q] exI [of _ n]) (auto simp: fill_bytes_def)
  next
    case False
    with that have j: "j \<in> live" by simp
    then have "entry_ok (heap_bytes s) L bl bs j" using bk by (simp add: book_ok_def)
    then show ?thesis
      by (rule entry_ok_keep [OF _ keep]) (use False other [OF j] in auto)
  qed
  moreover have "?bl ! j \<noteq> ?bl ! j'"
    if "j \<in> insert i live" "j' \<in> insert i live" "j \<noteq> j'" for j j'
    using that other [of j] other [of j'] bk i(1) unfolding book_ok_def
    by (cases "j = i"; cases "j' = i") auto
  ultimately show ?thesis using len live i(1) unfolding book_ok_def by auto
qed

lemma alloc_step_ok:
  assumes ok: "run_ok inv ids live v L"
    and op: "op_type op = ALLOC" "op_index op = int i" "op_size op = int n" "i < ids" "0 < n" "n < 2 ^ 31"
    and m: "mm_malloc pkg (w32 n) (machine v) = ok (w32 p, s')" "same_arena (machine v) s'" "L p = None"
      "inv s' (L(p \<mapsto> n))" "keeps_live L (heap_bytes (machine v)) (heap_bytes s')"
  shows "\<exists>v'. valid_step pkg oom t k op v = (if oom then fail (Exit 1) else ok (True, v'))
    \<and> run_ok inv ids (insert i live) v' (L(p \<mapsto> n)) \<and> same_arena (machine v) (machine v')
    \<and> mem_brk (machine v') = mem_brk s' \<and> rep v' = rep v"
proof -
  let ?L = "L(p \<mapsto> n)" and ?m = "fill_bytes p (fill_byte i) n (heap_bytes s')"
  let ?r = "\<lparr>range_lo = w32 p, range_hi = w32 (p + n - 1)\<rparr>"
  let ?v = "v\<lparr>machine := s'\<lparr>heap_bytes := ?m\<rparr>, ranges := ?r # ranges v,
    r_blocks := (r_blocks v)[i := w32 p], r_sizes := (r_sizes v)[i := w32 n]\<rparr>"
  have Lp: "?L p = Some n" by simp
  note B = live_bounds [OF m(4) Lp]
  have rs: "ranges_ok L (ranges v)"
    and bk: "book_ok ids live (heap_bytes (machine v)) (r_blocks v) (r_sizes v) L"
    using ok by (simp_all add: run_ok_def)
  have len: "length (r_blocks v) = ids" "length (r_sizes v) = ids" using bk by (simp_all add: book_ok_def)
  have sub: "L \<subseteq>\<^sub>m ?L" using m(3) by (auto simp: map_le_def)
  note ar = add_range_live [OF m(4) Lp op(5) rs m(3) sub]
  note ms = memset_live [OF m(4) Lp op(5), where c = "fill_byte i"]
  have step: "valid_step pkg oom t k op v = (if oom then fail (Exit 1) else ok (True, ?v))"
    using op B len m(1) ar(1) [of oom t k "rep v"] ms(1)
    by (simp add: valid_step_def word_of_int_w32 fill_byte_mask Let_def del: of_int_of_nat_eq)
  have "run_ok inv ids (insert i live) ?v ?L"
    using ms(2) ar(2) book_ok_install [OF book_ok_keep [OF bk m(5)] m(3,4) op(4-6)]
    by (simp add: run_ok_def del: fun_upd_apply)
  then show ?thesis using step m(2) by (intro exI [of _ ?v]) (simp add: same_arena_def)
qed

text \<open>\<open>FREE\<close> of a live index.\<close>

lemma ranges_ok_remove:
  assumes "inv s L" "L p = Some n" "ranges_ok L rs"
  shows "ranges_ok (L(p := None)) (remove_range (w32 p) rs)"
  unfolding ranges_ok_def
proof (intro conjI ballI)
  have d: "distinct (map range_lo rs)" using assms(3) by (simp add: ranges_ok_def)
  then show "distinct (map range_lo (remove_range (w32 p) rs))" by (rule remove_range_distinct)
  fix r assume "r \<in> set (remove_range (w32 p) rs)"
  then have r: "r \<in> set rs" "range_lo r \<noteq> w32 p" using remove_range_set [OF d] by auto
  then obtain q k where "L q = Some k" "0 < k" "range_lo r = w32 q" "range_hi r = w32 (q + k - 1)"
    using assms(3) by (auto simp: ranges_ok_def)
  then show "\<exists>q k. (L(p := None)) q = Some k \<and> 0 < k \<and> range_lo r = w32 q \<and> range_hi r = w32 (q + k - 1)"
    using r(2) by (intro exI [of _ q] exI [of _ k]) auto
qed

text \<open>What a live index stands for.\<close>

lemma live_entry:
  assumes ok: "run_ok inv ids live v L" and i: "i \<in> live"
  obtains p n where "r_blocks v ! i = w32 p" "r_sizes v ! i = w32 n" "L p = Some n" "0 < n" "n < 2 ^ 31"
    "i < ids" "\<forall>x. p \<le> x \<and> x < p + n \<longrightarrow> heap_bytes (machine v) x = fill_byte i"
    "length (r_blocks v) = ids" "length (r_sizes v) = ids"
proof -
  from ok i have "entry_ok (heap_bytes (machine v)) L (r_blocks v) (r_sizes v) i" "i < ids"
      "length (r_blocks v) = ids" "length (r_sizes v) = ids"
    by (auto simp: run_ok_def book_ok_def)
  then show thesis using that by (auto simp: entry_ok_def)
qed

lemma free_step_ok:
  assumes ok: "run_ok inv ids live v L"
    and op: "op_type op = FREE" "op_index op = int i" "i \<in> live"
  shows "\<exists>v' L'. valid_step pkg oom t k op v = ok (True, v')
    \<and> mm_free pkg (r_blocks v ! i) (machine v) = ok (machine v')
    \<and> run_ok inv ids (live - {i}) v' L' \<and> same_arena (machine v) (machine v') \<and> rep v' = rep v"
proof -
  from live_entry [OF ok op(3)] obtain p n where p: "r_blocks v ! i = w32 p" "L p = Some n" "i < ids"
      "length (r_blocks v) = ids" by metis
  have I: "inv (machine v) L" and rs: "ranges_ok L (ranges v)"
    and bk: "book_ok ids live (heap_bytes (machine v)) (r_blocks v) (r_sizes v) L"
    using ok by (simp_all add: run_ok_def)
  obtain s' where s': "mm_free pkg (w32 p) (machine v) = ok s'" "same_arena (machine v) s'"
      "inv s' (L(p := None))" "keeps_live (L(p := None)) (heap_bytes (machine v)) (heap_bytes s')"
    using free_ok [OF I p(2)] by blast
  let ?v = "v\<lparr>machine := s', ranges := remove_range (w32 p) (ranges v)\<rparr>"
  have "valid_step pkg oom t k op v = ok (True, ?v)"
    using op p(1,3,4) s'(1) by (simp add: valid_step_def Let_def)
  moreover have "run_ok inv ids (live - {i}) ?v (L(p := None))"
    using s'(3) ranges_ok_remove [OF I p(2) rs] book_ok_keep [OF book_ok_drop [OF bk op(3) p(1)] s'(4)]
    by (simp add: run_ok_def del: fun_upd_apply)
  ultimately show ?thesis using s'(1,2) p(1)
    by (intro exI [of _ ?v] exI [of _ "L(p := None)"]) simp
qed

text \<open>\<open>REALLOC\<close> of a live index whose low byte is below 128.\<close>

text \<open>The data check accepts the bytes that \<open>mm_realloc\<close> carried over.\<close>

lemma check_data_moved:
  assumes "i mod 256 < 128" "inv s' L'" "L' q = Some n" "0 < n"
    and "\<forall>x. p \<le> x \<and> x < p + k \<longrightarrow> m x = fill_byte i"
    and "\<forall>x < min k n. heap_bytes s' (q + x) = m (p + x)"
  shows "check_data (w32 q) (take_bit 8 (int i)) 0 (min k n) s' = ok True"
proof (rule check_data_ok [OF assms(1)])
  show "\<forall>x. q + 0 \<le> x \<and> x < q + 0 + min k n \<longrightarrow> heap_bytes s' x = fill_byte i"
  proof (intro allI impI)
    fix x assume x: "q + 0 \<le> x \<and> x < q + 0 + min k n"
    then obtain d where "x = q + d" "d < min k n" by (metis add_0_right le_Suc_ex nat_add_left_cancel_less)
    then show "heap_bytes s' x = fill_byte i" using assms(5,6) by simp
  qed
qed (use live_bounds [OF assms(2,3)] in auto)

lemma realloc_step_ok:
  assumes ok: "run_ok inv ids live v L"
    and op: "op_type op = REALLOC" "op_index op = int i" "op_size op = int n" "i \<in> live"
      "i mod 256 < 128" "0 < n" "n < 2 ^ 31"
    and p: "r_blocks v ! i = w32 p" "r_sizes v ! i = w32 k" "L p = Some k" "k < 2 ^ 31"
      "\<forall>x. p \<le> x \<and> x < p + k \<longrightarrow> heap_bytes (machine v) x = fill_byte i"
    and m: "mm_realloc pkg (w32 p) (w32 n) (machine v) = ok (w32 q, s')" "same_arena (machine v) s'"
      "(L(p := None)) q = None" "inv s' ((L(p := None))(q \<mapsto> n))"
      "keeps_live (L(p := None)) (heap_bytes (machine v)) (heap_bytes s')"
      "\<forall>x < min k n. heap_bytes s' (q + x) = heap_bytes (machine v) (p + x)"
  shows "\<exists>v'. valid_step pkg oom t r op v = (if oom then fail (Exit 1) else ok (True, v'))
    \<and> run_ok inv ids live v' ((L(p := None))(q \<mapsto> n)) \<and> same_arena (machine v) (machine v')
    \<and> mem_brk (machine v') = mem_brk s' \<and> rep v' = rep v"
proof -
  let ?M = "L(p := None)"
  let ?L = "?M(q \<mapsto> n)" and ?m = "fill_bytes q (fill_byte i) n (heap_bytes s')"
  let ?r = "\<lparr>range_lo = w32 q, range_hi = w32 (q + n - 1)\<rparr>"
  let ?v = "v\<lparr>machine := s'\<lparr>heap_bytes := ?m\<rparr>, ranges := ?r # remove_range (w32 p) (ranges v),
    r_blocks := (r_blocks v)[i := w32 q], r_sizes := (r_sizes v)[i := w32 n]\<rparr>"
  have Lq: "?L q = Some n" by simp
  note B = live_bounds [OF m(4) Lq]
  have I: "inv (machine v) L"
    and bk: "book_ok ids live (heap_bytes (machine v)) (r_blocks v) (r_sizes v) L"
    and rs0: "ranges_ok L (ranges v)"
    using ok by (simp_all add: run_ok_def)
  have len: "length (r_blocks v) = ids" "length (r_sizes v) = ids" "i < ids"
    using bk op(4) by (auto simp: book_ok_def)
  note rs = ranges_ok_remove [OF I p(3) rs0]
  have sub: "?M \<subseteq>\<^sub>m ?L" using m(3) by (auto simp: map_le_def)
  note ar = add_range_live [OF m(4) Lq op(6) rs m(3) sub]
  note ms = memset_live [OF m(4) Lq op(6), where c = "fill_byte i"]
  have sk: "sint (w32 k) = int k" using p(4) by (rule sint_w32)
  note chk = check_data_moved [OF op(5) m(4) Lq op(6) p(5) m(6)]
  have chk1: "n < k \<Longrightarrow> check_data (w32 q) (take_bit 8 (int i)) 0 n s' = ok True"
    and chk2: "\<not> n < k \<Longrightarrow> check_data (w32 q) (take_bit 8 (int i)) 0 k s' = ok True"
    using chk by (simp_all add: min_def split: if_splits)
  have step: "valid_step pkg oom t r op v = (if oom then fail (Exit 1) else ok (True, ?v))"
    using op(1-3) p(1,2) B len m(1) ar(1) [of oom t r "rep v"] ms(1) chk1 chk2
    by (simp add: valid_step_def word_of_int_w32 fill_byte_mask Let_def sk del: of_int_of_nat_eq)
  have "book_ok ids (insert i (live - {i})) ?m (r_blocks ?v) (r_sizes ?v) ?L"
    using book_ok_install [OF book_ok_keep [OF book_ok_drop [OF bk op(4) p(1)] m(5)] m(3,4) len(3) op(6,7)]
    by simp
  then have "run_ok inv ids live ?v ?L"
    using ms(2) ar(2) op(4) by (simp add: run_ok_def insert_absorb del: fun_upd_apply)
  then show ?thesis using step m(2) by (intro exI [of _ ?v]) (simp add: same_arena_def)
qed

text \<open>
  The same request for an index whose low byte is 128 or more: the data check rejects the payload,
  although every byte of it was carried over.
\<close>

lemma realloc_step_signed:
  assumes ok: "run_ok inv ids live v L"
    and op: "op_type op = REALLOC" "op_index op = int i" "op_size op = int n" "i \<in> live"
      "128 \<le> i mod 256" "0 < n" "n < 2 ^ 31"
    and p: "r_blocks v ! i = w32 p" "r_sizes v ! i = w32 k" "L p = Some k" "0 < k" "k < 2 ^ 31"
      "\<forall>x. p \<le> x \<and> x < p + k \<longrightarrow> heap_bytes (machine v) x = fill_byte i"
    and m: "mm_realloc pkg (w32 p) (w32 n) (machine v) = ok (w32 q, s')"
      "(L(p := None)) q = None" "inv s' ((L(p := None))(q \<mapsto> n))"
      "\<forall>x < min k n. heap_bytes s' (q + x) = heap_bytes (machine v) (p + x)"
  shows "\<exists>v'. valid_step pkg oom t r op v = (if oom then fail (Exit 1) else ok (False, v'))
    \<and> machine v' = s' \<and> rep v' = malloc_error t r Data_lost (rep v)"
proof -
  let ?M = "L(p := None)"
  let ?L = "?M(q \<mapsto> n)"
  let ?r = "\<lparr>range_lo = w32 q, range_hi = w32 (q + n - 1)\<rparr>"
  let ?v = "v\<lparr>machine := s', ranges := ?r # remove_range (w32 p) (ranges v), rep := malloc_error t r Data_lost (rep v)\<rparr>"
  have Lq: "?L q = Some n" by simp
  note B = live_bounds [OF m(3) Lq]
  have I: "inv (machine v) L"
    and bk: "book_ok ids live (heap_bytes (machine v)) (r_blocks v) (r_sizes v) L"
    and rs0: "ranges_ok L (ranges v)"
    using ok by (simp_all add: run_ok_def)
  have len: "length (r_blocks v) = ids" "length (r_sizes v) = ids" "i < ids"
    using bk op(4) by (auto simp: book_ok_def)
  have sub: "?M \<subseteq>\<^sub>m ?L" using m(2) by (auto simp: map_le_def)
  note ar = add_range_live [OF m(3) Lq op(6) ranges_ok_remove [OF I p(3) rs0] m(2) sub]
  have sk: "sint (w32 k) = int k" using p(5) by (rule sint_w32)
  have bytes: "\<forall>x. q \<le> x \<and> x < q + min k n \<longrightarrow> heap_bytes s' x = fill_byte i"
  proof (intro allI impI)
    fix x assume x: "q \<le> x \<and> x < q + min k n"
    then obtain d where "x = q + d" "d < min k n" by (metis le_Suc_ex nat_add_left_cancel_less)
    then show "heap_bytes s' x = fill_byte i" using p(6) m(4) by simp
  qed
  have "in_arena s' q (min k n)" using B by (simp add: in_arena_def)
  from check_data_signed [OF op(5) this _ bytes] p(4) op(6)
  have chk1: "n < k \<Longrightarrow> check_data (w32 q) (take_bit 8 (int i)) 0 n s' = ok False"
    and chk2: "\<not> n < k \<Longrightarrow> check_data (w32 q) (take_bit 8 (int i)) 0 k s' = ok False"
    by (simp_all add: min_def split: if_splits)
  have "valid_step pkg oom t r op v = (if oom then fail (Exit 1) else ok (False, ?v))"
    using op(1-3) p(1,2) B len m(1) ar(1) [of oom t r "rep v"] chk1 chk2
    by (simp add: valid_step_def word_of_int_w32 Let_def sk del: of_int_of_nat_eq)
  then show ?thesis by (intro exI [of _ ?v]) simp
qed

lemma realloc_step_exit:
  assumes "op_type op = REALLOC" "op_index op = int i" "op_size op = int n"
    "i < length (r_blocks v)" "mm_realloc pkg (r_blocks v ! i) (w32 n) (machine v) = fail e"
  shows "valid_step pkg oom t k op v = fail e"
  using assms by (simp add: valid_step_def word_of_int_w32 Let_def del: of_int_of_nat_eq)

end

section \<open>The whole check\<close>

text \<open>A run of the loop over requests that all pass, and then over more of them.\<close>

lemma valid_loop_append:
  "valid_loop pkg oom t k xs v = ok (1, w) \<Longrightarrow>
   valid_loop pkg oom t k (xs @ ys) v = valid_loop pkg oom t (k + length xs) ys w"
  by (induction xs arbitrary: k v) (auto elim!: bnd_eq_okE split: if_splits)

text \<open>
  The three ways the loop ends: the driver was refused memory and exited (its own range node,
  or inside \<open>mm_realloc\<close>), every request passed, or an allocation was refused and reported.
\<close>

definition valid_outcome :: "int \<Rightarrow> report \<Rightarrow> (int \<times> 'm run) res \<Rightarrow> bool" where
  "valid_outcome t d r \<longleftrightarrow> r = fail (Exit 1)
     \<or> (\<exists>v. r = ok (1, v) \<and> rep v = d)
     \<or> (\<exists>v k. r = ok (0, v) \<and> rep v = malloc_error t k Malloc_failed d)"

context allocator
begin

text \<open>One request of a well-formed trace, whatever its kind.\<close>

lemma valid_step_ok:
  assumes ok: "run_ok inv ids live v L" and wf: "wf_ops ids B live (op # rest)"
    and B: "B < 2 ^ 31" "no_wrap (machine v) B"
  shows "valid_step pkg oom t k op v = fail (Exit 1)
    \<or> (\<exists>s'. valid_step pkg oom t k op v
        = ok (False, v\<lparr>machine := s', rep := malloc_error t k Malloc_failed (rep v)\<rparr>))
    \<or> (\<exists>v' L' live'. valid_step pkg oom t k op v = ok (True, v') \<and> run_ok inv ids live' v' L'
        \<and> wf_ops ids B live' rest \<and> same_arena (machine v) (machine v') \<and> rep v' = rep v)"
proof -
  have I: "inv (machine v) L" using ok by (simp add: run_ok_def)
  have small: "n < 2 ^ 31" "no_wrap (machine v) n" if "n \<le> B" for n using that B by (auto simp: no_wrap_def)
  from wf show ?thesis
  proof (cases rule: wf_ops_ConsE)
    case (ALLOC i n)
    from malloc_ok [OF I ALLOC(5) small(2) [OF ALLOC(6)]] show ?thesis
    proof (elim disjE exE conjE)
      assume "mm_malloc pkg (w32 n) (machine v) = ok (0, machine v)"
      from alloc_step_fail [OF ALLOC(1,3) this] show ?thesis by blast
    next
      fix p s' assume "mm_malloc pkg (w32 n) (machine v) = ok (w32 p, s')" "same_arena (machine v) s'" "L p = None"
        "inv s' (L(p \<mapsto> n))" "keeps_live L (heap_bytes (machine v)) (heap_bytes s')"
      from alloc_step_ok [OF ok ALLOC(1-5) small(1) [OF ALLOC(6)] this, of oom t k] ALLOC(7) show ?thesis
        by (cases oom) auto
    qed
  next
    case (FREE i)
    with free_step_ok [OF ok FREE(1-3), of oom t k] show ?thesis by auto
  next
    case (REALLOC i n)
    obtain p l where p: "r_blocks v ! i = w32 p" "r_sizes v ! i = w32 l" "L p = Some l" "l < 2 ^ 31"
        "\<forall>x. p \<le> x \<and> x < p + l \<longrightarrow> heap_bytes (machine v) x = fill_byte i" "i < length (r_blocks v)"
      using live_entry [OF ok REALLOC(4)] by metis
    from realloc_ok [OF I p(3) REALLOC(6) small(2) [OF REALLOC(7)]] show ?thesis
    proof (elim disjE exE conjE)
      assume "mm_realloc pkg (w32 p) (w32 n) (machine v) = fail (Exit 1)"
      then show ?thesis using realloc_step_exit [OF REALLOC(1-3) p(6)] p(1) by simp
    next
      fix q s' assume "mm_realloc pkg (w32 p) (w32 n) (machine v) = ok (w32 q, s')" "same_arena (machine v) s'"
        "(L(p := None)) q = None" "inv s' ((L(p := None))(q \<mapsto> n))"
        "keeps_live (L(p := None)) (heap_bytes (machine v)) (heap_bytes s')"
        "\<forall>x < min l n. heap_bytes s' (q + x) = heap_bytes (machine v) (p + x)"
      from realloc_step_ok [OF ok REALLOC(1-6) small(1) [OF REALLOC(7)] p(1-5) this, of oom t k] REALLOC(8)
      show ?thesis by (cases oom) auto
    qed
  qed
qed

lemma valid_loop_outcome:
  assumes "run_ok inv ids live v L" "wf_ops ids B live xs" "B < 2 ^ 31" "no_wrap (machine v) B"
  shows "valid_outcome t (rep v) (valid_loop pkg oom t k xs v)"
  using assms
proof (induction xs arbitrary: live v L k)
  case Nil
  then show ?case by (simp add: valid_outcome_def)
next
  case (Cons op xs)
  from valid_step_ok [OF Cons.prems, of "oom k" t "int k"] show ?case
  proof (elim disjE exE conjE)
    fix v' L' live' assume *: "valid_step pkg (oom k) t (int k) op v = ok (True, v')"
      "run_ok inv ids live' v' L'" "wf_ops ids B live' xs" "same_arena (machine v) (machine v')" "rep v' = rep v"
    then have "no_wrap (machine v') B" using Cons.prems(4) by (simp add: no_wrap_def same_arena_def)
    from Cons.IH [OF *(2,3) Cons.prems(3) this, of "Suc k"] show ?case using *(1,5) by simp
  qed (auto simp: valid_outcome_def)
qed

text \<open>The whole check, from an empty heap.\<close>

lemma eval_mm_valid_outcome:
  assumes a: "arena_ok s" "B < 2 ^ 31" "no_wrap s B" "wf_ops ids B {} (ops tr)"
    "length (blocks tr) = ids" "length (block_sizes tr) = ids"
  shows "valid_outcome t d (eval_mm_valid pkg oom tr t rs d s)"
proof -
  let ?s = "mem_reset_brk s"
  have s: "arena_ok ?s" "mem_brk ?s = mem_start_brk ?s" using a(1) by (simp_all add: mem_reset_brk_def arena_ok_def)
  obtain s' where s': "mm_init pkg ?s = ok (0, s')" "same_arena ?s s'" "inv s' Map.empty"
    using init_ok [OF s] by blast
  let ?v = "\<lparr>machine = s', ranges = [], r_blocks = blocks tr, r_sizes = block_sizes tr, rep = d\<rparr>"
  have "run_ok inv ids {} ?v Map.empty"
    using s'(3) a(5,6) by (simp add: run_ok_def book_ok_def ranges_ok_def)
  moreover have "no_wrap (machine ?v) B" using a(3) s'(2) by (simp add: no_wrap_def same_arena_def mem_reset_brk_def)
  ultimately have "valid_outcome t (rep ?v) (valid_loop pkg oom t 0 (ops tr) ?v)"
    using valid_loop_outcome a(2,4) by blast
  then show ?thesis using s'(1) by (simp add: eval_mm_valid_def Let_def clear_ranges_def)
qed

end

end
