(* ===== verification/Driver_Room.thy ===== *)
theory Driver_Room
  imports Driver_Correct
begin

text \<open>
  A package that also bounds how far a request moves the break: when the arena has room for
  all the requests of a trace, every run of the driver over it succeeds.
\<close>

section \<open>Growth of a trace\<close>

text \<open>The bytes a trace may add to the heap.\<close>

definition op_growth :: "(nat \<Rightarrow> nat) \<Rightarrow> traceop \<Rightarrow> nat" where
  "op_growth grow op = (if op_type op = FREE then 0 else grow (nat (op_size op)))"

definition growth :: "(nat \<Rightarrow> nat) \<Rightarrow> traceop list \<Rightarrow> nat" where
  "growth grow xs = sum_list (map (op_growth grow) xs)"

lemma growth_simps [simp]:
  "growth grow [] = 0" "growth grow (op # xs) = op_growth grow op + growth grow xs"
  by (simp_all add: growth_def)

context growing_allocator
begin

text \<open>One request, given room.\<close>

text \<open>A step after which there is room for the rest of the trace.\<close>

definition step_room :: "nat \<Rightarrow> nat \<Rightarrow> traceop list \<Rightarrow> int \<Rightarrow> int \<Rightarrow> traceop \<Rightarrow> 'a mem_scheme run \<Rightarrow> bool" where
  "step_room ids B rest t k op v \<longleftrightarrow> (\<exists>v' L' live'. valid_step pkg False t k op v = ok (True, v') \<and> run_ok inv ids live' v' L'
    \<and> wf_ops ids B live' rest \<and> same_arena (machine v) (machine v') \<and> rep v' = rep v
    \<and> brk_of (machine v') + growth grow rest \<le> top_of (machine v'))"

lemma step_roomI:
  assumes "valid_step pkg False t k op v = ok (True, v')" "run_ok inv ids live' v' L'" "wf_ops ids B live' rest"
    "same_arena (machine v) (machine v')" "rep v' = rep v"
    and "brk_of (machine v') + growth grow rest \<le> brk_of (machine v) + growth grow (op # rest)"
    and "brk_of (machine v) + growth grow (op # rest) \<le> top_of (machine v)"
  shows "step_room ids B rest t k op v"
  using assms unfolding step_room_def by (intro exI [of _ v'] exI [of _ L'] exI [of _ live']) (simp add: same_arena_def)

lemma alloc_step_room:
  assumes ok: "run_ok inv ids live v L" and op: "op_type op = ALLOC" "op_index op = int i" "i < ids"
    and n: "op_size op = int n" "0 < n" "n < 2 ^ 31" "no_wrap (machine v) n" and w: "wf_ops ids B (insert i live) rest"
    and room: "brk_of (machine v) + growth grow (op # rest) \<le> top_of (machine v)"
  shows "step_room ids B rest t k op v"
proof -
  have I: "inv (machine v) L" using ok by (simp add: run_ok_def)
  have g: "growth grow (op # rest) = grow n + growth grow rest" using op(1) n(1) by (simp add: op_growth_def)
  then have "brk_of (machine v) + grow n \<le> top_of (machine v)" using room by simp
  then obtain p s' where m: "mm_malloc pkg (w32 n) (machine v) = ok (w32 p, s')" "same_arena (machine v) s'"
      "L p = None" "inv s' (L(p \<mapsto> n))" "keeps_live L (heap_bytes (machine v)) (heap_bytes s')"
      and b: "brk_of s' \<le> brk_of (machine v) + grow n"
    using malloc_grows [OF I n(2,4)] by metis
  obtain v' where v': "valid_step pkg False t k op v = ok (True, v')" "run_ok inv ids (insert i live) v' (L(p \<mapsto> n))"
      "same_arena (machine v) (machine v')" "mem_brk (machine v') = mem_brk s'" "rep v' = rep v"
    using alloc_step_ok [OF ok op(1,2) n(1) op(3) n(2,3) m, of False t k] by auto
  show ?thesis by (rule step_roomI [OF v'(1,2) w v'(3,5) _ room]) (use v'(4) b g in simp)
qed

lemma free_step_room:
  assumes ok: "run_ok inv ids live v L" and op: "op_type op = FREE" "op_index op = int i" "i \<in> live"
    and w: "wf_ops ids B (live - {i}) rest"
    and room: "brk_of (machine v) + growth grow (op # rest) \<le> top_of (machine v)"
  shows "step_room ids B rest t k op v"
proof -
  have I: "inv (machine v) L" using ok by (simp add: run_ok_def)
  obtain v' L' where v': "valid_step pkg False t k op v = ok (True, v')"
      "mm_free pkg (r_blocks v ! i) (machine v) = ok (machine v')"
      "run_ok inv ids (live - {i}) v' L'" "same_arena (machine v) (machine v')" "rep v' = rep v"
    using free_step_ok [OF ok op, of False t k] by blast
  obtain p n where "r_blocks v ! i = w32 p" "L p = Some n" using live_entry [OF ok op(3)] by metis
  then have "brk_of (machine v') = brk_of (machine v)" using free_brk [OF I] v'(2) by simp
  then show ?thesis
    by (intro step_roomI [OF v'(1,3) w v'(4,5) _ room]) (simp add: op_growth_def op(1))
qed

lemma realloc_step_room:
  assumes ok: "run_ok inv ids live v L" and op: "op_type op = REALLOC" "op_index op = int i" "i \<in> live" "i mod 256 < 128"
    and n: "op_size op = int n" "0 < n" "n < 2 ^ 31" "no_wrap (machine v) n" and w: "wf_ops ids B live rest"
    and room: "brk_of (machine v) + growth grow (op # rest) \<le> top_of (machine v)"
  shows "step_room ids B rest t k op v"
proof -
  have I: "inv (machine v) L" using ok by (simp add: run_ok_def)
  have g: "growth grow (op # rest) = grow n + growth grow rest" using op(1) n(1) by (simp add: op_growth_def)
  then have rm: "brk_of (machine v) + grow n \<le> top_of (machine v)" using room by simp
  obtain p l where p: "r_blocks v ! i = w32 p" "r_sizes v ! i = w32 l" "L p = Some l" "l < 2 ^ 31"
      "\<forall>x. p \<le> x \<and> x < p + l \<longrightarrow> heap_bytes (machine v) x = fill_byte i"
    using live_entry [OF ok op(3)] by metis
  obtain q s' where m: "mm_realloc pkg (w32 p) (w32 n) (machine v) = ok (w32 q, s')" "same_arena (machine v) s'"
      "(L(p := None)) q = None" "inv s' ((L(p := None))(q \<mapsto> n))"
      "keeps_live (L(p := None)) (heap_bytes (machine v)) (heap_bytes s')"
      "\<forall>x < min l n. heap_bytes s' (q + x) = heap_bytes (machine v) (p + x)"
    and b: "brk_of s' \<le> brk_of (machine v) + grow n"
    using realloc_grows [OF I p(3) n(2,4) rm] by metis
  obtain v' where v': "valid_step pkg False t k op v = ok (True, v')"
      "run_ok inv ids live v' ((L(p := None))(q \<mapsto> n))"
      "same_arena (machine v) (machine v')" "mem_brk (machine v') = mem_brk s'" "rep v' = rep v"
    using realloc_step_ok [OF ok op(1,2) n(1) op(3,4) n(2,3) p m, of False t k] by auto
  show ?thesis by (rule step_roomI [OF v'(1,2) w v'(3,5) _ room]) (use v'(4) b g in simp)
qed

lemma valid_step_room:
  assumes ok: "run_ok inv ids live v L" and wf: "wf_ops ids B live (op # rest)"
    and B: "B < 2 ^ 31" "no_wrap (machine v) B"
    and room: "brk_of (machine v) + growth grow (op # rest) \<le> top_of (machine v)"
  shows "step_room ids B rest t k op v"
proof -
  have small: "n < 2 ^ 31" "no_wrap (machine v) n" if "n \<le> B" for n using that B by (auto simp: no_wrap_def)
  from wf show ?thesis
  proof (cases rule: wf_ops_ConsE)
    case (ALLOC i n)
    show ?thesis by (rule alloc_step_room [OF ok ALLOC(1,2,4,3,5) small [OF ALLOC(6)] ALLOC(7) room])
  next
    case (FREE i)
    show ?thesis by (rule free_step_room [OF ok FREE room])
  next
    case (REALLOC i n)
    show ?thesis by (rule realloc_step_room [OF ok REALLOC(1,2,4,5,3,6) small [OF REALLOC(7)] REALLOC(8) room])
  qed
qed

text \<open>Requests that pass, with what is left of the trace still well-formed and still fitting.\<close>

lemma valid_loop_prefix:
  assumes "run_ok inv ids live v L" "wf_ops ids B live (xs @ zs)" "B < 2 ^ 31" "no_wrap (machine v) B"
    "brk_of (machine v) + growth grow (xs @ zs) \<le> top_of (machine v)"
  shows "\<exists>v' live' L'. valid_loop pkg (\<lambda>_. False) t k xs v = ok (1, v') \<and> rep v' = rep v
    \<and> run_ok inv ids live' v' L' \<and> same_arena (machine v) (machine v')
    \<and> wf_ops ids B live' zs \<and> brk_of (machine v') + growth grow zs \<le> top_of (machine v')"
  using assms
proof (induction xs arbitrary: live v L k)
  case Nil
  then show ?case by (auto simp: same_arena_def)
next
  case (Cons op xs)
  have c: "wf_ops ids B live (op # xs @ zs)" "brk_of (machine v) + growth grow (op # xs @ zs) \<le> top_of (machine v)"
    using Cons.prems(2,5) by simp_all
  obtain v' L' live' where *: "valid_step pkg False t (int k) op v = ok (True, v')"
      "run_ok inv ids live' v' L'" "wf_ops ids B live' (xs @ zs)" "same_arena (machine v) (machine v')" "rep v' = rep v"
      "brk_of (machine v') + growth grow (xs @ zs) \<le> top_of (machine v')"
    using valid_step_room [OF Cons.prems(1) c(1) Cons.prems(3,4) c(2), of t "int k"] unfolding step_room_def by blast
  then have "no_wrap (machine v') B" using Cons.prems(4) by (simp add: no_wrap_def same_arena_def)
  from Cons.IH [OF *(2,3) Cons.prems(3) this *(6), of "Suc k"]
  obtain w live'' L'' where w: "valid_loop pkg (\<lambda>_. False) t (Suc k) xs v' = ok (1, w)" "rep w = rep v'"
      "run_ok inv ids live'' w L''" "same_arena (machine v') (machine w)"
      "wf_ops ids B live'' zs" "brk_of (machine w) + growth grow zs \<le> top_of (machine w)" by blast
  then have "same_arena (machine v) (machine w)" using *(4) by (simp add: same_arena_def)
  then show ?case using w *(1,5) by auto
qed

lemma valid_loop_room:
  assumes "run_ok inv ids live v L" "wf_ops ids B live xs" "B < 2 ^ 31" "no_wrap (machine v) B"
    "brk_of (machine v) + growth grow xs \<le> top_of (machine v)"
  shows "\<exists>v' live' L'. valid_loop pkg (\<lambda>_. False) t k xs v = ok (1, v') \<and> rep v' = rep v
    \<and> run_ok inv ids live' v' L' \<and> same_arena (machine v) (machine v')"
  using valid_loop_prefix [of ids live v L B xs "[]" t k] assms by auto

text \<open>The start of a run.\<close>

lemma valid_start:
  assumes a: "arena_ok s" "no_wrap s B" "length (blocks tr) = ids" "length (block_sizes tr) = ids"
    and room: "start_of s + fresh + g \<le> top_of s"
  obtains v where "\<And>xs. eval_mm_valid pkg oom (tr\<lparr>ops := xs\<rparr>) t rs d s = valid_loop pkg oom t 0 xs v"
    "run_ok inv ids {} v Map.empty" "no_wrap (machine v) B" "same_arena s (machine v)" "rep v = d"
    "brk_of (machine v) + g \<le> top_of (machine v)"
proof -
  let ?s = "mem_reset_brk s"
  have s: "arena_ok ?s" "mem_brk ?s = mem_start_brk ?s" using a(1) by (simp_all add: mem_reset_brk_def arena_ok_def)
  obtain s' where s': "mm_init pkg ?s = ok (0, s')" "same_arena ?s s'" "inv s' Map.empty"
    using init_ok [OF s] by blast
  let ?v = "\<lparr>machine = s', ranges = [], r_blocks = blocks tr, r_sizes = block_sizes tr, rep = d\<rparr>"
  show thesis
  proof (rule that [of ?v])
    show "run_ok inv ids {} ?v Map.empty"
      using s'(3) a(3,4) by (simp add: run_ok_def book_ok_def ranges_ok_def)
    show "no_wrap (machine ?v) B" "same_arena s (machine ?v)"
      using a(2) s'(2) by (simp_all add: no_wrap_def same_arena_def mem_reset_brk_def)
    show "brk_of (machine ?v) + g \<le> top_of (machine ?v)"
      using init_brk [OF s s'(1)] room s'(2) by (simp add: same_arena_def mem_reset_brk_def)
  qed (simp_all add: eval_mm_valid_def Let_def clear_ranges_def s'(1))
qed

lemma eval_mm_valid_room:
  assumes a: "arena_ok s" "B < 2 ^ 31" "no_wrap s B" "wf_ops ids B {} (ops tr)"
    "length (blocks tr) = ids" "length (block_sizes tr) = ids"
    and room: "start_of s + fresh + growth grow (ops tr) \<le> top_of s"
  shows "\<exists>v. eval_mm_valid pkg (\<lambda>_. False) tr t rs d s = ok (1, v) \<and> rep v = d
    \<and> arena_ok (machine v) \<and> same_arena s (machine v) \<and> length (r_blocks v) = ids \<and> length (r_sizes v) = ids"
proof -
  obtain v where v: "\<And>xs. eval_mm_valid pkg (\<lambda>_. False) (tr\<lparr>ops := xs\<rparr>) t rs d s = valid_loop pkg (\<lambda>_. False) t 0 xs v"
    "run_ok inv ids {} v Map.empty" "no_wrap (machine v) B" "same_arena s (machine v)" "rep v = d"
    "brk_of (machine v) + growth grow (ops tr) \<le> top_of (machine v)"
    using valid_start [OF a(1,3,5,6) room] by metis
  obtain v' live L where v': "valid_loop pkg (\<lambda>_. False) t 0 (ops tr) v = ok (1, v')" "rep v' = rep v"
      "run_ok inv ids live v' L" "same_arena (machine v) (machine v')"
    using valid_loop_room [OF v(2) a(4,2) v(3,6)] by blast
  have "arena_ok (machine v')" "length (r_blocks v') = ids" "length (r_sizes v') = ids"
    using v'(3) inv_arena by (auto simp: run_ok_def book_ok_def)
  moreover have "same_arena s (machine v')" using v(4) v'(4) by (simp add: same_arena_def)
  ultimately show ?thesis using v(1) [of "ops tr"] v(5) v'(1,2) by auto
qed

text \<open>
  A trace that would pass if one \<open>REALLOC\<close> in it were a \<open>FREE\<close> and an \<open>ALLOC\<close>; but the low byte of
  the index is 128 or more.
\<close>

lemma eval_mm_valid_signed:
  assumes a: "arena_ok s" "B < 2 ^ 31" "no_wrap s B" "length (blocks tr) = ids" "length (block_sizes tr) = ids"
    and tr: "ops tr = xs @ op # ys" "op_type op = REALLOC" "128 \<le> op_index op mod 256"
    and wf: "wf_ops ids B {} (xs @ [op\<lparr>op_type := FREE\<rparr>, op\<lparr>op_type := ALLOC\<rparr>])"
    and room: "start_of s + fresh + growth grow (xs @ [op]) \<le> top_of s"
    and i: "i = nat (op_index op)" and n: "n = nat (op_size op)"
  shows "\<exists>w v q. eval_mm_valid pkg (\<lambda>_. False) (tr\<lparr>ops := xs\<rparr>) t rs d s = ok (1, w) \<and> rep w = d
    \<and> mm_realloc pkg (r_blocks w ! i) (w32 n) (machine w) = ok (q, machine v)
    \<and> (\<forall>x < min (unat (r_sizes w ! i)) n. heap_bytes (machine v) (unat q + x) = heap_bytes (machine w) (unat (r_blocks w ! i) + x))
    \<and> eval_mm_valid pkg (\<lambda>_. False) tr t rs d s = ok (0, v) \<and> rep v = malloc_error t (int (length xs)) Data_lost d"
proof -
  let ?zs = "[op\<lparr>op_type := FREE\<rparr>, op\<lparr>op_type := ALLOC\<rparr>]"
  have g: "growth grow (xs @ ?zs) = growth grow (xs @ [op])" "growth grow ?zs = grow n"
    using tr(2) n by (simp_all add: growth_def op_growth_def)
  obtain v0 where v0: "\<And>xs. eval_mm_valid pkg (\<lambda>_. False) (tr\<lparr>ops := xs\<rparr>) t rs d s = valid_loop pkg (\<lambda>_. False) t 0 xs v0"
    "run_ok inv ids {} v0 Map.empty" "no_wrap (machine v0) B" "same_arena s (machine v0)" "rep v0 = d"
    "brk_of (machine v0) + growth grow (xs @ ?zs) \<le> top_of (machine v0)"
    using valid_start [OF a(1,3,4,5), of "growth grow (xs @ ?zs)"] room unfolding g(1) by metis
  obtain w live L where w: "valid_loop pkg (\<lambda>_. False) t 0 xs v0 = ok (1, w)" "rep w = rep v0"
      "run_ok inv ids live w L" "same_arena (machine v0) (machine w)" "wf_ops ids B live ?zs"
      "brk_of (machine w) + growth grow ?zs \<le> top_of (machine w)"
    using valid_loop_prefix [OF v0(2) wf a(2) v0(3,6)] by blast
  have op: "op_index op = int i" "op_size op = int n" "i \<in> live" "0 < n" "n \<le> B"
    using w(5) i n by (auto simp: Let_def)
  have "int (i mod 256) = op_index op mod 256" using op(1) by (simp add: zmod_int)
  then have low: "128 \<le> i mod 256" using tr(3) by linarith
  have nB: "n < 2 ^ 31" "no_wrap (machine w) n"
    using op(5) a(2) v0(3) w(4) by (auto simp: no_wrap_def same_arena_def)
  obtain p k where p: "r_blocks w ! i = w32 p" "r_sizes w ! i = w32 k" "L p = Some k" "0 < k" "k < 2 ^ 31"
      "\<forall>x. p \<le> x \<and> x < p + k \<longrightarrow> heap_bytes (machine w) x = fill_byte i"
    using live_entry [OF w(3) op(3)] by metis
  have I: "inv (machine w) L" using w(3) by (simp add: run_ok_def)
  obtain q s' where m: "mm_realloc pkg (w32 p) (w32 n) (machine w) = ok (w32 q, s')"
      "(L(p := None)) q = None" "inv s' ((L(p := None))(q \<mapsto> n))"
      "\<forall>x < min k n. heap_bytes s' (q + x) = heap_bytes (machine w) (p + x)"
    using realloc_grows [OF I p(3) op(4) nB(2)] w(6) unfolding g(2) by metis
  obtain v where v: "valid_step pkg False t (int (length xs)) op w = ok (False, v)" "machine v = s'"
      "rep v = malloc_error t (int (length xs)) Data_lost (rep w)"
    using realloc_step_signed [OF w(3) tr(2) op(1-3) low op(4) nB(1) p m, of False t "int (length xs)"] by auto
  have "eval_mm_valid pkg (\<lambda>_. False) tr t rs d s = valid_loop pkg (\<lambda>_. False) t 0 (ops tr) v0"
    using v0(1) [of "ops tr"] by simp
  then have "eval_mm_valid pkg (\<lambda>_. False) tr t rs d s = valid_loop pkg (\<lambda>_. False) t 0 (xs @ op # ys) v0"
    by (simp only: tr(1))
  then have "eval_mm_valid pkg (\<lambda>_. False) tr t rs d s = ok (0, v)"
    using valid_loop_append [OF w(1)] v(1) by simp
  moreover have "p < 4294967296" "q < 4294967296" "k < 4294967296"
    using live_bounds [OF I p(3)] live_bounds [OF m(3), of q n] p(5) by auto
  then have "unat (w32 p) = p" "unat (w32 q) = q" "unat (w32 k) = k" by simp_all
  ultimately show ?thesis
    using v0(1) [of xs] v0(5) w(1,2) v(2,3) p(1,2) m(1,4) by (intro exI [of _ w] exI [of _ v] exI [of _ "w32 q"]) simp
qed

end

end
