(* ===== verification/Driver_Runs.thy ===== *)
theory Driver_Runs
  imports Driver_Room
begin

text \<open>
  The utilisation and the speed run of the driver over a package that meets the contract: with
  room for the trace both return, and the utilisation is at most one.
\<close>

section \<open>The bytes a client holds\<close>

definition total_live :: "(nat \<rightharpoonup> nat) \<Rightarrow> nat" where
  "total_live L = (\<Sum>p \<in> dom L. the (L p))"

lemma total_live_empty [simp]: "total_live Map.empty = 0"
  by (simp add: total_live_def)

lemma total_live_insert:
  assumes "finite (dom L)" "L p = None"
  shows "total_live (L(p \<mapsto> n)) = total_live L + n"
proof -
  have "p \<notin> dom L" using assms(2) by auto
  then have "(\<Sum>q \<in> dom L. the ((L(p \<mapsto> n)) q)) = (\<Sum>q \<in> dom L. the (L q))"
    by (intro sum.cong) auto
  with \<open>p \<notin> dom L\<close> show ?thesis using assms(1) by (simp add: total_live_def)
qed

lemma total_live_remove:
  assumes "finite (dom L)" "L p = Some n"
  shows "total_live (L(p := None)) + n = total_live L"
  using total_live_insert [of "L(p := None)" p n] assms by (simp add: fun_upd_idem)

section \<open>The indices a client can name\<close>

definition held :: "nat \<Rightarrow> nat set \<Rightarrow> u32 list \<Rightarrow> u32 list \<Rightarrow> (nat \<rightharpoonup> nat) \<Rightarrow> bool" where
  "held ids live bl bs L \<longleftrightarrow> length bl = ids \<and> length bs = ids \<and> live \<subseteq> {..<ids}
     \<and> (\<forall>i \<in> live. \<exists>p n. n < 2 ^ 31 \<and> bl ! i = w32 p \<and> bs ! i = w32 n \<and> L p = Some n)
     \<and> (\<forall>i \<in> live. \<forall>j \<in> live. i \<noteq> j \<longrightarrow> bl ! i \<noteq> bl ! j)"

lemma held_drop:
  assumes "held ids live bl bs L" "i \<in> live" "bl ! i = w32 p"
  shows "held ids (live - {i}) bl bs (L(p := None))"
proof -
  have "\<exists>q n. n < 2 ^ 31 \<and> bl ! j = w32 q \<and> bs ! j = w32 n \<and> (L(p := None)) q = Some n"
    if "j \<in> live - {i}" for j
  proof -
    from that assms(1) obtain q n where "n < 2 ^ 31" "bl ! j = w32 q" "bs ! j = w32 n" "L q = Some n"
      by (auto simp: held_def)
    moreover have "bl ! j \<noteq> bl ! i" using that assms(1,2) by (simp add: held_def)
    ultimately show ?thesis using assms(3) by (intro exI [of _ q] exI [of _ n]) auto
  qed
  then show ?thesis using assms(1) by (auto simp: held_def)
qed

lemma held_install:
  assumes h: "held ids live bl bs L" and i: "i < ids" "n < 2 ^ 31" and q: "L q = None" "q < 4294967296"
    and lt: "\<And>p k. L p = Some k \<Longrightarrow> p < 4294967296"
  shows "held ids (insert i live) (bl[i := w32 q]) (bs[i := w32 n]) (L(q \<mapsto> n))"
proof -
  have other: "bl ! j \<noteq> w32 q \<and> (\<exists>p k. k < 2 ^ 31 \<and> bl ! j = w32 p \<and> bs ! j = w32 k \<and> (L(q \<mapsto> n)) p = Some k)"
    if "j \<in> live" for j
  proof -
    from that h obtain p k where p: "k < 2 ^ 31" "bl ! j = w32 p" "bs ! j = w32 k" "L p = Some k"
      by (auto simp: held_def)
    then have "p \<noteq> q" using q(1) by auto
    then show ?thesis using p q(2) lt [OF p(4)] w32_eq_iff [of p q] by auto
  qed
  have "\<exists>p k. k < 2 ^ 31 \<and> bl[i := w32 q] ! j = w32 p \<and> bs[i := w32 n] ! j = w32 k \<and> (L(q \<mapsto> n)) p = Some k"
    if "j \<in> insert i live" for j
  proof (cases "j = i")
    case True
    then show ?thesis using h i by (intro exI [of _ q] exI [of _ n]) (auto simp: held_def)
  next
    case False
    with that other [of j] show ?thesis by simp
  qed
  moreover have "bl[i := w32 q] ! j \<noteq> bl[i := w32 q] ! j'"
    if "j \<in> insert i live" "j' \<in> insert i live" "j \<noteq> j'" for j j'
    using that other [of j] other [of j'] h i(1) unfolding held_def
    by (cases "j = i"; cases "j' = i") auto
  ultimately show ?thesis using h i(1) unfolding held_def by auto
qed

context growing_allocator
begin

lemma live_finite: "inv s L \<Longrightarrow> finite (dom L)"
  by (rule finite_subset [of _ "{..<brk_of s}"]) (use live_range in fastforce)+

lemma total_live_le: 
  assumes "inv s L"
  shows "start_of s + total_live L \<le> brk_of s"
proof -
  let ?I = "\<lambda>p. {p..<p + the (L p)}"
  have "card (\<Union>p \<in> dom L. ?I p) = (\<Sum>p \<in> dom L. card (?I p))"
  proof (rule card_UN_disjoint)
    show "\<forall>p \<in> dom L. \<forall>q \<in> dom L. p \<noteq> q \<longrightarrow> ?I p \<inter> ?I q = {}"
      using live_disjoint [OF assms] by fastforce
  qed (simp_all add: live_finite [OF assms])
  moreover have "(\<Union>p \<in> dom L. ?I p) \<subseteq> {start_of s..<brk_of s}"
    using live_range [OF assms] by fastforce
  then have "card (\<Union>p \<in> dom L. ?I p) \<le> brk_of s - start_of s"
    using card_mono [of "{start_of s..<brk_of s}"] by fastforce
  moreover have "start_of s \<le> brk_of s"
    using inv_arena [OF assms] by (auto simp: arena_ok_def)
  ultimately show ?thesis by (simp add: total_live_def)
qed

lemma live_lt: "inv s L \<Longrightarrow> L p = Some n \<Longrightarrow> p < 4294967296"
  using live_bounds [of s L p n] by linarith

end

lemma uint_add_le: "unat (a :: u32) + n \<le> unat b \<Longrightarrow> uint a + int n \<le> uint b"
proof -
  assume "unat a + n \<le> unat b"
  then have "int (unat a + n) \<le> int (unat b)" by (simp only: of_nat_le_iff)
  then show ?thesis by simp
qed

lemma same_arena_start: "same_arena s s' \<Longrightarrow> mem_start_brk s' = mem_start_brk s"
  by (simp add: same_arena_def word_unat_eq_iff)

lemmas uint_le = uint_add_le [where n = 0, simplified]

section \<open>Space utilisation\<close>

text \<open>
  The running total is what the client holds, and the high water mark is covered by the heap.
\<close>

definition util_ok ::
  "('a mem_scheme \<Rightarrow> (nat \<rightharpoonup> nat) \<Rightarrow> bool) \<Rightarrow> nat \<Rightarrow> nat set \<Rightarrow> 'a mem_scheme util_run \<Rightarrow> (nat \<rightharpoonup> nat) \<Rightarrow> bool" where
  "util_ok I ids live u L \<longleftrightarrow> I (u_machine u) L \<and> held ids live (u_blocks u) (u_sizes u) L
     \<and> total_size u = int (total_live L) \<and> total_size u \<le> max_total_size u
     \<and> uint (mem_start_brk (u_machine u)) + max_total_size u \<le> uint (mem_brk (u_machine u))"

lemma util_grow_bounds:
  assumes "a + max_total_size u \<le> b" "a + (total_size u + n) \<le> b"
    and "0 \<le> total_size u + n" "total_size u + n < 2 ^ 31"
  shows "total_size (util_grow n u) = total_size u + n"
    "total_size (util_grow n u) \<le> max_total_size (util_grow n u)"
    "a + max_total_size (util_grow n u) \<le> b"
    "u_machine (util_grow n u) = u_machine u" "u_blocks (util_grow n u) = u_blocks u"
    "u_sizes (util_grow n u) = u_sizes u"
  using assms c_int_id [OF assms(3,4)] by (simp_all add: util_grow_def Let_def)

context growing_allocator
begin

lemma total_live_small: "inv s L \<Longrightarrow> int (total_live L) < 2 ^ 31"
  using total_live_le [of s L] inv_arena [of s L] by (simp add: arena_ok_def)

lemma util_alloc_ok:
  assumes ok: "util_ok inv ids live u L"
    and op: "op_type op = ALLOC" "op_index op = int i" "op_size op = int n" "i < ids" "0 < n" "n < 2 ^ 31"
    and nw: "no_wrap (u_machine u) n" and room: "brk_of (u_machine u) + grow n \<le> top_of (u_machine u)"
  shows "\<exists>u' L'. util_step pkg op u = ok u' \<and> util_ok inv ids (insert i live) u' L'
    \<and> same_arena (u_machine u) (u_machine u') \<and> brk_of (u_machine u') \<le> brk_of (u_machine u) + grow n"
proof -
  have I: "inv (u_machine u) L" and h: "held ids live (u_blocks u) (u_sizes u) L"
    and tot: "total_size u = int (total_live L)"
    and mx: "uint (mem_start_brk (u_machine u)) + max_total_size u \<le> uint (mem_brk (u_machine u))"
    using ok by (simp_all add: util_ok_def)
  obtain p s' where m: "mm_malloc pkg (w32 n) (u_machine u) = ok (w32 p, s')" "same_arena (u_machine u) s'"
      "L p = None" "inv s' (L(p \<mapsto> n))" "w32 p \<noteq> 0" "brk_of (u_machine u) \<le> brk_of s'"
      "brk_of s' \<le> brk_of (u_machine u) + grow n"
    using malloc_grows [OF I op(5) nw room] by metis
  let ?u = "u\<lparr>u_machine := s', u_blocks := (u_blocks u)[i := w32 p], u_sizes := (u_sizes u)[i := w32 n]\<rparr>"
  have len: "i < length (u_blocks u)" "i < length (u_sizes u)" using h op(4) by (simp_all add: held_def)
  have step: "util_step pkg op u = ok (util_grow (int n) ?u)"
    using op(1-3) m(1,5) len by (simp add: util_step_def word_of_int_w32 Let_def del: of_int_of_nat_eq)
  have h': "held ids (insert i live) (u_blocks ?u) (u_sizes ?u) (L(p \<mapsto> n))"
    using held_install [OF h op(4,6) m(3)] live_lt [OF m(4), of p n] live_lt [OF I] by simp
  have t': "total_size ?u + int n = int (total_live (L(p \<mapsto> n)))"
    using total_live_insert [OF live_finite [OF I] m(3)] tot by simp
  have st: "mem_start_brk s' = mem_start_brk (u_machine u)" using m(2) by (rule same_arena_start)
  have "uint (mem_start_brk s') + (total_size ?u + int n) \<le> uint (mem_brk s')"
    using uint_add_le [OF total_live_le [OF m(4)]] t' by simp
  moreover have "uint (mem_start_brk s') + max_total_size ?u \<le> uint (mem_brk s')"
    using mx st uint_le [OF m(6)] by simp
  ultimately have "util_ok inv ids (insert i live) (util_grow (int n) ?u) (L(p \<mapsto> n))"
    using util_grow_bounds [of "uint (mem_start_brk s')" ?u "uint (mem_brk s')" "int n"] h' m(4) t'
      total_live_small [OF m(4)] unfolding util_ok_def by simp
  then show ?thesis using step m(2,7) by (intro exI conjI) (auto simp: util_grow_def Let_def)
qed

lemma util_free_ok:
  assumes ok: "util_ok inv ids live u L"
    and op: "op_type op = FREE" "op_index op = int i" "i \<in> live"
  shows "\<exists>u' L'. util_step pkg op u = ok u' \<and> util_ok inv ids (live - {i}) u' L'
    \<and> same_arena (u_machine u) (u_machine u') \<and> brk_of (u_machine u') = brk_of (u_machine u)"
proof -
  have I: "inv (u_machine u) L" and h: "held ids live (u_blocks u) (u_sizes u) L"
    and tot: "total_size u = int (total_live L)" "total_size u \<le> max_total_size u"
    and mx: "uint (mem_start_brk (u_machine u)) + max_total_size u \<le> uint (mem_brk (u_machine u))"
    using ok by (simp_all add: util_ok_def)
  from h op(3) obtain p k where p: "k < 2 ^ 31" "u_blocks u ! i = w32 p" "u_sizes u ! i = w32 k" "L p = Some k"
    by (auto simp: held_def)
  have len: "i < length (u_blocks u)" "i < length (u_sizes u)" using h op(3) by (auto simp: held_def)
  obtain s' where s': "mm_free pkg (w32 p) (u_machine u) = ok s'" "same_arena (u_machine u) s'"
      "inv s' (L(p := None))" "brk_of s' = brk_of (u_machine u)"
    using free_keeps [OF I p(4)] by metis
  have brk: "mem_brk s' = mem_brk (u_machine u)" using s'(4) by (simp add: word_unat_eq_iff)
  let ?u = "u\<lparr>u_machine := s', total_size := total_size u - int k\<rparr>"
  have less: "total_size u - int k = int (total_live (L(p := None)))"
    using total_live_remove [OF live_finite [OF I] p(4)] tot(1) by simp
  then have "c_int (total_size u - int k) = total_size u - int k"
    using total_live_small [OF s'(3)] by (intro c_int_id) simp_all
  then have "util_step pkg op u = ok ?u"
    using op(1,2) p(2,3) len s'(1) sint_w32 [OF p(1)] by (simp add: util_step_def Let_def)
  moreover have "util_ok inv ids (live - {i}) ?u (L(p := None))"
    using s'(3) less tot mx held_drop [OF h op(3) p(2)] same_arena_start [OF s'(2)] brk
    by (simp add: util_ok_def del: fun_upd_apply)
  ultimately show ?thesis using s'(2,4) by (intro exI [of _ ?u] exI [of _ "L(p := None)"]) simp
qed

lemma util_realloc_ok:
  assumes ok: "util_ok inv ids live u L"
    and op: "op_type op = REALLOC" "op_index op = int i" "op_size op = int n" "i \<in> live" "0 < n" "n < 2 ^ 31"
    and nw: "no_wrap (u_machine u) n" and room: "brk_of (u_machine u) + grow n \<le> top_of (u_machine u)"
  shows "\<exists>u' L'. util_step pkg op u = ok u' \<and> util_ok inv ids live u' L'
    \<and> same_arena (u_machine u) (u_machine u') \<and> brk_of (u_machine u') \<le> brk_of (u_machine u) + grow n"
proof -
  have I: "inv (u_machine u) L" and h: "held ids live (u_blocks u) (u_sizes u) L"
    and tot: "total_size u = int (total_live L)"
    and mx: "uint (mem_start_brk (u_machine u)) + max_total_size u \<le> uint (mem_brk (u_machine u))"
    using ok by (simp_all add: util_ok_def)
  from h op(4) obtain p k where p: "k < 2 ^ 31" "u_blocks u ! i = w32 p" "u_sizes u ! i = w32 k" "L p = Some k"
    by (auto simp: held_def)
  have len: "i < length (u_blocks u)" "i < length (u_sizes u)" "i < ids" using h op(4) by (auto simp: held_def)
  let ?M = "L(p := None)"
  obtain q s' where m: "mm_realloc pkg (w32 p) (w32 n) (u_machine u) = ok (w32 q, s')" "same_arena (u_machine u) s'"
      "?M q = None" "inv s' (?M(q \<mapsto> n))" "brk_of (u_machine u) \<le> brk_of s'"
      "brk_of s' \<le> brk_of (u_machine u) + grow n"
    using realloc_grows [OF I p(4) op(5) nw room] by metis
  let ?u = "u\<lparr>u_machine := s', u_blocks := (u_blocks u)[i := w32 q], u_sizes := (u_sizes u)[i := w32 n]\<rparr>"
  have "w32 q \<noteq> 0" using live_bounds [OF m(4), of q n] by auto
  then have step: "util_step pkg op u = ok (util_grow (int n - int k) ?u)"
    using op(1-3) p(2,3) m(1) len sint_w32 [OF p(1)]
    by (simp add: util_step_def word_of_int_w32 Let_def del: of_int_of_nat_eq)
  have lt: "r < 4294967296" if "?M r = Some l" for r l
    using that live_lt [OF I, of r l] by (simp split: if_splits)
  have "held ids (insert i (live - {i})) ((u_blocks u)[i := w32 q]) ((u_sizes u)[i := w32 n]) (?M(q \<mapsto> n))"
  proof (rule held_install [OF held_drop [OF h op(4) p(2)] len(3) op(6) m(3)])
    show "q < 4294967296" using live_lt [OF m(4), of q n] by simp
  qed (rule lt)
  then have h': "held ids live (u_blocks ?u) (u_sizes ?u) (?M(q \<mapsto> n))"
    using op(4) by (simp add: insert_absorb del: fun_upd_apply)
  have fin: "finite (dom ?M)" using live_finite [OF I] by simp
  have t': "total_size ?u + (int n - int k) = int (total_live (?M(q \<mapsto> n)))"
    using total_live_insert [OF fin m(3)] total_live_remove [OF live_finite [OF I] p(4)] tot
    by (simp del: fun_upd_apply)
  have st: "mem_start_brk s' = mem_start_brk (u_machine u)" using m(2) by (rule same_arena_start)
  have "uint (mem_start_brk s') + (total_size ?u + (int n - int k)) \<le> uint (mem_brk s')"
    using uint_add_le [OF total_live_le [OF m(4)]] t' by simp
  moreover have "uint (mem_start_brk s') + max_total_size ?u \<le> uint (mem_brk s')"
    using mx st uint_le [OF m(5)] by simp
  ultimately have "util_ok inv ids live (util_grow (int n - int k) ?u) (?M(q \<mapsto> n))"
    using util_grow_bounds [of "uint (mem_start_brk s')" ?u "uint (mem_brk s')" "int n - int k"] h' m(4) t' total_live_small [OF m(4)]
    unfolding util_ok_def by simp
  then show ?thesis using step m(2,6) by (intro exI conjI) (auto simp: util_grow_def Let_def)
qed

lemma util_step_ok:
  assumes ok: "util_ok inv ids live u L" and wf: "wf_ops ids B live (op # rest)"
    and B: "B < 2 ^ 31" "no_wrap (u_machine u) B"
    and room: "brk_of (u_machine u) + growth grow (op # rest) \<le> top_of (u_machine u)"
  shows "\<exists>u' L' live'. util_step pkg op u = ok u' \<and> util_ok inv ids live' u' L'
    \<and> wf_ops ids B live' rest \<and> same_arena (u_machine u) (u_machine u')
    \<and> brk_of (u_machine u') + growth grow rest \<le> top_of (u_machine u')"
proof -
  have small: "n < 2 ^ 31" "no_wrap (u_machine u) n" if "n \<le> B" for n using B that by (auto simp: no_wrap_def)
  from wf show ?thesis
  proof (cases rule: wf_ops_ConsE)
    case (ALLOC i n)
    have g: "growth grow (op # rest) = grow n + growth grow rest" using ALLOC(1,3) by (simp add: op_growth_def)
    then have "brk_of (u_machine u) + grow n \<le> top_of (u_machine u)" using room by simp
    from util_alloc_ok [OF ok ALLOC(1-5) small [OF ALLOC(6)] this] ALLOC(7) room g
    show ?thesis by (fastforce simp: same_arena_def)
  next
    case (FREE i)
    with util_free_ok [OF ok FREE(1-3)] room show ?thesis
      by (fastforce simp: same_arena_def op_growth_def)
  next
    case (REALLOC i n)
    have g: "growth grow (op # rest) = grow n + growth grow rest" using REALLOC(1,3) by (simp add: op_growth_def)
    then have "brk_of (u_machine u) + grow n \<le> top_of (u_machine u)" using room by simp
    from util_realloc_ok [OF ok REALLOC(1-4,6) small [OF REALLOC(7)] this] REALLOC(8) room g
    show ?thesis by (fastforce simp: same_arena_def)
  qed
qed

lemma util_loop_ok:
  assumes "util_ok inv ids live u L" "wf_ops ids B live xs" "B < 2 ^ 31" "no_wrap (u_machine u) B"
    "brk_of (u_machine u) + growth grow xs \<le> top_of (u_machine u)"
  shows "\<exists>u' L' live'. util_loop pkg xs u = ok u' \<and> util_ok inv ids live' u' L'
    \<and> same_arena (u_machine u) (u_machine u')"
  using assms
proof (induction xs arbitrary: live u L)
  case Nil
  then show ?case by (auto simp: same_arena_def)
next
  case (Cons op xs)
  obtain u' L' live' where *: "util_step pkg op u = ok u'" "util_ok inv ids live' u' L'" "wf_ops ids B live' xs"
      "same_arena (u_machine u) (u_machine u')" "brk_of (u_machine u') + growth grow xs \<le> top_of (u_machine u')"
    using util_step_ok [OF Cons.prems] by blast
  then have "no_wrap (u_machine u') B" using Cons.prems(4) by (simp add: no_wrap_def same_arena_def)
  from Cons.IH [OF *(2,3) Cons.prems(3) this *(5)]
  obtain w L'' live'' where w: "util_loop pkg xs u' = ok w" "util_ok inv ids live'' w L''"
      "same_arena (u_machine u') (u_machine w)" by blast
  then have "same_arena (u_machine u) (u_machine w)" using *(4) by (simp add: same_arena_def)
  then show ?case using w *(1) by auto
qed

lemma eval_mm_util_room:
  assumes a: "arena_ok s" "B < 2 ^ 31" "no_wrap s B" "wf_ops ids B {} (ops tr)"
    "length (blocks tr) = ids" "length (block_sizes tr) = ids"
    and room: "start_of s + fresh + growth grow (ops tr) \<le> top_of s"
  shows "\<exists>hwm heap u. eval_mm_util pkg tr s = ok (hwm, heap, u) \<and> 0 \<le> hwm \<and> hwm \<le> int (unat heap)
    \<and> arena_ok (u_machine u) \<and> same_arena s (u_machine u)
    \<and> length (u_blocks u) = ids \<and> length (u_sizes u) = ids"
proof -
  let ?s = "mem_reset_brk s"
  have s: "arena_ok ?s" "mem_brk ?s = mem_start_brk ?s" using a(1) by (simp_all add: mem_reset_brk_def arena_ok_def)
  obtain s' where s': "mm_init pkg ?s = ok (0, s')" "same_arena ?s s'" "inv s' Map.empty"
    using init_ok [OF s] by blast
  let ?u = "\<lparr>u_machine = s', u_blocks = blocks tr, u_sizes = block_sizes tr, total_size = 0, max_total_size = 0\<rparr>"
  have "util_ok inv ids {} ?u Map.empty"
    using s'(3) a(5,6) uint_le [of "mem_start_brk s'" "mem_brk s'"] inv_arena [OF s'(3)]
    by (simp add: util_ok_def held_def arena_ok_def)
  moreover have "no_wrap (u_machine ?u) B" using a(3) s'(2) by (simp add: no_wrap_def same_arena_def mem_reset_brk_def)
  moreover have "brk_of (u_machine ?u) + growth grow (ops tr) \<le> top_of (u_machine ?u)"
    using init_brk [OF s s'(1)] room s'(2) by (simp add: same_arena_def mem_reset_brk_def)
  ultimately obtain u' L' live' where u': "util_loop pkg (ops tr) ?u = ok u'" "util_ok inv ids live' u' L'"
      "same_arena (u_machine ?u) (u_machine u')"
    using util_loop_ok a(2,4) by blast
  then have ar: "arena_ok (u_machine u')" using inv_arena by (auto simp: util_ok_def)
  then have "uint (mem_heapsize (u_machine u')) = uint (mem_brk (u_machine u')) - uint (mem_start_brk (u_machine u'))"
    by (simp add: mem_heapsize_def arena_ok_def uint_sub_lem [THEN iffD1] word_le_nat_alt uint_le)
  then show ?thesis using u' s'(1,2) ar
    by (simp add: eval_mm_util_def Let_def util_ok_def held_def same_arena_def mem_reset_brk_def)
qed

section \<open>Speed\<close>

lemma speed_step_ok:
  assumes I: "inv s L" and h: "held ids live bl bs L" and wf: "wf_ops ids B live (op # rest)"
    and B: "B < 2 ^ 31" "no_wrap s B" and room: "brk_of s + growth grow (op # rest) \<le> top_of s"
  shows "\<exists>bl' s' bs' L' live'. speed_step pkg op (bl, s) = ok (bl', s') \<and> inv s' L' \<and> held ids live' bl' bs' L'
    \<and> wf_ops ids B live' rest \<and> same_arena s s' \<and> brk_of s' + growth grow rest \<le> top_of s'"
proof -
  let ?u = "\<lparr>u_machine = s, u_blocks = bl, u_sizes = bs, total_size = int (total_live L),
    max_total_size = int (total_live L)\<rparr>"
  have "util_ok inv ids live ?u L" using I h uint_add_le [OF total_live_le [OF I]] by (simp add: util_ok_def)
  from util_step_ok [OF this wf B(1)] B(2) room
  obtain u' L' live' where u': "util_step pkg op ?u = ok u'" "util_ok inv ids live' u' L'" "wf_ops ids B live' rest"
      "same_arena s (u_machine u')" "brk_of (u_machine u') + growth grow rest \<le> top_of (u_machine u')"
    by auto
  have "speed_step pkg op (bl, s) = ok (u_blocks u', u_machine u')"
    using u'(1) by (auto simp: util_step_def speed_step_def util_grow_def Let_def elim!: bnd_eq_okE
      split: request.splits if_splits)
  then show ?thesis using u'(2-5) by (auto simp: util_ok_def)
qed

lemma speed_loop_ok:
  assumes "inv s L" "held ids live bl bs L" "wf_ops ids B live xs" "B < 2 ^ 31" "no_wrap s B"
    "brk_of s + growth grow xs \<le> top_of s"
  shows "\<exists>bl' s' L'. speed_loop pkg xs (bl, s) = ok (bl', s') \<and> inv s' L' \<and> same_arena s s' \<and> length bl' = ids"
  using assms
proof (induction xs arbitrary: live s bl bs L)
  case Nil
  then show ?case by (auto simp: same_arena_def held_def)
next
  case (Cons op xs)
  obtain bl' s' bs' L' live' where *: "speed_step pkg op (bl, s) = ok (bl', s')" "inv s' L'" "held ids live' bl' bs' L'"
      "wf_ops ids B live' xs" "same_arena s s'" "brk_of s' + growth grow xs \<le> top_of s'"
    using speed_step_ok [OF Cons.prems] by blast
  then have "no_wrap s' B" using Cons.prems(5) by (simp add: no_wrap_def same_arena_def)
  from Cons.IH [OF *(2-4) Cons.prems(4) this *(6)]
  obtain bl2 s2 L2 where w: "speed_loop pkg xs (bl', s') = ok (bl2, s2)" "inv s2 L2" "same_arena s' s2"
      "length bl2 = ids" by blast
  then have "same_arena s s2" using *(5) by (simp add: same_arena_def)
  then show ?case using w *(1) by auto
qed

lemma eval_mm_speed_room:
  assumes a: "arena_ok s" "B < 2 ^ 31" "no_wrap s B" "wf_ops ids B {} (ops tr)"
    "length (blocks tr) = ids" and room: "start_of s + fresh + growth grow (ops tr) \<le> top_of s"
  shows "\<exists>bl s' L. eval_mm_speed pkg tr s = ok (bl, s') \<and> inv s' L \<and> same_arena s s' \<and> length bl = ids"
proof -
  let ?s = "mem_reset_brk s"
  have s: "arena_ok ?s" "mem_brk ?s = mem_start_brk ?s" using a(1) by (simp_all add: mem_reset_brk_def arena_ok_def)
  obtain s' where s': "mm_init pkg ?s = ok (0, s')" "same_arena ?s s'" "inv s' Map.empty"
    using init_ok [OF s] by blast
  have "held ids {} (blocks tr) (replicate ids 0) Map.empty" using a(5) by (simp add: held_def)
  moreover have "no_wrap s' B" using a(3) s'(2) by (simp add: no_wrap_def same_arena_def mem_reset_brk_def)
  moreover have "brk_of s' + growth grow (ops tr) \<le> top_of s'"
    using init_brk [OF s s'(1)] room s'(2) by (simp add: same_arena_def mem_reset_brk_def)
  ultimately obtain bl s2 L where "speed_loop pkg (ops tr) (blocks tr, s') = ok (bl, s2)" "inv s2 L"
      "same_arena s' s2" "length bl = ids"
    using speed_loop_ok [OF s'(3) _ a(4,2)] by blast
  then show ?thesis using s'(1,2)
    by (simp add: eval_mm_speed_def Let_def same_arena_def mem_reset_brk_def) blast
qed

end

end
