(* ===== verification/Mdriver_Correct.thy ===== *)
theory Mdriver_Correct
  imports Mdriver_Options Driver_Runs Trace_Roundtrip
begin

text \<open>
  The main program over a package that meets the growing contract, on traces that fit: every
  trace is found correct, nothing is reported, and the performance index lies between 0 and 100.
\<close>

section \<open>The performance index\<close>

lemma throughput_score_at_most:
  assumes "0 \<le> nops" "0 \<le> secs"
  shows "at_most (40 / 100) (throughput_score (Finite nops / Finite secs))"
proof -
  define r where "r = nops / secs"
  have "0 \<le> r" using assms by (simp add: r_def)
  then show ?thesis by (simp add: throughput_score_def UTIL_WEIGHT_def AVG_LIBC_THRUPUT_def r_def [symmetric])
qed

lemma sum_list_between:
  fixes xs :: "real list"
  assumes "\<forall>x \<in> set xs. 0 \<le> x \<and> x \<le> 1"
  shows "0 \<le> sum_list xs \<and> sum_list xs \<le> real (length xs)"
  using assms by (induction xs) auto

lemma util_score_at_most:
  assumes "\<forall>st \<in> set sts. 0 \<le> st_util st \<and> st_util st \<le> 1"
  shows "at_most (60 / 100) (util_score sts)"
proof -
  define r where "r = sum_list (map st_util sts) / real (length sts)"
  have "0 \<le> r \<and> r \<le> 1"
    using sum_list_between [of "map st_util sts"] assms by (auto simp: r_def divide_le_eq)
  then show ?thesis by (simp add: util_score_def UTIL_WEIGHT_def r_def [symmetric])
qed

lemma perfindex_at_most:
  assumes "\<forall>st \<in> set sts. 0 \<le> st_util st \<and> st_util st \<le> 1 \<and> 0 \<le> st_ops st \<and> 0 \<le> st_secs st"
  shows "at_most 100 (perfindex errs sts)"
proof -
  have "0 \<le> sum_list (map st_ops sts)" "0 \<le> sum_list (map st_secs sts)"
    using assms by (auto intro!: sum_list_nonneg)
  then have "at_most (40 / 100) (throughput_score (avg_mm_throughput sts))"
    unfolding avg_mm_throughput_def by (rule throughput_score_at_most)
  then have "at_most ((60 / 100 + 40 / 100) * 100) ((util_score sts + throughput_score (avg_mm_throughput sts)) * Finite 100)"
    using util_score_at_most assms by (intro at_most_scale at_most_add) auto
  then show ?thesis by (simp add: perfindex_def)
qed

lemma ratio_bounds:
  "0 \<le> a \<Longrightarrow> a \<le> b \<Longrightarrow> 0 \<le> real_of_int a / real_of_int b \<and> real_of_int a / real_of_int b \<le> 1"
  by (auto simp: divide_le_eq)

section \<open>The printed tables\<close>

definition row_of :: "nat \<times> stats_t \<Rightarrow> row" where
  "row_of = (\<lambda>(i, st). Correct_row i (st_util st * 100) (st_ops st) (st_secs st) (Finite (st_ops st / 1000) / Finite (st_secs st)))"

text \<open>A table without a failed trace: one line for each, in order, and the totals.\<close>

definition all_correct :: "nat \<Rightarrow> row list \<Rightarrow> bool" where
  "all_correct n rows \<longleftrightarrow> (\<exists>rs u nops secs k. rows = rs @ [Total_row u nops secs k] \<and> length rs = n
     \<and> (\<forall>i < n. \<exists>u nops secs k. rs ! i = Correct_row i u nops secs k))"

lemma print_rows_correct:
  "\<forall>st \<in> set sts. st_valid st \<noteq> 0 \<Longrightarrow>
   print_rows i sts secs nops util
     = (map row_of (enumerate i sts), secs + sum_list (map st_secs sts), nops + sum_list (map st_ops sts),
        util + sum_list (map st_util sts))"
  by (induction sts arbitrary: i secs nops util) (auto simp: row_of_def)

lemma printresults_total:
  assumes "\<forall>st \<in> set sts. st_valid st \<noteq> 0"
  shows "printresults 0 sts = map row_of (enumerate 0 sts)
    @ [Total_row (Finite (sum_list (map st_util sts)) / Finite (real (length sts)) * Finite 100)
         (sum_list (map st_ops sts)) (sum_list (map st_secs sts))
         (Finite (sum_list (map st_ops sts) / 1000) / Finite (sum_list (map st_secs sts)))]"
  by (simp add: printresults_def print_rows_correct [OF assms])

lemma printresults_correct:
  assumes "\<forall>st \<in> set sts. st_valid st = 1"
  shows "all_correct (length sts) (printresults 0 sts)"
proof -
  have "\<exists>u nops secs k. map row_of (enumerate 0 sts) ! i = Correct_row i u nops secs k" if "i < length sts" for i
    using that by (simp add: row_of_def nth_enumerate_eq)
  moreover have "\<forall>st \<in> set sts. st_valid st \<noteq> 0" using assms by simp
  ultimately show ?thesis
    unfolding all_correct_def by (intro exI conjI) (rule printresults_total, auto)
qed

text \<open>The index can be computed from the line of totals alone.\<close>

lemma perfindex_of_totals:
  assumes "\<forall>st \<in> set sts. st_valid st \<noteq> 0"
  shows "\<exists>u nops secs k. printresults 0 sts = map row_of (enumerate 0 sts) @ [Total_row (u * Finite 100) nops secs k]
    \<and> perfindex 0 sts = (Finite UTIL_WEIGHT * u + throughput_score (k * Finite 1000)) * Finite 100"
proof (intro exI conjI)
  have "Finite (sum_list (map st_ops sts) / 1000) / Finite (sum_list (map st_secs sts)) * Finite 1000 = avg_mm_throughput sts"
    unfolding avg_mm_throughput_def by (rule divide_rescale) simp
  then show "perfindex 0 sts = (Finite UTIL_WEIGHT * (Finite (sum_list (map st_util sts)) / Finite (real (length sts)))
      + throughput_score (Finite (sum_list (map st_ops sts) / 1000) / Finite (sum_list (map st_secs sts)) * Finite 1000)) * Finite 100"
    unfolding perfindex_def util_score_def by presburger
qed (rule printresults_total [OF assms])

text \<open>A failed trace is in the table with its number, and not in the totals.\<close>

lemma print_rows_sums:
  "snd (print_rows i sts secs nops util)
     = (secs + (\<Sum>st \<leftarrow> sts. if st_valid st \<noteq> 0 then st_secs st else 0),
        nops + (\<Sum>st \<leftarrow> sts. if st_valid st \<noteq> 0 then st_ops st else 0),
        util + (\<Sum>st \<leftarrow> sts. if st_valid st \<noteq> 0 then st_util st else 0))"
  by (induction sts arbitrary: i secs nops util) (simp_all add: Let_def case_prod_beta)

lemma print_rows_kinds:
  "map (\<lambda>r. case r of Correct_row i _ _ _ _ \<Rightarrow> (i, True) | Wrong_row i \<Rightarrow> (i, False) | _ \<Rightarrow> (0, False))
     (fst (print_rows i sts secs nops util))
   = map (\<lambda>(i, st). (i, st_valid st \<noteq> 0)) (enumerate i sts)"
  by (induction sts arbitrary: i secs nops util) (simp_all add: Let_def case_prod_beta)

section \<open>Repeated runs\<close>

text \<open>The time a run is given: a tenth of the time between two answers of \<^verbatim>\<open>gettimeofday\<close>.\<close>

definition measured_secs :: "world \<Rightarrow> real" where
  "measured_secs w = (instant (tods (w_timing w) !! 1) - instant (tods (w_timing w) !! 0)) / 10"

lemma timed_run_ok:
  "repeat_run 10 f u = ok u' \<Longrightarrow> \<exists>ts. timed_run w f u = ok (measured_secs w, ts, u')"
  by (simp add: timed_run_def fsecs_def configured_def init_fsecs_def ftimer_gettod_ok measured_secs_def Let_def)

section \<open>One trace\<close>

text \<open>A trace that fits: well-formed requests of at most \<open>B\<close> bytes that grow the heap at_most the arena.\<close>

definition trace_fits :: "nat \<Rightarrow> (nat \<Rightarrow> nat) \<Rightarrow> nat \<Rightarrow> trace \<Rightarrow> bool" where
  "trace_fits fresh grow B tr \<longleftrightarrow> wf_ops (length (blocks tr)) B {} (ops tr)
     \<and> length (block_sizes tr) = length (blocks tr) \<and> fresh + growth grow (ops tr) \<le> 20971520"

definition stats_ok :: "trace \<Rightarrow> world \<Rightarrow> stats_t \<Rightarrow> bool" where
  "stats_ok tr w st \<longleftrightarrow> st_valid st = 1 \<and> 0 \<le> st_util st \<and> st_util st \<le> 1
     \<and> st_ops st = of_int (num_ops tr) \<and> st_secs st = measured_secs w"

context growing_allocator
begin

lemma mm_trace_ok:
  assumes d: "arena_ok (d_machine d)" "no_wrap (d_machine d) B" "B < 2 ^ 31"
    and tr: "trace_fits fresh grow B tr" and w: "w_oom w = (\<lambda>_. False)"
  shows "\<exists>st d'. mm_trace pkg i w tr d = ok (st, d') \<and> stats_ok tr w st
    \<and> d_report d' = d_report d \<and> arena_ok (d_machine d') \<and> same_arena (d_machine d) (d_machine d')"
proof -
  let ?ids = "length (blocks tr)"
  have wf: "wf_ops ?ids B {} (ops tr)" "length (block_sizes tr) = ?ids"
    and gr: "fresh + growth grow (ops tr) \<le> 20971520"
    using tr by (simp_all add: trace_fits_def)
  have room: "start_of s + fresh + growth grow (ops tr) \<le> top_of s" if "arena_ok s" for s :: "'a mem_scheme"
    using that gr by (simp add: arena_ok_def)
  have nw: "no_wrap s B" if "same_arena (d_machine d) s" for s
    using that d(2) by (simp add: no_wrap_def same_arena_def)
  obtain v where v: "eval_mm_valid pkg (w_oom w) tr i (d_ranges d) (d_report d) (d_machine d) = ok (1, v)"
      "rep v = d_report d" "arena_ok (machine v)" "same_arena (d_machine d) (machine v)"
      "length (r_blocks v) = ?ids" "length (r_sizes v) = ?ids"
    using eval_mm_valid_room [OF d(1,3,2) wf(1) refl wf(2) room [OF d(1)], of i "d_ranges d" "d_report d"]
    unfolding w by blast
  let ?tr = "tr\<lparr>blocks := r_blocks v, block_sizes := r_sizes v\<rparr>"
  obtain hwm heap u where u: "eval_mm_util pkg ?tr (machine v) = ok (hwm, heap, u)" "0 \<le> hwm" "hwm \<le> int (unat heap)"
      "arena_ok (u_machine u)" "same_arena (machine v) (u_machine u)" "length (u_blocks u) = ?ids"
    using eval_mm_util_room [of "machine v" B ?ids ?tr] v nw [OF v(4)] d(3) wf room [OF v(3)] by auto
  let ?tr2 = "?tr\<lparr>blocks := u_blocks u, block_sizes := u_sizes u\<rparr>"
  let ?f = "\<lambda>(bl, s). eval_mm_speed pkg (?tr2\<lparr>blocks := bl\<rparr>) s"
  let ?P = "\<lambda>(bl, s). arena_ok s \<and> same_arena (d_machine d) s \<and> length bl = ?ids"
  have "\<exists>x'. ?f x = ok x' \<and> ?P x'" if "?P x" for x
  proof -
    obtain bl s where x: "x = (bl, s)" by fastforce
    with that have s: "arena_ok s" "same_arena (d_machine d) s" "length bl = ?ids" by auto
    then show ?thesis
      using eval_mm_speed_room [of s B ?ids "?tr2\<lparr>blocks := bl\<rparr>"] nw [OF s(2)] d(3) wf room [OF s(1)] x inv_arena
      by (fastforce simp: same_arena_def)
  qed
  moreover have "?P (u_blocks u, u_machine u)"
    using u(4,5,6) v(4) by (simp add: same_arena_def)
  ultimately obtain x where x: "repeat_run 10 ?f (u_blocks u, u_machine u) = ok x" "?P x"
    using repeat_run_total [of ?P ?f "(u_blocks u, u_machine u)" 10] by blast
  obtain bl s where bs: "x = (bl, s)" by fastforce
  have util: "0 \<le> real_of_int hwm / real_of_int (uint heap)" "real_of_int hwm / real_of_int (uint heap) \<le> 1"
    using ratio_bounds [of hwm "uint heap"] u(2,3) by simp_all
  obtain ts where "timed_run w ?f (u_blocks u, u_machine u) = ok (measured_secs w, ts, x)"
    using timed_run_ok [OF x(1)] by blast
  then show ?thesis
    using v u x(2) util by (simp add: mm_trace_def bs stats_ok_def Let_def)
qed

lemma mm_traces_ok:
  assumes d: "arena_ok (d_machine d)" "no_wrap (d_machine d) B" "B < 2 ^ 31"
    and rd: "\<forall>j < n. \<exists>tr. read (i + j) = ok tr \<and> trace_fits fresh grow B tr \<and> 0 \<le> num_ops tr"
    and w: "\<forall>j < n. w_oom (w (i + j)) = (\<lambda>_. False)
      \<and> 0 \<le> measured_secs (w (i + j))"
  shows "\<exists>sts d'. mm_traces pkg read w i n d = ok (sts, d') \<and> length sts = n \<and> d_report d' = d_report d
    \<and> (\<forall>st \<in> set sts. st_valid st = 1 \<and> 0 \<le> st_util st \<and> st_util st \<le> 1 \<and> 0 \<le> st_ops st \<and> 0 \<le> st_secs st)"
  using assms
proof (induction n arbitrary: i d)
  case 0
  then show ?case by simp
next
  case (Suc n)
  from Suc.prems(4) obtain tr where tr: "read i = ok tr" "trace_fits fresh grow B tr" "0 \<le> num_ops tr"
    by (metis add.right_neutral zero_less_Suc)
  have w0: "w_oom (w i) = (\<lambda>_. False)" "0 \<le> measured_secs (w i)"
    using Suc.prems(5) by (metis add.right_neutral zero_less_Suc)+
  obtain st d1 where st: "mm_trace pkg (int i) (w i) tr d = ok (st, d1)" "stats_ok tr (w i) st"
      "d_report d1 = d_report d" "arena_ok (d_machine d1)" "same_arena (d_machine d) (d_machine d1)"
    using mm_trace_ok [OF Suc.prems(1-3) tr(2) w0(1)] by blast
  have "no_wrap (d_machine d1) B" using st(5) Suc.prems(2) by (simp add: no_wrap_def same_arena_def)
  moreover have "\<forall>j < n. \<exists>tr. read (Suc i + j) = ok tr \<and> trace_fits fresh grow B tr \<and> 0 \<le> num_ops tr"
    using Suc.prems(4) by (metis Suc_less_eq add_Suc_shift)
  moreover have "\<forall>j < n. w_oom (w (Suc i + j)) = (\<lambda>_. False)
      \<and> 0 \<le> measured_secs (w (Suc i + j))"
    using Suc.prems(5) by (metis Suc_less_eq add_Suc_shift)
  ultimately obtain sts d2 where "mm_traces pkg read w (Suc i) n d1 = ok (sts, d2)" "length sts = n"
      "d_report d2 = d_report d1"
      "\<forall>st \<in> set sts. st_valid st = 1 \<and> 0 \<le> st_util st \<and> st_util st \<le> 1 \<and> 0 \<le> st_ops st \<and> 0 \<le> st_secs st"
    using Suc.IH [OF st(4) _ Suc.prems(3)] by blast
  then show ?case using tr st w0 by (auto simp: stats_ok_def)
qed

end

section \<open>The whole program\<close>

text \<open>
  A command line, team structure and libc with which the program reaches the loop over the traces
  for the \<^verbatim>\<open>mm\<close> package, and the state it enters it with.
\<close>

definition started :: "environment \<Rightarrow> options \<Rightarrow> string list \<Rightarrow> bool" where
  "started e o1 files \<longleftrightarrow>
     parse_opts (e_refused e 0) (getopt [] (e_args e)) default_options = ok o1
     \<and> \<not> run_libc o1 \<and> (team_check o1 \<longrightarrow> check_team (e_team e) = ok ())
     \<and> files = (case tracefiles o1 of None \<Rightarrow> default_tracefiles | Some fs \<Rightarrow> fs)
     \<and> \<not> e_refused e 2
     \<and> e_arena e \<noteq> 0 \<and> 8 dvd unat (e_arena e) \<and> unat (e_arena e) + 20971520 < 2 ^ 32"

definition entry :: "environment \<Rightarrow> 'a mem_scheme \<Rightarrow> 'a mem_scheme driver" where
  "entry e s = \<lparr>d_ranges = [], d_report = \<lparr>errors = 0, printed = []\<rparr>,
     d_machine = s\<lparr>mem_start_brk := e_arena e, mem_max_addr := e_arena e + MAX_HEAP, mem_brk := e_arena e\<rparr>\<rparr>"

lemma entry_simps [simp]:
  "d_ranges (entry e s) = []" "d_report (entry e s) = \<lparr>errors = 0, printed = []\<rparr>"
  "mem_start_brk (d_machine (entry e s)) = e_arena e" "heap_bytes (d_machine (entry e s)) = heap_bytes s"
  by (simp_all add: entry_def)

lemma entry_arena:
  assumes "started e o1 files"
  shows "arena_ok (d_machine (entry e s))" "top_of (d_machine (entry e s)) = unat (e_arena e) + 20971520"
proof -
  show top: "top_of (d_machine (entry e s)) = unat (e_arena e) + 20971520"
    using assms by (simp add: started_def entry_def unat_add_u32)
  show "arena_ok (d_machine (entry e s))"
    using assms top by (simp add: arena_ok_def entry_def started_def unat_gt_0 del: MAX_HEAP_val) simp
qed

lemma started_files: "started e o1 files \<Longrightarrow> files \<noteq> []"
  using parse_opts_meaning [of "e_refused e 0" "getopt [] (e_args e)" o1]
  by (auto simp: started_def options_of_def default_tracefiles_def)

lemma mdriver_main_started:
  assumes "started e o1 files"
  shows "mdriver_main lc pkg e h s =
    bnd (mm_traces pkg (read_file e True (tracedir o1) files) (e_world e True) 0 (length files) (entry e s)) (\<lambda>(sts, d).
    let errs = errors (d_report d) in
    ok \<lparr>o_errors = errs, o_correct = numcorrect sts, o_index = perfindex errs sts, o_libc = None,
        o_mm = (if verbose o1 \<noteq> 0 then Some (printresults errs sts) else None),
        o_lines = final_lines (autograder o1) errs sts\<rparr>)"
proof -
  have "mem_init (e_arena e) s = ok (d_machine (entry e s))"
    using assms by (simp add: started_def mem_init_def entry_def)
  then show ?thesis using assms
    by (simp add: mdriver_main_def started_def Let_def entry_def)
qed

text \<open>
  An environment in which nothing outside the package goes wrong: the program reaches the loop, and
  every file reads as a trace that fits.
\<close>

definition env_ok :: "nat \<Rightarrow> (nat \<Rightarrow> nat) \<Rightarrow> nat \<Rightarrow> environment \<Rightarrow> options \<Rightarrow> string list \<Rightarrow> bool" where
  "env_ok fresh grow B e o1 files \<longleftrightarrow>
     started e o1 files \<and> B < 2 ^ 31 \<and> unat (e_arena e) + 20971520 + B + 4096 < 2 ^ 32
     \<and> (\<forall>i < length files.
          (\<exists>tr. read_file e True (tracedir o1) files i = ok tr \<and> trace_fits fresh grow B tr \<and> 0 \<le> num_ops tr)
          \<and> w_oom (e_world e True i) = (\<lambda>_. False)
          \<and> 0 \<le> measured_secs (e_world e True i))"

lemma numcorrect_all: "\<forall>st \<in> set sts. st_valid st = 1 \<Longrightarrow> numcorrect sts = int (length sts)"
  unfolding numcorrect_def by (induction sts) auto

context growing_allocator
begin

lemma mdriver_main_ok:
  assumes e: "env_ok fresh grow B e o1 files"
  shows "\<exists>r. mdriver_main lc pkg e h s = ok r \<and> o_errors r = 0 \<and> o_correct r = int (length files)
    \<and> at_most 100 (o_index r)
    \<and> (verbose o1 \<noteq> 0 \<longrightarrow> (\<exists>rows. o_mm r = Some rows \<and> all_correct (length files) rows))"
proof -
  have st: "started e o1 files" using e by (simp add: env_ok_def)
  have "arena_ok (d_machine (entry e s))" "no_wrap (d_machine (entry e s)) B" "B < 2 ^ 31"
    using entry_arena [OF st, of s] e by (simp_all add: no_wrap_def env_ok_def)
  moreover have "\<forall>j < length files. \<exists>tr. read_file e True (tracedir o1) files (0 + j) = ok tr
      \<and> trace_fits fresh grow B tr \<and> 0 \<le> num_ops tr"
    and "\<forall>j < length files. w_oom (e_world e True (0 + j)) = (\<lambda>_. False)
      \<and> 0 \<le> measured_secs (e_world e True (0 + j))"
    using e unfolding env_ok_def add_0 by blast+
  ultimately obtain sts d' where
      r: "mm_traces pkg (read_file e True (tracedir o1) files) (e_world e True) 0 (length files) (entry e s) = ok (sts, d')"
        "length sts = length files" "d_report d' = \<lparr>errors = 0, printed = []\<rparr>"
      and sts: "\<forall>st \<in> set sts. st_valid st = 1 \<and> 0 \<le> st_util st \<and> st_util st \<le> 1 \<and> 0 \<le> st_ops st \<and> 0 \<le> st_secs st"
    using mm_traces_ok [of "entry e s" B "length files" "read_file e True (tracedir o1) files" 0 "e_world e True"]
    by auto
  have "at_most 100 (perfindex 0 sts)" using perfindex_at_most [of sts 0] sts by blast
  moreover have "all_correct (length files) (printresults 0 sts)"
    using printresults_correct [of sts] sts r(2) by simp
  moreover have "numcorrect sts = int (length files)" using numcorrect_all [of sts] sts r(2) by simp
  ultimately show ?thesis using r(3) by (simp add: mdriver_main_started [OF st] r(1) Let_def)
qed

end

end
