(* ===== verification/Sessions.thy ===== *)
theory Sessions
  imports Allocator
begin

text \<open>
  Clients of a package: the states a program can bring about that starts with \<^verbatim>\<open>mm_init\<close>, passes
  only pointers it holds, and writes only into its own payloads. The relation is inductive; the
  contract gives the invariant of every reachable state, and that no call faults there.
\<close>

section \<open>Reachable states\<close>

text \<open>\<open>session pkg s L\<close>: state \<open>s\<close> is reachable with \<open>L\<close> the live payloads and their requested sizes.\<close>

inductive session :: "'a mem_scheme mm_package \<Rightarrow> 'a mem_scheme \<Rightarrow> (nat \<rightharpoonup> nat) \<Rightarrow> bool" for pkg where
  start: "arena_ok s \<Longrightarrow> mem_brk s = mem_start_brk s \<Longrightarrow> mm_init pkg s = ok (0, s') \<Longrightarrow>
    session pkg s' Map.empty"
| served: "session pkg s L \<Longrightarrow> 0 < n \<Longrightarrow> no_wrap s n \<Longrightarrow> mm_malloc pkg (w32 n) s = ok (p, s') \<Longrightarrow> p \<noteq> 0 \<Longrightarrow>
    session pkg s' (L(unat p \<mapsto> n))"
| refused: "session pkg s L \<Longrightarrow> 0 < n \<Longrightarrow> no_wrap s n \<Longrightarrow> mm_malloc pkg (w32 n) s = ok (0, s') \<Longrightarrow>
    session pkg s' L"
| freed: "session pkg s L \<Longrightarrow> L p = Some n \<Longrightarrow> mm_free pkg (w32 p) s = ok s' \<Longrightarrow> session pkg s' (L(p := None))"
| moved: "session pkg s L \<Longrightarrow> L p = Some k \<Longrightarrow> 0 < n \<Longrightarrow> no_wrap s n \<Longrightarrow>
    mm_realloc pkg (w32 p) (w32 n) s = ok (q, s') \<Longrightarrow> session pkg s' ((L(p := None))(unat q \<mapsto> n))"
| written: "session pkg s L \<Longrightarrow> L p = Some n \<Longrightarrow> same_outside p (p + n) (heap_bytes s) m \<Longrightarrow>
    session pkg (s\<lparr>heap_bytes := m\<rparr>) L"

section \<open>The contract in every reachable state\<close>

context allocator
begin

text \<open>A pointer to a live payload fits into a word and is not NULL.\<close>

lemma live_word: "inv s L \<Longrightarrow> L p = Some n \<Longrightarrow> p < 4294967296 \<and> w32 p \<noteq> 0"
  using live_range [of s L p n] inv_arena [of s L] unat_u32_less [of "mem_brk s"]
  by (force simp: arena_ok_def)

lemma new_word: "inv s (L(a \<mapsto> n)) \<Longrightarrow> unat (w32 a) = a \<and> w32 a \<noteq> 0"
  using live_word [of s "L(a \<mapsto> n)" a n] by simp

lemma session_inv: "session pkg s L \<Longrightarrow> inv s L"
proof (induction rule: session.induct)
  case (start s s')
  with init_ok [of s] show ?case by auto
next
  case (served s L n p s')
  from malloc_ok [OF served(6,2,3)] served(4,5)
  obtain a where a: "p = w32 a" "inv s' (L(a \<mapsto> n))" by auto
  with new_word [of s' L a n] show ?case by (simp del: fun_upd_apply)
next
  case (refused s L n s')
  have "\<not> (w32 p = 0 \<and> inv s' (L(p \<mapsto> n)))" for p using new_word by blast
  with malloc_ok [OF refused(5,2,3)] refused(4,5) show ?case by (auto simp del: fun_upd_apply)
next
  case (freed s L p n s')
  with free_ok [of s L p n] show ?case by (auto simp del: fun_upd_apply)
next
  case (moved s L p k n q s')
  from realloc_ok [OF moved(6,2,3,4)] moved(5)
  obtain a where a: "q = w32 a" "inv s' ((L(p := None))(a \<mapsto> n))" by auto
  with new_word [of s' "L(p := None)" a n] show ?case by (simp del: fun_upd_apply)
next
  case (written s L p n m)
  then show ?case using write_ok by blast
qed

text \<open>Payloads are sound, and every admissible call returns or, for \<^verbatim>\<open>mm_realloc\<close>, exits.\<close>

lemma session_safe:
  assumes "session pkg s L"
  shows "L p = Some n \<Longrightarrow> 8 dvd p \<and> start_of s \<le> p \<and> p + n < brk_of s"
    and "L p = Some n \<Longrightarrow> L q = Some k \<Longrightarrow> p \<noteq> q \<Longrightarrow> p + n \<le> q \<or> q + k \<le> p"
    and "0 < j \<Longrightarrow> no_wrap s j \<Longrightarrow> \<exists>r s'. mm_malloc pkg (w32 j) s = ok (r, s')"
    and "L p = Some n \<Longrightarrow> \<exists>s'. mm_free pkg (w32 p) s = ok s'"
    and "L p = Some n \<Longrightarrow> 0 < j \<Longrightarrow> no_wrap s j \<Longrightarrow>
      mm_realloc pkg (w32 p) (w32 j) s = fail (Exit 1) \<or> (\<exists>q s'. mm_realloc pkg (w32 p) (w32 j) s = ok (q, s'))"
proof -
  note I = session_inv [OF assms]
  show "L p = Some n \<Longrightarrow> 8 dvd p \<and> start_of s \<le> p \<and> p + n < brk_of s"
    by (rule live_range [OF I])
  show "L p = Some n \<Longrightarrow> L q = Some k \<Longrightarrow> p \<noteq> q \<Longrightarrow> p + n \<le> q \<or> q + k \<le> p"
    by (rule live_disjoint [OF I])
  show "0 < j \<Longrightarrow> no_wrap s j \<Longrightarrow> \<exists>r s'. mm_malloc pkg (w32 j) s = ok (r, s')"
    using malloc_ok [OF I] by blast
  show "L p = Some n \<Longrightarrow> \<exists>s'. mm_free pkg (w32 p) s = ok s'"
    using free_ok [OF I] by blast
  show "L p = Some n \<Longrightarrow> 0 < j \<Longrightarrow> no_wrap s j \<Longrightarrow>
      mm_realloc pkg (w32 p) (w32 j) s = fail (Exit 1) \<or> (\<exists>q s'. mm_realloc pkg (w32 p) (w32 j) s = ok (q, s'))"
    using realloc_ok [OF I] by blast
qed

end

end
