(* ===== verification/FirstFit_Client.thy ===== *)
theory FirstFit_Client
  imports FirstFit_Correct Mdriver_Correct Sessions
begin

text \<open>
  The first-fit allocator seen by a client that remembers which payloads it holds: every
  entry point meets the contract of theory \<open>Allocator\<close>, so the locale's lemmas hold for it.
\<close>

section \<open>The client's view\<close>

text \<open>
  \<open>L\<close> maps the payload pointers a client holds to the sizes it asked for. Every allocated
  block is held by the client, with a capacity of at least the requested size.
\<close>

definition ff_client :: "ff \<Rightarrow> (nat \<rightharpoonup> nat) \<Rightarrow> bool" where
  "ff_client s L \<longleftrightarrow> (\<exists>bs. ff_inv s bs \<and> dom L = fst ` set (ff_payloads s bs)
     \<and> (\<forall>p c. (p, c) \<in> set (ff_payloads s bs) \<longrightarrow> (\<exists>n. L p = Some n \<and> n \<le> c)))"

lemma ff_client_live:
  assumes "ff_inv s bs" "dom L = fst ` set (ff_payloads s bs)"
    "\<forall>p c. (p, c) \<in> set (ff_payloads s bs) \<longrightarrow> (\<exists>n. L p = Some n \<and> n \<le> c)" "L p = Some n"
  obtains c where "(p, c) \<in> set (ff_payloads s bs)" "n \<le> c"
proof -
  from assms(2,4) obtain c where c: "(p, c) \<in> set (ff_payloads s bs)" by force
  with assms(3,4) that show thesis by fastforce
qed

text \<open>An allocated block splits the block list.\<close>

lemma payloads_split:
  "(p, c) \<in> set (payloads h bs) \<Longrightarrow> \<exists>xs n ys. bs = xs @ (n, True) # ys \<and> p = h + extent xs + 4 \<and> c = n - 8"
proof (induction bs arbitrary: h)
  case Nil
  then show ?case by simp
next
  case (Cons b bs)
  obtain k f where b: "b = (k, f)" by fastforce
  with Cons.prems consider "f" "p = h + 4" "c = k - 8" | "(p, c) \<in> set (payloads (h + k) bs)"
    by (auto split: if_splits)
  then show ?case
  proof cases
    case 1
    with b show ?thesis by (intro exI [of _ "[]"]) auto
  next
    case 2
    with Cons.IH obtain xs n ys where "bs = xs @ (n, True) # ys" "p = h + k + extent xs + 4" "c = n - 8"
      by blast
    with b show ?thesis by (intro exI [of _ "(k, f) # xs"]) auto
  qed
qed


section \<open>The first-fit allocator meets the contract\<close>

definition ff_package :: "ff mm_package" where
  "ff_package = \<lparr>mm_init = ff_mm_init, mm_malloc = ff_mm_malloc, mm_free = ff_mm_free,
     mm_realloc = ff_mm_realloc\<rparr>"

lemma ff_client_range:
  assumes "ff_client s L" "L p = Some n"
  shows "8 dvd p \<and> start_of s + 16 \<le> p \<and> p + n < brk_of s"
proof -
  obtain bs where inv: "ff_inv s bs" and d: "dom L = fst ` set (ff_payloads s bs)"
    and c: "\<forall>p c. (p, c) \<in> set (ff_payloads s bs) \<longrightarrow> (\<exists>n. L p = Some n \<and> n \<le> c)"
    using assms(1) by (auto simp: ff_client_def)
  obtain k where k: "(p, k) \<in> set (ff_payloads s bs)" "n \<le> k"
    using ff_client_live [OF inv d c assms(2)] .
  have "8 dvd start_of s + 12 + 4" using ff_invD(6) [OF inv] by simp
  then have "8 dvd p"
    using payload_aligned [OF _ ff_invD(1) [OF inv]] k(1) by (simp add: ff_payloads_def)
  moreover have "start_of s + 12 + 4 \<le> p \<and> p + k + 4 \<le> start_of s + 12 + extent bs"
    using payload_bounds [OF _ ff_invD(1) [OF inv]] k(1) by (simp add: ff_payloads_def)
  moreover have "brk_of s = start_of s + 16 + extent bs" using inv by (simp add: ff_inv_def)
  ultimately show ?thesis using k(2) by simp
qed

lemma ff_client_disjoint:
  assumes "ff_client s L" "L p = Some n" "L q = Some k" "p \<noteq> q"
  shows "p + n \<le> q \<or> q + k \<le> p"
proof -
  obtain bs where inv: "ff_inv s bs" and d: "dom L = fst ` set (ff_payloads s bs)"
    and c: "\<forall>p c. (p, c) \<in> set (ff_payloads s bs) \<longrightarrow> (\<exists>n. L p = Some n \<and> n \<le> c)"
    using assms(1) by (auto simp: ff_client_def)
  obtain i j where "(p, i) \<in> set (ff_payloads s bs)" "n \<le> i" "(q, j) \<in> set (ff_payloads s bs)" "k \<le> j"
    using ff_client_live [OF inv d c assms(2)] ff_client_live [OF inv d c assms(3)] by metis
  then show ?thesis
    using payloads_disjoint [of p i "start_of s + 12" bs q j, OF _ _ ff_invD(1) [OF inv]] assms(4)
    by (auto simp: ff_payloads_def)
qed

lemma ff_client_kept:
  assumes "ff_inv s bs" "dom L = fst ` set (ff_payloads s bs)"
    "\<forall>p c. (p, c) \<in> set (ff_payloads s bs) \<longrightarrow> (\<exists>n. L p = Some n \<and> n \<le> c)"
    "kept (ff_payloads s bs) m m'"
  shows "keeps_live L m m'"
  unfolding keeps_live_def
proof (intro allI impI)
  fix p n x assume L: "L p = Some n" and x: "p \<le> x" "x < p + n"
  obtain k where "(p, k) \<in> set (ff_payloads s bs)" "n \<le> k"
    using ff_client_live [OF assms(1-3) L] .
  with assms(4) x show "m' x = m x" unfolding kept_def by (meson add_left_mono less_le_trans)
qed

text \<open>Writing into a live payload.\<close>

lemma ff_client_write:
  assumes "ff_client s L" "L p = Some n" "same_outside p (p + n) (heap_bytes s) m'"
  shows "ff_client (s\<lparr>heap_bytes := m'\<rparr>) L"
proof -
  obtain bs where inv: "ff_inv s bs" and d: "dom L = fst ` set (ff_payloads s bs)"
    and c: "\<forall>p c. (p, c) \<in> set (ff_payloads s bs) \<longrightarrow> (\<exists>n. L p = Some n \<and> n \<le> c)"
    using assms(1) by (auto simp: ff_client_def)
  obtain k where k: "(p, k) \<in> set (ff_payloads s bs)" "n \<le> k"
    using ff_client_live [OF inv d c assms(2)] .
  have so: "same_outside p (p + k) (heap_bytes s) m'"
    by (rule same_outside_mono [OF assms(3)]) (use k in auto)
  have base: "chain (heap_bytes s) (start_of s + 4) ((8, True) # bs)"
    using inv by (simp add: ff_inv_def)
  have "(p, k) \<in> set (payloads (start_of s + 4) ((8, True) # bs))"
    using k by (simp add: ff_payloads_def ac_simps)
  from chain_payload_write [OF base this so]
  have "chain m' (start_of s + 4) ((8, True) # bs)" .
  moreover have "load32 m' (start_of s + 12 + extent bs) = load32 (heap_bytes s) (start_of s + 12 + extent bs)"
    using payload_bounds [OF k(1) [unfolded ff_payloads_def] ff_invD(1) [OF inv]]
    by (intro same_outside_load32 [OF so]) simp
  ultimately have "ff_inv (s\<lparr>heap_bytes := m'\<rparr>) bs"
    using inv by (simp add: ff_inv_def arena_ok_def)
  then show ?thesis using d c by (auto simp: ff_client_def ff_payloads_def)
qed


lemma ff_client_alloc:
  assumes inv': "ff_inv s' (xs @ place_blocks k a @ ys)" and a: "n + 8 \<le> a" "a \<le> k"
    and old: "set ps = set (payloads (start_of s' + 12) xs @ payloads (start_of s' + 12 + extent xs + k) ys)"
    and L: "dom L = fst ` set ps" "\<forall>p c. (p, c) \<in> set ps \<longrightarrow> (\<exists>n. L p = Some n \<and> n \<le> c)"
  shows "L (start_of s' + 16 + extent xs) = None"
    and "ff_client s' (L(start_of s' + 16 + extent xs \<mapsto> n))"
proof -
  let ?h = "start_of s' + 12" and ?p = "start_of s' + 16 + extent xs"
  have ext: "extent (place_blocks k a) = k" using a by (simp add: place_blocks_def)
  have ch: "chain (heap_bytes s') ?h xs" "chain (heap_bytes s') (?h + extent xs + k) ys"
    using ff_invD(1) [OF inv'] ext by simp_all
  have "?p \<noteq> q" if "(q, c) \<in> set ps" for q c
    using that a unfolding old
    by (auto dest!: payload_bounds [OF _ ch(1)] payload_bounds [OF _ ch(2)])
  then show new: "L ?p = None" using L(1) by force
  have pl: "ff_payloads s' (xs @ place_blocks k a @ ys) = payloads ?h xs
      @ (?p, (if 16 \<le> k - a then a else k) - 8) # payloads (?h + extent xs + k) ys"
    using place_blocks_payloads [OF a(2), of ?h xs ys] by (simp add: ff_payloads_def)
  then have set: "set (ff_payloads s' (xs @ place_blocks k a @ ys))
      = insert (?p, (if 16 \<le> k - a then a else k) - 8) (set ps)"
    using old by auto
  have "dom (L(?p \<mapsto> n)) = fst ` set (ff_payloads s' (xs @ place_blocks k a @ ys))"
    using L(1) by (auto simp: set)
  moreover have "\<exists>j. (L(?p \<mapsto> n)) q = Some j \<and> j \<le> c"
    if "(q, c) \<in> set (ff_payloads s' (xs @ place_blocks k a @ ys))" for q c
    using that a L(2) new unfolding set by (cases "q = ?p") (fastforce split: if_splits)+
  ultimately show "ff_client s' (L(?p \<mapsto> n))" using inv' unfolding ff_client_def by blast
qed


lemma ff_client_init:
  assumes "arena_ok s" "mem_brk s = mem_start_brk s"
  shows "\<exists>s'. ff_mm_init s = ok (0, s') \<and> same_arena s s' \<and> ff_client s' Map.empty"
proof -
  obtain s' where s': "ff_mm_init s = ok (0, s')" "start_of s' = start_of s" "top_of s' = top_of s"
      "ff_inv s' [(4096, False)]"
    using ff_mm_init_blocks [OF assms] by blast
  have "ff_client s' Map.empty"
    unfolding ff_client_def by (intro exI [of _ "[(4096, False)]"]) (use s' in \<open>simp add: ff_payloads_def\<close>)
  with s' show ?thesis by (auto simp: same_arena_def)
qed

text \<open>A block that was placed in a free one is a new live payload.\<close>

lemma ff_client_place:
  assumes inv: "ff_inv s bs" and d: "dom L = fst ` set (ff_payloads s bs)"
    and c: "\<forall>p c. (p, c) \<in> set (ff_payloads s bs) \<longrightarrow> (\<exists>n. L p = Some n \<and> n \<le> c)"
    and s': "start_of s' = start_of s" "top_of s' = top_of s" "ff_inv s' (xs @ place_blocks k (asize_of n) @ ys)"
      "kept (ff_payloads s bs) (heap_bytes s) (heap_bytes s')" and k: "asize_of n \<le> k"
    and pays: "set (ff_payloads s bs) = set (payloads (start_of s + 12) xs @ payloads (start_of s + 12 + extent xs + k) ys)"
    and p: "p = start_of s + 16 + extent xs"
  shows "same_arena s s' \<and> L p = None \<and> ff_client s' (L(p \<mapsto> n)) \<and> keeps_live L (heap_bytes s) (heap_bytes s')"
proof -
  have old: "set (ff_payloads s bs)
      = set (payloads (start_of s' + 12) xs @ payloads (start_of s' + 12 + extent xs + k) ys)"
    using pays s'(1) by simp
  note al = ff_client_alloc [OF s'(3) asize_of_props(3) k old d c]
  show ?thesis using al s'(1,2) ff_client_kept [OF inv d c s'(4)] by (simp add: same_arena_def p)
qed

lemma ff_client_malloc:
  assumes cl: "ff_client s L" and n: "0 < n" "no_wrap s n"
  shows "ff_mm_malloc (w32 n) s = ok (0, s)
    \<or> (\<exists>p s'. ff_mm_malloc (w32 n) s = ok (w32 p, s') \<and> same_arena s s' \<and> L p = None
        \<and> ff_client s' (L(p \<mapsto> n)) \<and> keeps_live L (heap_bytes s) (heap_bytes s'))"
proof -
  obtain bs where inv: "ff_inv s bs" and d: "dom L = fst ` set (ff_payloads s bs)"
    and c: "\<forall>p c. (p, c) \<in> set (ff_payloads s bs) \<longrightarrow> (\<exists>n. L p = Some n \<and> n \<le> c)"
    using cl by (auto simp: ff_client_def)
  let ?a = "asize_of n"
  note place = ff_client_place [OF inv d c _ _ _ _ _ _ refl]
  show ?thesis
  proof (cases "first_fit ?a bs")
    case (Some r)
    then obtain xs k ys where fit: "first_fit ?a bs = Some (xs, k, ys)" by (cases r) auto
    have "set (ff_payloads s bs) = set (payloads (start_of s + 12) xs @ payloads (start_of s + 12 + extent xs + k) ys)"
      using first_fit_Some [OF fit] by (simp add: ff_payloads_def)
    with place ff_malloc_fit [OF inv n fit] first_fit_Some [OF fit] show ?thesis by blast
  next
    case None
    obtain xs k ys where j: "join_blocks bs (grow_by ?a) [] = (xs, k, ys)"
      using prod_cases3 by blast
    have k: "?a \<le> k" using join_blocks_grow [OF j] by (simp add: grow_by_def)
    have pays: "set (ff_payloads s bs) = set (payloads (start_of s + 12) xs @ payloads (start_of s + 12 + extent xs + k) ys)"
      using join_blocks_payloads [OF j, of "start_of s + 12"] by (simp add: ff_payloads_def)
    show ?thesis
    proof (cases "has_room s ?a")
      case True
      from ff_malloc_grow [OF inv n None True j] place [OF _ _ _ _ k pays] show ?thesis by blast
    next
      case False
      from ff_malloc_full [OF inv n None False] show ?thesis by blast
    qed
  qed
qed

text \<open>\<open>mm_free\<close> of a live pointer, in terms of the block list.\<close>

lemma ff_client_free:
  assumes cl: "ff_client s L" and p: "L p = Some n"
  shows "\<exists>s'. ff_mm_free (w32 p) s = ok s' \<and> same_arena s s' \<and> ff_client s' (L(p := None))
      \<and> keeps_live (L(p := None)) (heap_bytes s) (heap_bytes s')"
proof -
  obtain bs where inv: "ff_inv s bs" and d: "dom L = fst ` set (ff_payloads s bs)"
    and c: "\<forall>p c. (p, c) \<in> set (ff_payloads s bs) \<longrightarrow> (\<exists>n. L p = Some n \<and> n \<le> c)"
    using cl by (auto simp: ff_client_def)
  obtain i where "(p, i) \<in> set (ff_payloads s bs)"
    using ff_client_live [OF inv d c p] .
  then obtain xs k ys where bs: "bs = xs @ (k, True) # ys" and pk: "p = start_of s + 16 + extent xs"
    using payloads_split [of p i "start_of s + 12" bs] by (auto simp: ff_payloads_def)
  obtain xs' k' ys' where j: "join_blocks xs k ys = (xs', k', ys')" using prod_cases3 by blast
  obtain s' where s': "ff_mm_free (w32 p) s = ok s'" "start_of s' = start_of s" "top_of s' = top_of s"
      "ff_inv s' (xs' @ (k', False) # ys')"
      "kept (ff_payloads s' (xs' @ (k', False) # ys')) (heap_bytes s) (heap_bytes s')"
    using ff_mm_free_blocks [OF inv [unfolded bs] j] pk by auto
  have "ff_payloads s' (xs' @ (k', False) # ys') = payloads (start_of s + 12) (xs @ (k, False) # ys)"
    using join_blocks_payloads [OF j] s'(2) by (simp only: ff_payloads_def)
  then have new: "ff_payloads s' (xs' @ (k', False) # ys')
      = payloads (start_of s + 12) xs @ payloads (start_of s + 12 + extent xs + k) ys" by simp
  have old: "ff_payloads s bs = payloads (start_of s + 12) xs @ (p, k - 8) # payloads (start_of s + 12 + extent xs + k) ys"
    using bs pk by (simp add: ff_payloads_def)
  have ch: "chain (heap_bytes s) (start_of s + 12) xs" "chain (heap_bytes s) (start_of s + 12 + extent xs + k) ys"
    using ff_invD(1) [OF inv] bs by simp_all
  have k8: "8 \<le> k" using ff_invD(1) [OF inv] bs by simp
  have notin: "q \<noteq> p" if "(q, e) \<in> set (ff_payloads s' (xs' @ (k', False) # ys'))" for q e
    using that k8 unfolding new pk
    by (auto dest!: payload_bounds [OF _ ch(1)] payload_bounds [OF _ ch(2)])
  have d': "dom (L(p := None)) = fst ` set (ff_payloads s' (xs' @ (k', False) # ys'))"
    using d notin unfolding old new by force
  have c': "\<forall>q e. (q, e) \<in> set (ff_payloads s' (xs' @ (k', False) # ys')) \<longrightarrow> (\<exists>n. (L(p := None)) q = Some n \<and> n \<le> e)"
    using c notin unfolding old new by auto
  have "ff_client s' (L(p := None))" unfolding ff_client_def using s'(4) d' c' by blast
  moreover have "keeps_live (L(p := None)) (heap_bytes s) (heap_bytes s')"
    by (rule ff_client_kept [OF s'(4) d' c' s'(5)])
  ultimately show ?thesis using s'(1-3) by (auto simp: same_arena_def)
qed


text \<open>The header of a live block, and how far its block reaches.\<close>

lemma ff_client_header:
  assumes cl: "ff_client s L" and p: "L p = Some n"
  shows "\<exists>z. GET_SIZE (HDRP (w32 p)) s = ok (w32 z) \<and> n + 8 \<le> z \<and> p + z \<le> brk_of s
    \<and> (\<forall>q k. L q = Some k \<longrightarrow> q \<noteq> p \<longrightarrow> p + z \<le> q \<or> q + k \<le> p)"
proof -
  obtain bs where inv: "ff_inv s bs" and d: "dom L = fst ` set (ff_payloads s bs)"
    and c: "\<forall>p c. (p, c) \<in> set (ff_payloads s bs) \<longrightarrow> (\<exists>n. L p = Some n \<and> n \<le> c)"
    using cl by (auto simp: ff_client_def)
  obtain i where i: "(p, i) \<in> set (ff_payloads s bs)" "n \<le> i"
    using ff_client_live [OF inv d c p] .
  then obtain xs z ys where bs: "bs = xs @ (z, True) # ys" and pk: "p = start_of s + 16 + extent xs"
    and iz: "i = z - 8"
    using payloads_split [of p i "start_of s + 12" bs] by (auto simp: ff_payloads_def)
  note D = ff_invD [OF inv]
  have z: "8 \<le> z" "8 dvd z" "load32 (heap_bytes s) (p - 4) = tag z True"
    using D(1) bs pk by (simp_all add: ac_simps)
  have "in_arena s (p - 4) 4" using D(4) bs pk by (simp add: in_arena_def)
  then have "GET_SIZE (HDRP (w32 p)) s = ok (w32 z)" using z pk by simp
  moreover have "p + z \<le> brk_of s" using inv bs pk by (simp add: ff_inv_def)
  moreover have "p + z \<le> q \<or> q + k \<le> p" if q: "L q = Some k" "q \<noteq> p" for q k
  proof -
    obtain j where j: "(q, j) \<in> set (ff_payloads s bs)" "k \<le> j"
      using ff_client_live [OF inv d c q(1)] .
    show ?thesis
      using payloads_disjoint [OF i(1) [unfolded ff_payloads_def] j(1) [unfolded ff_payloads_def] D(1)]
        q(2) iz z(1) j(2) by auto
  qed
  ultimately show ?thesis using i(2) iz z(1) by (intro exI [of _ z]) auto
qed

text \<open>The second half of \<^verbatim>\<open>mm_realloc\<close>: the bytes are copied to the new block, and the old one is freed.\<close>

lemma ff_client_copy:
  assumes cl: "ff_client s (L(q \<mapsto> n))" and p: "(L(q \<mapsto> n)) p = Some k" "q \<noteq> p" and n: "0 < n"
  shows "\<exists>z s2. GET_SIZE (HDRP (w32 p)) s = ok (w32 z) \<and> k + 8 \<le> z \<and> w32 q \<noteq> 0
    \<and> unat (if w32 n < w32 z then w32 n else w32 z) = min n z
    \<and> memcpy (w32 q) (w32 p) (min n z) s = ok s2 \<and> s2 = s\<lparr>heap_bytes := copy_bytes q p (min n z) (heap_bytes s)\<rparr>
    \<and> ff_client s2 (L(q \<mapsto> n))"
proof -
  obtain z where z: "GET_SIZE (HDRP (w32 p)) s = ok (w32 z)" "k + 8 \<le> z" "p + z \<le> brk_of s"
      "\<forall>r m. (L(q \<mapsto> n)) r = Some m \<longrightarrow> r \<noteq> p \<longrightarrow> p + z \<le> r \<or> r + m \<le> p"
    using ff_client_header [OF cl p(1)] by blast
  then have zq: "p + z \<le> q \<or> q + n \<le> p" using p(2) by simp
  have rq: "start_of s + 16 \<le> q" "q + n < brk_of s" and rp: "start_of s + 16 \<le> p"
    using ff_client_range [OF cl, of q n] ff_client_range [OF cl p(1)] by simp_all
  have brk: "brk_of s \<le> top_of s" "top_of s < 4294967296"
    using cl unat_u32_less [of "mem_max_addr s"] by (auto simp: ff_client_def ff_inv_def arena_ok_def)
  have lt: "q < 4294967296" "p < 4294967296" "z < 4294967296" "n < 4294967296"
    using rq rp z(3) brk by linarith+
  let ?c = "min n z"
  have "memcpy (w32 q) (w32 p) ?c s = ok (s\<lparr>heap_bytes := copy_bytes q p ?c (heap_bytes s)\<rparr>)"
    using n lt z(2,3) zq rq rp brk by (auto simp: memcpy_def memmove_def in_arena_def)
  moreover have "same_outside q (q + n) (heap_bytes s) (copy_bytes q p ?c (heap_bytes s))"
    by (rule same_outside_mono [OF same_outside_copy]) auto
  then have "ff_client (s\<lparr>heap_bytes := copy_bytes q p ?c (heap_bytes s)\<rparr>) (L(q \<mapsto> n))"
    by (intro ff_client_write [OF cl]) simp_all
  moreover have "unat (if w32 n < w32 z then w32 n else w32 z) = ?c" using lt by (simp add: min_def)
  moreover have "w32 q \<noteq> 0" using rq(1) lt by simp
  ultimately show ?thesis using z(1,2) by blast
qed

text \<open>The three steps on the bytes: a new payload, a copy into it, and the old one given up.\<close>

lemma moved_payload:
  assumes new: "keeps_live L m m1" and copy: "m2 = copy_bytes q p (min n z) m1"
    and old: "keeps_live ((L(q \<mapsto> n))(p := None)) m2 m3"
    and L: "L q = None" "L p = Some k" and z: "k + 8 \<le> z"
    and dis: "\<And>r l. L r = Some l \<Longrightarrow> r \<noteq> q \<Longrightarrow> r + l \<le> q \<or> q + n \<le> r"
  shows "keeps_live (L(p := None)) m m3" "\<forall>i < min k n. m3 (q + i) = m (p + i)"
proof -
  have qp: "q \<noteq> p" using L by auto
  show "keeps_live (L(p := None)) m m3"
    unfolding keeps_live_def
  proof (intro allI impI)
    fix r l x assume r: "(L(p := None)) r = Some l" and x: "r \<le> x" "x < r + l"
    then have Lr: "L r = Some l" "r \<noteq> p" "r \<noteq> q" using L by (auto split: if_splits)
    have "m3 x = m2 x" by (rule keeps_liveD [OF old]) (use Lr x in auto)
    then show "m3 x = m x" using dis [OF Lr(1,3)] x new Lr by (auto simp: copy copy_bytes_def keeps_live_def)
  qed
  show "\<forall>i < min k n. m3 (q + i) = m (p + i)"
  proof (intro allI impI)
    fix i assume i: "i < min k n"
    have "m3 (q + i) = m2 (q + i)" by (rule keeps_liveD [OF old]) (use i qp in auto)
    then show "m3 (q + i) = m (p + i)" using i z new L by (simp add: copy copy_bytes_def keeps_live_def)
  qed
qed

lemma ff_client_realloc_cases:
  assumes cl: "ff_client s L" and p: "L p = Some k" and n: "0 < n" "no_wrap s n"
  shows "ff_mm_malloc (w32 n) s = ok (0, s) \<and> ff_mm_realloc (w32 p) (w32 n) s = fail (Exit 1)
    \<or> (\<exists>q s'. ff_mm_realloc (w32 p) (w32 n) s = ok (w32 q, s') \<and> same_arena s s'
        \<and> (L(p := None)) q = None \<and> ff_client s' ((L(p := None))(q \<mapsto> n))
        \<and> keeps_live (L(p := None)) (heap_bytes s) (heap_bytes s')
        \<and> (\<forall>i < min k n. heap_bytes s' (q + i) = heap_bytes s (p + i)))"
proof -
  from ff_client_malloc [OF cl n] consider
      "ff_mm_malloc (w32 n) s = ok (0, s)"
    | q s1 where "ff_mm_malloc (w32 n) s = ok (w32 q, s1)" "same_arena s s1" "L q = None"
        "ff_client s1 (L(q \<mapsto> n))" "keeps_live L (heap_bytes s) (heap_bytes s1)" by blast
  then show ?thesis
  proof cases
    case 1
    then show ?thesis by (simp add: ff_mm_realloc_def)
  next
    case (2 q s1)
    have qp: "q \<noteq> p" and p1: "(L(q \<mapsto> n)) p = Some k" using 2(3) p by auto
    from ff_client_copy [OF 2(4) p1 qp n(1)] obtain z s2 where
      z: "GET_SIZE (HDRP (w32 p)) s1 = ok (w32 z)" "k + 8 \<le> z" "w32 q \<noteq> 0"
        "unat (if w32 n < w32 z then w32 n else w32 z) = min n z"
      and s2: "memcpy (w32 q) (w32 p) (min n z) s1 = ok s2"
        "s2 = s1\<lparr>heap_bytes := copy_bytes q p (min n z) (heap_bytes s1)\<rparr>" "ff_client s2 (L(q \<mapsto> n))" by blast
    obtain s3 where s3: "ff_mm_free (w32 p) s2 = ok s3" "same_arena s2 s3"
        "ff_client s3 ((L(q \<mapsto> n))(p := None))"
        "keeps_live ((L(q \<mapsto> n))(p := None)) (heap_bytes s2) (heap_bytes s3)"
      using ff_client_free [OF s2(3) p1] by blast
    have "ff_mm_realloc (w32 p) (w32 n) s = ok (w32 q, s3)"
      by (simp add: ff_mm_realloc_def 2(1) z(1,3,4) Let_def s2(1) s3(1) del: w32_less_iff w32_eq_0_iff)
    moreover have "(L(q \<mapsto> n))(p := None) = (L(p := None))(q \<mapsto> n)" using qp by auto
    moreover have "keeps_live (L(p := None)) (heap_bytes s) (heap_bytes s3)"
        "\<forall>i < min k n. heap_bytes s3 (q + i) = heap_bytes s (p + i)"
    proof -
      have m2: "heap_bytes s2 = copy_bytes q p (min n z) (heap_bytes s1)" by (simp add: s2(2))
      have dis: "r + l \<le> q \<or> q + n \<le> r" if "L r = Some l" "r \<noteq> q" for r l
        using ff_client_disjoint [OF 2(4), of r l q n] that by simp
      note moved = moved_payload [OF 2(5) m2 s3(4) 2(3) p z(2) dis]
      show "keeps_live (L(p := None)) (heap_bytes s) (heap_bytes s3)" by (rule moved(1))
      show "\<forall>i < min k n. heap_bytes s3 (q + i) = heap_bytes s (p + i)" by (rule moved(2))
    qed
    ultimately show ?thesis using s2(2) s3(2,3) 2(2,3)
      by (intro disjI2 exI [of _ q] exI [of _ s3]) (simp add: same_arena_def)
  qed
qed

lemmas ff_client_realloc = ff_client_realloc_cases [THEN disj_forward, OF _ _ _ _ conjunct2 asm_rl]

lemma ff_client_arena: "ff_client s L \<Longrightarrow> arena_ok s"
  by (auto simp: ff_client_def ff_inv_def)

interpretation ff: allocator ff_package ff_client
proof unfold_locales
  show "ff_client s L \<Longrightarrow> L p = Some n \<Longrightarrow> 8 dvd p \<and> start_of s \<le> p \<and> p + n < brk_of s" for s L p n
    using ff_client_range by fastforce
qed (simp_all add: ff_package_def ff_client_arena ff_client_disjoint ff_client_init ff_client_malloc
    ff_client_free ff_client_realloc ff_client_write del: fun_upd_apply min_less_iff_conj)

end
