(* ===== verification/FirstFit_Room.thy ===== *)
theory FirstFit_Room
  imports FirstFit_Client
begin

text \<open>
  How far the first-fit allocator moves the break, and that it serves every request the arena
  has room for.
\<close>

section \<open>The break\<close>

lemma PUT_brk: "PUT p v s = ok s' \<Longrightarrow> mem_brk s' = mem_brk s"
  by (auto simp: PUT_def split: if_splits)

lemma PUT_FTRP_brk: "PUT_FTRP p v s = ok s' \<Longrightarrow> mem_brk s' = mem_brk s"
  by (auto simp: PUT_FTRP_def elim!: bnd_eq_okE dest: PUT_brk)

lemma memcpy_brk: "memcpy d p n s = ok s' \<Longrightarrow> mem_brk s' = mem_brk s"
  by (auto simp: memcpy_def memmove_def split: if_splits)

lemmas put_brks = PUT_brk PUT_FTRP_brk memcpy_brk

lemma ff_coalesce_brk: "ff_coalesce p s = ok (q, s') \<Longrightarrow> mem_brk s' = mem_brk s"
  by (auto simp: ff_coalesce_def Let_def elim!: bnd_eq_okE dest!: put_brks split: if_splits)

lemma ff_free_brk: "ff_mm_free p s = ok s' \<Longrightarrow> mem_brk s' = mem_brk s"
  by (auto simp: ff_mm_free_def elim!: bnd_eq_okE dest!: put_brks ff_coalesce_brk)

lemma ff_realloc_brk:
  "ff_mm_malloc n s = ok (q, s1) \<Longrightarrow> ff_mm_realloc p n s = ok (r, s') \<Longrightarrow> mem_brk s' = mem_brk s1"
  by (auto simp: ff_mm_realloc_def Let_def elim!: bnd_eq_okE dest!: put_brks ff_free_brk split: if_splits)

lemma ff_inv_brk: "ff_inv s bs \<Longrightarrow> brk_of s = start_of s + 16 + extent bs"
  by (simp add: ff_inv_def)

section \<open>Requests with room\<close>

definition ff_grow :: "nat \<Rightarrow> nat" where
  "ff_grow n = max 4096 (n + 16)"

lemma place_blocks_extent: "a \<le> n \<Longrightarrow> extent (place_blocks n a) = n"
  by (simp add: place_blocks_def)

lemma malloc_blocks_extent:
  assumes "malloc_blocks a room bs = Some (off, bs')"
  shows "extent bs \<le> extent bs' \<and> extent bs' \<le> extent bs + max 4096 a \<and> off \<le> extent bs'"
proof (cases "first_fit a bs")
  case (Some r)
  then obtain xs n ys where r: "r = (xs, n, ys)" by (cases r) auto
  with assms Some first_fit_Some [of a bs xs n ys] show ?thesis
    by (auto simp: malloc_blocks_def place_blocks_extent)
next
  case None
  obtain xs n ys where j: "join_blocks bs (grow_by a) [] = (xs, n, ys)" using prod_cases3 by blast
  have "a \<le> n" using join_blocks_grow [OF j] by (simp add: grow_by_def)
  then show ?thesis using assms None j join_blocks_extent(1) [OF j]
    by (auto simp: malloc_blocks_def place_blocks_extent grow_by_def split: if_splits)
qed

lemma malloc_blocks_room: "malloc_blocks a True bs \<noteq> None"
  by (simp add: malloc_blocks_def split: option.splits prod.splits)

lemma ff_client_malloc_room:
  assumes cl: "ff_client s L" and n: "0 < n" "no_wrap s n" and room: "brk_of s + ff_grow n \<le> top_of s"
  shows "\<exists>p s'. ff_mm_malloc (w32 n) s = ok (p, s') \<and> p \<noteq> 0
    \<and> brk_of s \<le> brk_of s' \<and> brk_of s' \<le> brk_of s + ff_grow n"
proof -
  obtain bs where inv: "ff_inv s bs" using cl by (auto simp: ff_client_def)
  have A: "start_of s + 20971520 = top_of s" "start_of s \<le> brk_of s"
    using ff_client_arena [OF cl] by (auto simp: arena_ok_def)
  have a: "asize_of n \<le> n + 16" by (rule asize_of_props)
  have "has_room s (asize_of n)"
    using room a A by (auto simp: has_room_def grow_by_def ff_grow_def)
  then obtain off bs' where m: "malloc_blocks (asize_of n) (has_room s (asize_of n)) bs = Some (off, bs')"
    using malloc_blocks_room [of "asize_of n" bs] by auto
  with ff_mm_malloc_blocks [OF inv n] obtain s' where
      s': "ff_mm_malloc (w32 n) s = ok (w32 (start_of s + 16 + off), s')" "start_of s' = start_of s"
        "top_of s' = top_of s" "ff_inv s' bs'" by auto
  have e: "extent bs \<le> extent bs'" "extent bs' \<le> extent bs + ff_grow n"
    using malloc_blocks_extent [OF m] a by (auto simp: ff_grow_def)
  have b: "brk_of s \<le> brk_of s'" "brk_of s' \<le> brk_of s + ff_grow n"
    using ff_inv_brk [OF inv] ff_inv_brk [OF s'(4)] s'(2) e by simp_all
  have "start_of s + 16 + off < 4294967296"
    using malloc_blocks_extent [OF m] ff_inv_brk [OF s'(4)] s'(2) ff_invD(7) [OF s'(4)]
      unat_u32_less [of "mem_brk s'"] by simp
  then show ?thesis using s'(1) b by auto
qed

lemma ff_client_realloc_room:
  assumes cl: "ff_client s L" and p: "L p = Some k" and n: "0 < n" "no_wrap s n"
    and room: "brk_of s + ff_grow n \<le> top_of s"
  shows "\<exists>q s'. ff_mm_realloc (w32 p) (w32 n) s = ok (q, s')
    \<and> brk_of s \<le> brk_of s' \<and> brk_of s' \<le> brk_of s + ff_grow n"
proof -
  obtain q0 s0 where m: "ff_mm_malloc (w32 n) s = ok (q0, s0)" "q0 \<noteq> 0"
      "brk_of s \<le> brk_of s0" "brk_of s0 \<le> brk_of s + ff_grow n"
    using ff_client_malloc_room [OF cl n room] by blast
  from ff_client_realloc_cases [OF cl p n] m(1,2)
  obtain q s' where r: "ff_mm_realloc (w32 p) (w32 n) s = ok (w32 q, s')" by auto
  with ff_realloc_brk [OF m(1) r] m(3,4) show ?thesis by simp
qed

lemma ff_init_brk:
  assumes "arena_ok s" "mem_brk s = mem_start_brk s" "ff_mm_init s = ok (0, s')"
  shows "brk_of s' \<le> start_of s + 4112"
  using ff_mm_init_blocks [OF assms(1,2)] ff_inv_brk [of s' "[(4096, False)]"] assms(3) by auto

interpretation ff_room: growing_allocator ff_package ff_client 4112 ff_grow
  by unfold_locales (simp_all add: ff_package_def ff_init_brk ff_client_malloc_room ff_client_realloc_room
    ff_free_brk)

end
