(* ===== verification/SegList.thy ===== *)
theory SegList
  imports Chain
begin

text \<open>
  \<^verbatim>\<open>src/mm.c\<close>: the segregated-list allocator, one definition per C function. The theorems are in
  theory \<open>SegList_Correct\<close>.
\<close>

section \<open>State\<close>

text \<open>\<^verbatim>\<open>heap_listp\<close> and the array of list heads.\<close>

definition LISTS :: nat where "LISTS = 20"

record seg = mem +
  seg_listp :: u32
  sgrlists :: "u32 list"

section \<open>Macros that differ from those of the first-fit allocator\<close>

definition MIN_BSIZE :: u32 where "MIN_BSIZE = 16"
definition BUFFER :: u32 where "BUFFER = push_bit 7 1"

definition GET_TAG :: "u32 \<Rightarrow> 'a mem_scheme \<Rightarrow> u32 res" where
  "GET_TAG p s = bnd (GET p s) (\<lambda>w. ok (w AND 2))"

text \<open>\<^verbatim>\<open>PUT\<close> of this file keeps the reallocation tag; \<^verbatim>\<open>PUT_NOTAG\<close> and \<^verbatim>\<open>SET_BP\<close> are plain stores.\<close>

definition TPUT :: "u32 \<Rightarrow> u32 \<Rightarrow> 'a mem_scheme \<Rightarrow> 'a mem_scheme res" where
  "TPUT p v s = bnd (GET_TAG p s) (\<lambda>t. PUT p (v OR t) s)"

definition SET_TAG :: "u32 \<Rightarrow> 'a mem_scheme \<Rightarrow> 'a mem_scheme res" where
  "SET_TAG p s = bnd (GET p s) (\<lambda>w. PUT p (w OR 2) s)"

definition UNSET_TAG :: "u32 \<Rightarrow> 'a mem_scheme \<Rightarrow> 'a mem_scheme res" where
  "UNSET_TAG p s = bnd (GET p s) (\<lambda>w. PUT p (w AND NOT 2) s)"

definition PREV_BP :: "u32 \<Rightarrow> u32" where "PREV_BP bp = bp"
definition NEXT_BP :: "u32 \<Rightarrow> u32" where "NEXT_BP bp = bp + WSIZE"

definition NEXT_FREEP :: "u32 \<Rightarrow> 'a mem_scheme \<Rightarrow> u32 res" where
  "NEXT_FREEP bp s = GET bp s"

definition PREV_FREEP :: "u32 \<Rightarrow> 'a mem_scheme \<Rightarrow> u32 res" where
  "PREV_FREEP bp s = GET (NEXT_BP bp) s"

text \<open>\<^verbatim>\<open>PUT(FTRP(bp), v)\<close> and \<^verbatim>\<open>PUT_NOTAG(FTRP(bp), v)\<close>: the footer address comes from the header.\<close>

definition TPUT_FTRP :: "u32 \<Rightarrow> u32 \<Rightarrow> 'a mem_scheme \<Rightarrow> 'a mem_scheme res" where
  "TPUT_FTRP bp v s = bnd (FTRP bp s) (\<lambda>p. TPUT p v s)"

definition NPUT_FTRP :: "u32 \<Rightarrow> u32 \<Rightarrow> 'a mem_scheme \<Rightarrow> 'a mem_scheme res" where
  "NPUT_FTRP bp v s = bnd (FTRP bp s) (\<lambda>p. PUT p v s)"

text \<open>Storing a list head; the index is below \<open>LISTS\<close> by construction.\<close>

definition set_head :: "nat \<Rightarrow> u32 \<Rightarrow> seg \<Rightarrow> seg" where
  "set_head l p s = s\<lparr>sgrlists := (sgrlists s)[l := p]\<rparr>"

section \<open>Size classes\<close>

text \<open>The loop that selects a list: the list, and what is left of the size.\<close>

function select_list :: "nat \<Rightarrow> u32 \<Rightarrow> nat \<times> u32" where
  "select_list l sz =
     (if l < LISTS - 1 \<and> sz > 1 then select_list (Suc l) (drop_bit 1 sz) else (l, sz))"
  by pat_completeness auto

termination by (relation "measure (\<lambda>(l, _). LISTS - 1 - l)") auto

declare select_list.simps [simp del]

section \<open>The free lists\<close>

text \<open>The search for the place to insert at; a cyclic list would make it run forever.\<close>

partial_function (option) seg_search ::
  "u32 \<Rightarrow> u32 \<Rightarrow> u32 \<Rightarrow> 'a mem_scheme \<Rightarrow> (u32 \<times> u32) res" where
  "seg_search sz search_BP insert_BP s =
     (if search_BP \<noteq> 0 then
        bnd (GET_SIZE (HDRP search_BP) s) (\<lambda>k.
        if sz > k then bnd (NEXT_FREEP search_BP s) (\<lambda>next. seg_search sz next search_BP s)
        else ok (search_BP, insert_BP))
      else ok (search_BP, insert_BP))"

definition seg_insert_block :: "u32 \<Rightarrow> u32 \<Rightarrow> seg \<Rightarrow> seg res" where
  "seg_insert_block bp sz s =
     (let (l, sz) = select_list 0 sz in
      bnd (seg_search sz (sgrlists s ! l) 0 s) (\<lambda>(search_BP, insert_BP).
      if search_BP \<noteq> 0 then
        if insert_BP \<noteq> 0 then
          bnd (PUT (PREV_BP bp) search_BP s) (\<lambda>s.
          bnd (PUT (NEXT_BP search_BP) bp s) (\<lambda>s.
          bnd (PUT (NEXT_BP bp) insert_BP s) (\<lambda>s.
          PUT (PREV_BP insert_BP) bp s)))
        else
          bnd (PUT (PREV_BP bp) search_BP s) (\<lambda>s.
          bnd (PUT (NEXT_BP search_BP) bp s) (\<lambda>s.
          bnd (PUT (NEXT_BP bp) 0 s) (\<lambda>s.
          ok (set_head l bp s))))
      else
        if insert_BP \<noteq> 0 then
          bnd (PUT (PREV_BP bp) 0 s) (\<lambda>s.
          bnd (PUT (NEXT_BP bp) insert_BP s) (\<lambda>s.
          PUT (PREV_BP insert_BP) bp s))
        else
          bnd (PUT (PREV_BP bp) 0 s) (\<lambda>s.
          bnd (PUT (NEXT_BP bp) 0 s) (\<lambda>s.
          ok (set_head l bp s)))))"

definition seg_delete_block :: "u32 \<Rightarrow> seg \<Rightarrow> seg res" where
  "seg_delete_block bp s =
     bnd (GET_SIZE (HDRP bp) s) (\<lambda>sz.
     let (l, sz) = select_list 0 sz in
     bnd (NEXT_FREEP bp s) (\<lambda>next.
     bnd (PREV_FREEP bp s) (\<lambda>prev.
     if next \<noteq> 0 then
       if prev \<noteq> 0 then
         bnd (PUT (NEXT_BP next) prev s) (\<lambda>s.
         bnd (PREV_FREEP bp s) (\<lambda>prev.
         bnd (NEXT_FREEP bp s) (\<lambda>next.
         PUT (PREV_BP prev) next s)))
       else
         bnd (PUT (NEXT_BP next) 0 s) (\<lambda>s.
         bnd (NEXT_FREEP bp s) (\<lambda>next.
         ok (set_head l next s)))
     else
       if prev \<noteq> 0 then PUT (PREV_BP prev) 0 s
       else ok (set_head l 0 s))))"

section \<open>Coalescing, extending, placing\<close>

definition seg_coalesce :: "u32 \<Rightarrow> seg \<Rightarrow> (u32 \<times> seg) res" where
  "seg_coalesce bp s =
     bnd (PREV_BLKP bp s) (\<lambda>prev.
     bnd (GET_ALLOC (HDRP prev) s) (\<lambda>prev_alloc.
     bnd (NEXT_BLKP bp s) (\<lambda>next.
     bnd (GET_ALLOC (HDRP next) s) (\<lambda>next_alloc.
     bnd (GET_SIZE (HDRP bp) s) (\<lambda>sz.
     if prev_alloc \<noteq> 0 \<and> next_alloc \<noteq> 0 then ok (bp, s)
     else
       bnd (GET_TAG (HDRP prev) s) (\<lambda>tg.
       let prev_alloc = (if tg \<noteq> 0 then 1 else prev_alloc) in
       bnd (seg_delete_block bp s) (\<lambda>s.
       bnd
         (if prev_alloc \<noteq> 0 \<and> next_alloc = 0 then
            bnd (NEXT_BLKP bp s) (\<lambda>next.
            bnd (seg_delete_block next s) (\<lambda>s.
            bnd (NEXT_BLKP bp s) (\<lambda>next.
            bnd (GET_SIZE (HDRP next) s) (\<lambda>k.
            let sz = sz + k in
            bnd (TPUT (HDRP bp) (PACK sz 0) s) (\<lambda>s.
            bnd (TPUT_FTRP bp (PACK sz 0) s) (\<lambda>s.
            ok (bp, sz, s)))))))
          else if prev_alloc = 0 \<and> next_alloc \<noteq> 0 then
            bnd (PREV_BLKP bp s) (\<lambda>prev.
            bnd (seg_delete_block prev s) (\<lambda>s.
            bnd (PREV_BLKP bp s) (\<lambda>prev.
            bnd (GET_SIZE (HDRP prev) s) (\<lambda>k.
            let sz = sz + k in
            bnd (TPUT_FTRP bp (PACK sz 0) s) (\<lambda>s.
            bnd (PREV_BLKP bp s) (\<lambda>prev.
            bnd (TPUT (HDRP prev) (PACK sz 0) s) (\<lambda>s.
            bnd (PREV_BLKP bp s) (\<lambda>bp.
            ok (bp, sz, s)))))))))
          else
            bnd (PREV_BLKP bp s) (\<lambda>prev.
            bnd (seg_delete_block prev s) (\<lambda>s.
            bnd (NEXT_BLKP bp s) (\<lambda>next.
            bnd (seg_delete_block next s) (\<lambda>s.
            bnd (PREV_BLKP bp s) (\<lambda>prev.
            bnd (GET_SIZE (HDRP prev) s) (\<lambda>k.
            bnd (NEXT_BLKP bp s) (\<lambda>next.
            bnd (GET_SIZE (HDRP next) s) (\<lambda>j.
            let sz = sz + (k + j) in
            bnd (TPUT (HDRP prev) (PACK sz 0) s) (\<lambda>s.
            bnd (NEXT_BLKP bp s) (\<lambda>next.
            bnd (TPUT_FTRP next (PACK sz 0) s) (\<lambda>s.
            bnd (PREV_BLKP bp s) (\<lambda>bp.
            ok (bp, sz, s))))))))))))))
         (\<lambda>(bp, sz, s).
       bnd (seg_insert_block bp sz s) (\<lambda>s. ok (bp, s))))))))))"

definition seg_extend_heap :: "u32 \<Rightarrow> seg \<Rightarrow> (u32 \<times> seg) res" where
  "seg_extend_heap words s =
     (let sz = (if words mod 2 \<noteq> 0 then (words + 1) * WSIZE else words * WSIZE);
          sz = (if sz < OVERHEAD then OVERHEAD else sz);
          (bp, s) = mem_sbrk sz s
      in if bp = -1 then ok (0, s)
         else
           bnd (PUT (HDRP bp) (PACK sz 0) s) (\<lambda>s.
           bnd (NPUT_FTRP bp (PACK sz 0) s) (\<lambda>s.
           bnd (NEXT_BLKP bp s) (\<lambda>next.
           bnd (PUT (HDRP next) (PACK 0 1) s) (\<lambda>s.
           bnd (seg_insert_block bp sz s) (\<lambda>s.
           seg_coalesce bp s))))))"

definition seg_place :: "u32 \<Rightarrow> u32 \<Rightarrow> seg \<Rightarrow> seg res" where
  "seg_place bp asize s =
     bnd (GET_SIZE (HDRP bp) s) (\<lambda>bp_size.
     let remainder = bp_size - asize in
     bnd (seg_delete_block bp s) (\<lambda>s.
     if remainder \<ge> MIN_BSIZE then
       bnd (TPUT (HDRP bp) (PACK asize 1) s) (\<lambda>s.
       bnd (TPUT_FTRP bp (PACK asize 1) s) (\<lambda>s.
       bnd (NEXT_BLKP bp s) (\<lambda>next.
       bnd (PUT (HDRP next) (PACK remainder 0) s) (\<lambda>s.
       bnd (NEXT_BLKP bp s) (\<lambda>next.
       bnd (NPUT_FTRP next (PACK remainder 0) s) (\<lambda>s.
       bnd (NEXT_BLKP bp s) (\<lambda>next.
       seg_insert_block next remainder s)))))))
     else
       bnd (TPUT (HDRP bp) (PACK bp_size 1) s) (\<lambda>s.
       TPUT_FTRP bp (PACK bp_size 1) s)))"

section \<open>The interface\<close>

definition seg_mm_init :: "seg \<Rightarrow> (int \<times> seg) res" where
  "seg_mm_init s =
     (let s = s\<lparr>sgrlists := replicate LISTS 0\<rparr>;
          (p, s) = mem_sbrk (4 * WSIZE) s; s = s\<lparr>seg_listp := p\<rparr>
      in if seg_listp s = -1 then ok (-1, s)
         else
           bnd (PUT (seg_listp s) 0 s) (\<lambda>s.
           bnd (PUT (seg_listp s + 1 * WSIZE) (PACK DSIZE 1) s) (\<lambda>s.
           bnd (PUT (seg_listp s + 2 * WSIZE) (PACK DSIZE 1) s) (\<lambda>s.
           bnd (PUT (seg_listp s + 3 * WSIZE) (PACK 0 1) s) (\<lambda>s.
           let s = s\<lparr>seg_listp := seg_listp s + DSIZE\<rparr> in
           bnd (seg_extend_heap (CHUNKSIZE div WSIZE) s) (\<lambda>(bp, s).
           if bp = 0 then ok (-1, s) else ok (0, s)))))))"

text \<open>The adjusted block size, in \<^verbatim>\<open>mm_malloc\<close> and \<^verbatim>\<open>mm_realloc\<close> alike.\<close>

definition seg_asize :: "u32 \<Rightarrow> u32" where
  "seg_asize sz =
     (if sz \<le> DSIZE then 2 * DSIZE else DSIZE * ((sz + DSIZE + (DSIZE - 1)) div DSIZE))"

text \<open>The inner loop of \<^verbatim>\<open>mm_malloc\<close>: along one list to the first block that is large enough and untagged.\<close>

partial_function (option) seg_fit_loop :: "u32 \<Rightarrow> u32 \<Rightarrow> 'a mem_scheme \<Rightarrow> u32 res" where
  "seg_fit_loop asize bp s =
     (if bp \<noteq> 0 then
        bnd (GET_SIZE (HDRP bp) s) (\<lambda>k.
        bnd (if asize > k then ok True else bnd (GET_TAG (HDRP bp) s) (\<lambda>t. ok (t \<noteq> 0))) (\<lambda>go.
        if go then bnd (NEXT_FREEP bp s) (\<lambda>next. seg_fit_loop asize next s)
        else ok bp))
      else ok bp)"

text \<open>
  The outer loop. The source increments \<^verbatim>\<open>list\<close> nowhere in it: every round looks at the same
  list, and only \<^verbatim>\<open>size\<close> changes.
\<close>

partial_function (option) seg_list_loop :: "u32 \<Rightarrow> nat \<Rightarrow> u32 \<Rightarrow> u32 \<Rightarrow> seg \<Rightarrow> u32 res" where
  "seg_list_loop asize list sz bp s =
     (if list < LISTS then
        if sz \<le> 1 \<and> sgrlists s ! list \<noteq> 0 \<or> list = LISTS - 1 then
          bnd (seg_fit_loop asize (sgrlists s ! list) s) (\<lambda>bp.
          if bp \<noteq> 0 then ok bp else seg_list_loop asize list (drop_bit 1 sz) bp s)
        else seg_list_loop asize list (drop_bit 1 sz) bp s
      else ok bp)"

text \<open>
  The guard after the loop reads a variable \<^verbatim>\<open>ptr\<close> that the file does not declare, so the source
  does not compile as it stands; its value is the parameter \<open>ptr\<close>.
\<close>

definition seg_mm_malloc :: "u32 \<Rightarrow> u32 \<Rightarrow> seg \<Rightarrow> (u32 \<times> seg) res" where
  "seg_mm_malloc ptr sz s =
     (if sz \<le> 0 then ok (0, s)
      else
        let asize = seg_asize sz in
        bnd (seg_list_loop asize 0 asize 0 s) (\<lambda>bp.
        bnd (if ptr = 0 then seg_extend_heap (CMAX asize CHUNKSIZE div WSIZE) s
             else ok (bp, s)) (\<lambda>(bp, s).
        if ptr = 0 \<and> bp = 0 then ok (0, s)
        else bnd (seg_place bp asize s) (\<lambda>s. ok (bp, s)))))"

definition seg_mm_free :: "u32 \<Rightarrow> seg \<Rightarrow> seg res" where
  "seg_mm_free bp s =
     bnd (GET_SIZE (HDRP bp) s) (\<lambda>sz.
     bnd (NEXT_BLKP bp s) (\<lambda>next.
     bnd (UNSET_TAG (HDRP next) s) (\<lambda>s.
     bnd (TPUT (HDRP bp) (PACK sz 0) s) (\<lambda>s.
     bnd (TPUT_FTRP bp (PACK sz 0) s) (\<lambda>s.
     bnd (seg_insert_block bp sz s) (\<lambda>s.
     bnd (seg_coalesce bp s) (\<lambda>(_, s). ok s)))))))"

text \<open>
  \<^verbatim>\<open>block_buffer\<close> and \<^verbatim>\<open>remainder\<close> are C \<^verbatim>\<open>int\<close>s: unsigned differences read as signed numbers.
  \<^verbatim>\<open>extend_heap\<close> takes words, and is handed \<^verbatim>\<open>extendsize\<close> bytes.
\<close>

definition seg_mm_realloc :: "u32 \<Rightarrow> u32 \<Rightarrow> u32 \<Rightarrow> seg \<Rightarrow> (u32 \<times> seg) res" where
  "seg_mm_realloc ptr bp sz s =
     (if sz = 0 then ok (0, s)
      else
        let new_size = seg_asize sz + BUFFER in
        bnd (GET_SIZE (HDRP bp) s) (\<lambda>k.
        let block_buffer = k - new_size in
        bnd
          (if block_buffer <s 0 then
             bnd (NEXT_BLKP bp s) (\<lambda>next.
             bnd (GET_ALLOC (HDRP next) s) (\<lambda>next_alloc.
             bnd (GET_SIZE (HDRP next) s) (\<lambda>next_size.
             bnd
               (if next_alloc = 0 \<or> next_size = 0 then
                  let remainder = k + next_size - new_size in
                  bnd
                    (if remainder <s 0 then
                       let extendsize = (if CHUNKSIZE <s - remainder then - remainder else CHUNKSIZE) in
                       bnd (seg_extend_heap extendsize s) (\<lambda>(p, s).
                       ok (p \<noteq> 0, remainder + extendsize, s))
                     else ok (True, remainder, s)) (\<lambda>(fine, remainder, s).
                  if \<not> fine then ok (None, s)
                  else
                    bnd (NEXT_BLKP bp s) (\<lambda>next.
                    bnd (seg_delete_block next s) (\<lambda>s.
                    bnd (PUT (HDRP bp) (PACK (new_size + remainder) 1) s) (\<lambda>s.
                    bnd (NPUT_FTRP bp (PACK (new_size + remainder) 1) s) (\<lambda>s.
                    ok (Some bp, s))))))
                else
                  bnd (seg_mm_malloc ptr (new_size - DSIZE) s) (\<lambda>(new_BP, s).
                  bnd (memmove new_BP bp (unat (min sz new_size)) s) (\<lambda>s.
                  bnd (seg_mm_free bp s) (\<lambda>s.
                  ok (Some new_BP, s))))) (\<lambda>(r, s).
             case r of
               None \<Rightarrow> ok (None, s)
             | Some new_BP \<Rightarrow>
                 bnd (GET_SIZE (HDRP new_BP) s) (\<lambda>k. ok (Some (new_BP, k - new_size), s))))))
           else ok (Some (bp, block_buffer), s)) (\<lambda>(r, s).
        case r of
          None \<Rightarrow> ok (0, s)
        | Some (new_BP, block_buffer) \<Rightarrow>
            bnd (if block_buffer <s 2 * BUFFER
                 then bnd (NEXT_BLKP new_BP s) (\<lambda>next. SET_TAG (HDRP next) s)
                 else ok s) (\<lambda>s.
            ok (new_BP, s)))))"

end
