(* ===== verification/SegList_Lists.thy ===== *)
theory SegList_Lists
  imports SegList
begin

text \<open>
  The doubly linked free lists of \<^verbatim>\<open>src/mm.c\<close>: the size classes, what \<^verbatim>\<open>insert_block\<close> and
  \<^verbatim>\<open>delete_block\<close> do to a list, and where the search for a fit goes.
\<close>

section \<open>Size classes\<close>

lemma LISTS_val [simp]: "LISTS = 20"
  by (simp add: LISTS_def)

lemma one_less_w32 [simp]: "n < 4294967296 \<Longrightarrow> 1 < w32 n \<longleftrightarrow> 1 < n"
  by (simp add: word_less_nat_alt)

lemma drop_bit_w32: "n < 2 ^ 32 \<Longrightarrow> drop_bit k (w32 n) = w32 (n div 2 ^ k)"
proof -
  assume n: "n < 2 ^ 32"
  have "n div 2 ^ k < 2 ^ 32" by (rule le_less_trans [OF div_le_dividend n])
  then have "n div 2 ^ k < 4294967296" by simp
  then have "unat (drop_bit k (w32 n)) = unat (w32 (n div 2 ^ k))"
    using n by (simp add: unat_drop_bit_eq drop_bit_nat_def)
  then show ?thesis by (simp only: word_unat_eq_iff)
qed

text \<open>The list is the logarithm of the size, capped at the last list.\<close>

lemma select_list_from:
  assumes "l + k < 19" "2 ^ k \<le> n" "n < 2 ^ Suc k" "n < 2 ^ 32"
  shows "select_list l (w32 n) = (l + k, 1)"
  using assms
proof (induction k arbitrary: l n)
  case 0
  then have "n = 1" by simp
  then have "w32 n = 1" by (simp add: w32_def)
  then show ?case using 0 by (subst select_list.simps) simp
next
  case (Suc k)
  have "1 < n" using Suc.prems(2) zero_less_power [of "2 :: nat" k] unfolding power_Suc by linarith
  moreover have "2 ^ k \<le> n div 2" "n div 2 < 2 ^ Suc k" using Suc.prems(2,3) by auto
  ultimately show ?case
    using Suc.IH [of "Suc l" "n div 2"] Suc.prems(1,4) drop_bit_w32 [of n 1]
    by (subst select_list.simps) simp
qed

lemma select_list_big_from:
  assumes "l \<le> 19" "2 ^ (19 - l) \<le> n" "n < 2 ^ 32"
  shows "select_list l (w32 n) = (19, w32 (n div 2 ^ (19 - l)))"
  using assms
proof (induction "19 - l" arbitrary: l n)
  case 0
  then show ?case by (subst select_list.simps) simp
next
  case (Suc k)
  then have l: "l < 19" "19 - Suc l = k" by simp_all
  have n: "2 ^ Suc k \<le> n" using Suc.prems(2) Suc.hyps(2) by simp
  have "1 < n" using n zero_less_power [of "2 :: nat" k] unfolding power_Suc by linarith
  moreover have "2 ^ k \<le> n div 2" using n by auto
  then have "select_list (Suc l) (w32 (n div 2)) = (19, w32 (n div 2 div 2 ^ k))"
    using Suc.hyps(1) [of "Suc l" "n div 2"] Suc.prems(3) l by simp
  moreover have "n div 2 div 2 ^ k = n div 2 ^ (19 - l)"
    using Suc.hyps(2) [symmetric] by (simp add: div_mult2_eq)
  ultimately show ?case using drop_bit_w32 [OF Suc.prems(3), of 1] l Suc.prems(3)
    by (subst select_list.simps) simp
qed

lemma select_list_small:
  "k < 19 \<Longrightarrow> 2 ^ k \<le> n \<Longrightarrow> n < 2 ^ Suc k \<Longrightarrow> select_list 0 (w32 n) = (k, 1)"
  using select_list_from [of 0 k n] power_strict_increasing [of "Suc k" 32 "2 :: nat"] by auto

lemma select_list_large:
  "2 ^ 19 \<le> n \<Longrightarrow> n < 2 ^ 32 \<Longrightarrow> select_list 0 (w32 n) = (19, w32 (n div 2 ^ 19))"
  using select_list_big_from [of 0 n] by simp

text \<open>Below \<open>2 ^ 20\<close> the shifts leave 1 of the size.\<close>

lemma select_list_one:
  assumes "0 < unat sz" "unat sz < 2 ^ 20" "select_list 0 sz = (l, z)" shows "z = 1"
proof -
  have sz: "sz = w32 (unat sz)" by (simp add: w32_def)
  show ?thesis
  proof (cases "unat sz < 2 ^ 19")
    case True
    obtain j where j: "2 ^ j \<le> unat sz" "unat sz < 2 ^ Suc j"
      using ex_power_ivl1 [of 2 "unat sz"] assms(1) by auto
    have "(2 :: nat) ^ j < 2 ^ 19" using True j(1) by (rule le_less_trans [rotated])
    then have "j < 19" by (simp only: power_strict_increasing_iff)
    then show ?thesis using select_list_small [of j "unat sz"] j assms(3) sz by simp
  next
    case False
    then have "unat sz div 2 ^ 19 = 1" using assms(2) by (intro div_nat_eqI) auto
    then show ?thesis using select_list_large [of "unat sz"] False assms(2,3) sz by (simp add: w32_1)
  qed
qed

lemma select_list_index: "l \<le> 19 \<Longrightarrow> fst (select_list l z) \<le> 19"
proof (induction l z rule: select_list.induct)
  case (1 l z)
  then show ?case by (subst select_list.simps) auto
qed

section \<open>Linked lists in memory\<close>

text \<open>
  \<open>dlist m pr p xs\<close>: from pointer \<open>p\<close>, whose block has predecessor \<open>pr\<close>, the links spell the
  block addresses \<open>xs\<close>. The word at a block is the link to the next block, the one behind it
  the link back. \<open>dseg\<close> is a segment that ends in pointer \<open>q\<close> with predecessor \<open>r\<close>.
\<close>

fun dlist :: "memory \<Rightarrow> u32 \<Rightarrow> u32 \<Rightarrow> nat list \<Rightarrow> bool" where
  "dlist m pr p [] \<longleftrightarrow> p = 0"
| "dlist m pr p (a # xs) \<longleftrightarrow> p = w32 a \<and> load32 m (a + 4) = pr \<and> dlist m (w32 a) (load32 m a) xs"

fun dseg :: "memory \<Rightarrow> u32 \<Rightarrow> u32 \<Rightarrow> nat list \<Rightarrow> u32 \<Rightarrow> u32 \<Rightarrow> bool" where
  "dseg m pr p [] q r \<longleftrightarrow> p = q \<and> pr = r"
| "dseg m pr p (a # xs) q r \<longleftrightarrow> p = w32 a \<and> load32 m (a + 4) = pr \<and> dseg m (w32 a) (load32 m a) xs q r"

lemma dlist_append: "dlist m pr p (xs @ ys) \<longleftrightarrow> (\<exists>q r. dseg m pr p xs q r \<and> dlist m r q ys)"
  by (induction xs arbitrary: pr p) auto

lemma dseg_snoc:
  "dseg m pr p (xs @ [a]) q r \<longleftrightarrow> (\<exists>r'. dseg m pr p xs (w32 a) r' \<and> load32 m (a + 4) = r')
     \<and> q = load32 m a \<and> r = w32 a"
  by (induction xs arbitrary: pr p) auto

text \<open>The blocks of a list: aligned, inside the arena, each listed once.\<close>

definition nodes_ok :: "'a mem_scheme \<Rightarrow> nat list \<Rightarrow> bool" where
  "nodes_ok s xs \<longleftrightarrow> distinct xs \<and> (\<forall>a \<in> set xs. 0 < a \<and> 8 dvd a \<and> in_arena s a 8)"

lemma nodes_apart:
  assumes "8 dvd (a :: nat)" "8 dvd b" "a \<noteq> b"
  shows "a + 8 \<le> b \<or> b + 8 \<le> a"
  using assms by (auto elim!: dvdE)

lemma nodes_okD:
  assumes "nodes_ok s xs" "a \<in> set xs"
  shows "0 < a" "8 dvd a" "in_arena s a 4" "in_arena s (a + 4) 4" "w32 a \<noteq> 0" "a < 4294967296" "a + 4 < 4294967296"
  using assms in_arena_bound [of s a 8] by (auto simp: nodes_ok_def in_arena_def)

text \<open>Bytes outside the blocks of \<open>xs\<close> are the same.\<close>

definition only_nodes :: "nat list \<Rightarrow> memory \<Rightarrow> memory \<Rightarrow> bool" where
  "only_nodes xs m m' \<longleftrightarrow> (\<forall>y. (\<forall>a \<in> set xs. y < a \<or> a + 8 \<le> y) \<longrightarrow> m' y = m y)"

lemma dlist_cong:
  "dlist m pr p xs \<Longrightarrow> (\<And>a. a \<in> set xs \<Longrightarrow> load32 m' a = load32 m a \<and> load32 m' (a + 4) = load32 m (a + 4))
    \<Longrightarrow> dlist m' pr p xs"
  by (induction xs arbitrary: pr p) auto

lemma dseg_cong:
  "dseg m pr p xs q r \<Longrightarrow> (\<And>a. a \<in> set xs \<Longrightarrow> load32 m' a = load32 m a \<and> load32 m' (a + 4) = load32 m (a + 4))
    \<Longrightarrow> dseg m' pr p xs q r"
  by (induction xs arbitrary: pr p) auto

text \<open>Stores into one node do not touch the links of another.\<close>

lemma load_other_node [simp]:
  assumes "8 dvd (a :: nat)" "8 dvd b" "a \<noteq> b"
  shows "load32 (store32 m a v) b = load32 m b" "load32 (store32 m a v) (b + 4) = load32 m (b + 4)"
    "load32 (store32 m (a + 4) v) b = load32 m b" "load32 (store32 m (a + 4) v) (b + 4) = load32 m (b + 4)"
  using nodes_apart [OF assms] by (auto intro!: load32_store32_other)

section \<open>Inserting a block\<close>

lemma next_bp_w32: "NEXT_BP (w32 a) = w32 (a + 4)"
  by (simp add: NEXT_BP_def WSIZE_def w32_numeral)

lemma prev_bp_w32: "PREV_BP (w32 a) = w32 a"
  by (simp add: PREV_BP_def)

lemmas bp_defs = next_bp_w32 prev_bp_w32 NEXT_FREEP_def PREV_FREEP_def

text \<open>The search stops at once when the first block is at least as large as the shifted size.\<close>

lemma seg_search_front:
  "p = 0 \<or> (\<exists>k. GET_SIZE (HDRP p) s = ok k \<and> z \<le> k) \<Longrightarrow> seg_search z p 0 s = ok (p, 0)"
  by (subst seg_search.simps) (auto simp: not_less)

text \<open>The state with \<open>a\<close> in front of the blocks \<open>xs\<close>.\<close>

definition push_mem :: "memory \<Rightarrow> nat \<Rightarrow> nat list \<Rightarrow> memory" where
  "push_mem m a xs =
     (case xs of
        [] \<Rightarrow> store32 (store32 m a 0) (a + 4) 0
      | b # _ \<Rightarrow> store32 (store32 (store32 m a (w32 b)) (b + 4) (w32 a)) (a + 4) 0)"

lemma push_mem_dlist:
  assumes d: "dlist m 0 p xs" and n: "nodes_ok s (a # xs)"
  shows "dlist (push_mem m a xs) 0 (w32 a) (a # xs)" "only_nodes (a # xs) m (push_mem m a xs)"
proof -
  have al: "8 dvd a" "\<forall>x \<in> set xs. 8 dvd x \<and> x \<noteq> a" "distinct xs"
    using n by (auto simp: nodes_ok_def)
  show "dlist (push_mem m a xs) 0 (w32 a) (a # xs)"
  proof (cases xs)
    case Nil
    then show ?thesis by (simp add: push_mem_def)
  next
    case (Cons b ys)
    then have ab: "8 dvd b" "a \<noteq> b" "b \<noteq> a" and ys: "\<forall>x \<in> set ys. 8 dvd x \<and> x \<noteq> a \<and> x \<noteq> b"
      using al by auto
    have "dlist (push_mem m a xs) (w32 b) (load32 m b) ys"
      by (rule dlist_cong [of m]) (use d Cons ys al(1) ab in \<open>auto simp: push_mem_def\<close>)
    then show ?thesis using d Cons ab al(1) by (simp add: push_mem_def)
  qed
  show "only_nodes (a # xs) m (push_mem m a xs)"
    by (auto simp: only_nodes_def push_mem_def split: list.splits)
qed

text \<open>Besides the new block only the first block of the list is written.\<close>

lemma push_mem_only: "only_nodes (a # take 1 xs) m (push_mem m a xs)"
  by (auto simp: only_nodes_def push_mem_def split: list.splits)

lemma seg_insert_front:
  assumes d: "dlist (heap_bytes s) 0 (sgrlists s ! l) xs" and n: "nodes_ok s (a # xs)"
    and sel: "select_list 0 sz = (l, z)"
    and front: "sgrlists s ! l = 0 \<or> (\<exists>k. GET_SIZE (HDRP (sgrlists s ! l)) s = ok k \<and> z \<le> k)"
  shows "seg_insert_block (w32 a) sz s
    = ok (set_head l (w32 a) (s\<lparr>heap_bytes := push_mem (heap_bytes s) a xs\<rparr>))"
proof -
  note a = nodes_okD [OF n, of a, simplified]
  show ?thesis
  proof (cases xs)
    case Nil
    then show ?thesis using d a sel seg_search_front [OF front]
      by (simp add: seg_insert_block_def bp_defs push_mem_def set_head_def)
  next
    case (Cons b ys)
    note b = nodes_okD [OF n, of b]
    have "sgrlists s ! l = w32 b" "w32 b \<noteq> 0" using d Cons b by auto
    then show ?thesis using Cons d a b sel seg_search_front [OF front]
      by (simp add: seg_insert_block_def bp_defs push_mem_def set_head_def)
  qed
qed

section \<open>Deleting a block\<close>

definition unlink_mem :: "memory \<Rightarrow> nat list \<Rightarrow> nat list \<Rightarrow> memory" where
  "unlink_mem m xs ys =
     (let m1 = (case ys of [] \<Rightarrow> m | b # _ \<Rightarrow> store32 m (b + 4) (if xs = [] then 0 else w32 (last xs)))
      in if xs = [] then m1 else store32 m1 (last xs) (if ys = [] then 0 else w32 (hd ys)))"

definition new_head :: "u32 \<Rightarrow> nat list \<Rightarrow> nat list \<Rightarrow> u32" where
  "new_head h xs ys = (if xs \<noteq> [] then h else if ys = [] then 0 else w32 (hd ys))"

text \<open>The part of the list behind the deleted node.\<close>

lemma unlink_mem_tail:
  assumes al: "\<forall>x \<in> set (xs @ ys). 8 dvd x" "distinct (xs @ ys)" and d: "dlist m q r ys"
  shows "dlist (unlink_mem m xs ys) (if xs = [] then 0 else w32 (last xs)) (if ys = [] then 0 else w32 (hd ys)) ys"
proof (cases ys)
  case Nil
  then show ?thesis by simp
next
  case (Cons b zs)
  let ?m = "unlink_mem m xs ys"
  have b: "8 dvd b" "\<forall>z \<in> set zs. 8 dvd z \<and> z \<noteq> b" "\<forall>x \<in> set xs. 8 dvd x \<and> x \<noteq> b \<and> x \<notin> set zs"
    using al Cons by auto
  have lx: "8 dvd last xs \<and> last xs \<noteq> b \<and> (\<forall>z \<in> set zs. last xs \<noteq> z)" if "xs \<noteq> []"
    using b(3) last_in_set [OF that] by blast
  have "dlist ?m (w32 b) (load32 m b) zs"
  proof (rule dlist_cong [of m])
    show "dlist m (w32 b) (load32 m b) zs" using d Cons by simp
    fix z assume "z \<in> set zs"
    then show "load32 ?m z = load32 m z \<and> load32 ?m (z + 4) = load32 m (z + 4)"
      using b(1,2) lx Cons by (cases "xs = []") (auto simp: unlink_mem_def Let_def)
  qed
  moreover have "load32 ?m (b + 4) = (if xs = [] then 0 else w32 (last xs))" "load32 ?m b = load32 m b"
    using b Cons last_in_set [of xs] by (auto simp: unlink_mem_def Let_def)
  ultimately show ?thesis using Cons by simp
qed

text \<open>The part in front of it.\<close>

lemma unlink_mem_head:
  assumes al: "\<forall>x \<in> set (xs @ ys). 8 dvd x" "distinct (xs @ ys)" and seg: "dseg m 0 h xs q r"
  shows "dseg (unlink_mem m xs ys) 0 (new_head h xs ys) xs (if ys = [] then 0 else w32 (hd ys))
      (if xs = [] then 0 else w32 (last xs))"
proof (cases xs rule: rev_cases)
  case Nil
  then show ?thesis by (simp add: new_head_def)
next
  case (snoc zs c)
  let ?m = "unlink_mem m xs ys"
  have c: "8 dvd c" "\<forall>z \<in> set zs. 8 dvd z \<and> z \<noteq> c" "\<forall>y \<in> set ys. 8 dvd y \<and> y \<noteq> c \<and> (\<forall>z \<in> set zs. y \<noteq> z)"
    using al snoc by auto
  have un: "?m = store32 (case ys of [] \<Rightarrow> m | b # _ \<Rightarrow> store32 m (b + 4) (w32 c)) c (if ys = [] then 0 else w32 (hd ys))"
    using snoc by (cases ys) (simp_all add: unlink_mem_def)
  have pre: "dseg m 0 h zs (w32 c) (load32 m (c + 4))" using seg snoc by (auto simp: dseg_snoc)
  have "dseg ?m 0 h zs (w32 c) (load32 m (c + 4))"
  proof (rule dseg_cong [OF pre])
    fix z assume z: "z \<in> set zs"
    then show "load32 ?m z = load32 m z \<and> load32 ?m (z + 4) = load32 m (z + 4)"
      using c unfolding un by (cases ys) auto
  qed
  moreover have "load32 ?m c = (if ys = [] then 0 else w32 (hd ys))" "load32 ?m (c + 4) = load32 m (c + 4)"
    using c unfolding un by (cases ys; auto)+
  ultimately show ?thesis using snoc by (simp add: dseg_snoc new_head_def)
qed

lemma unlink_mem_dlist:
  assumes d: "dlist m 0 h (xs @ a # ys)" and n: "nodes_ok s (xs @ a # ys)"
  shows "dlist (unlink_mem m xs ys) 0 (new_head h xs ys) (xs @ ys)"
    and "only_nodes (xs @ ys) m (unlink_mem m xs ys)"
proof -
  let ?m = "unlink_mem m xs ys"
  have al: "\<forall>x \<in> set (xs @ ys). 8 dvd x" "distinct (xs @ ys)" using n by (auto simp: nodes_ok_def)
  obtain q r where seg: "dseg m 0 h xs q r" and rest: "dlist m (w32 a) (load32 m a) ys"
    using d by (auto simp: dlist_append)
  from unlink_mem_tail [OF al rest] unlink_mem_head [OF al seg]
  show "dlist ?m 0 (new_head h xs ys) (xs @ ys)" unfolding dlist_append by blast
  show "only_nodes (xs @ ys) m ?m"
    unfolding only_nodes_def
  proof (intro allI impI)
    fix y assume out: "\<forall>x \<in> set (xs @ ys). y < x \<or> x + 8 \<le> y"
    then have l: "xs = [] \<or> y < last xs \<or> last xs + 8 \<le> y"
      using last_in_set [of xs] by auto
    have "ys = [] \<or> y < hd ys \<or> hd ys + 8 \<le> y"
      using out by (cases ys) auto
    with l show "?m y = m y"
      by (cases ys) (auto simp: unlink_mem_def Let_def)
  qed
qed

lemma seg_delete_block_ok:
  assumes d: "dlist (heap_bytes s) 0 (sgrlists s ! l) (xs @ a # ys)" and n: "nodes_ok s (xs @ a # ys)"
    and sz: "GET_SIZE (HDRP (w32 a)) s = ok k" "fst (select_list 0 k) = l" "l < length (sgrlists s)"
  shows "seg_delete_block (w32 a) s
    = ok (set_head l (new_head (sgrlists s ! l) xs ys) (s\<lparr>heap_bytes := unlink_mem (heap_bytes s) xs ys\<rparr>))"
proof -
  note a = nodes_okD [OF n, of a, simplified]
  obtain z where sel: "select_list 0 k = (l, z)" using sz(2) by (cases "select_list 0 k") auto
  obtain q r where seg: "dseg (heap_bytes s) 0 (sgrlists s ! l) xs q r"
      and rest: "load32 (heap_bytes s) (a + 4) = r" "dlist (heap_bytes s) (w32 a) (load32 (heap_bytes s) a) ys"
    using d by (auto simp: dlist_append)
  have nx: "load32 (heap_bytes s) a = (if ys = [] then 0 else w32 (hd ys))"
    using rest(2) by (cases ys) auto
  have pv: "load32 (heap_bytes s) (a + 4) = (if xs = [] then 0 else w32 (last xs))"
    using seg rest(1) by (cases xs rule: rev_cases) (auto simp: dseg_snoc)
  have same: "(sgrlists s)[l := sgrlists s ! l] = sgrlists s" by simp
  have al: "8 dvd a" "\<forall>x \<in> set (xs @ ys). 8 dvd x \<and> x \<noteq> a" using n by (auto simp: nodes_ok_def)
  have b: "w32 (hd ys) \<noteq> 0" "in_arena s (hd ys + 4) 4" "8 dvd hd ys" "hd ys \<noteq> a" if "ys \<noteq> []"
    using nodes_okD [OF n, of "hd ys"] al that by (auto simp: hd_in_set)
  have c: "w32 (last xs) \<noteq> 0" "in_arena s (last xs) 4" if "xs \<noteq> []"
    using nodes_okD [OF n, of "last xs"] that by auto
  show ?thesis
    using sz(1) sel a nx pv b c same
    by (cases "xs = []"; cases ys)
      (simp_all add: seg_delete_block_def bp_defs unlink_mem_def new_head_def set_head_def Let_def al)
qed

end
