(* ===== verification/SegList_Heap.thy ===== *)
theory SegList_Heap
  imports SegList_Lists Blocks Allocator "HOL-Library.Multiset"
begin

text \<open>
  The heap of \<^verbatim>\<open>src/mm.c\<close> as a whole: boundary tags and free lists together. Every free block stands
  in the list of its size class, exactly once; the links lie in the first eight bytes behind
  the headers of free blocks, so they disturb no tag and no payload.
\<close>

section \<open>Footers up to the reallocation tag\<close>

text \<open>
  \<^verbatim>\<open>PUT\<close> keeps bit 1 of the word it overwrites. For a header this is the reallocation tag; where a
  footer is written into the middle of a free block it is a bit of old data, so footers are
  only known up to it.
\<close>

definition loose_ftr :: "u32 \<Rightarrow> nat \<Rightarrow> bool \<Rightarrow> bool" where
  "loose_ftr w n f \<longleftrightarrow> w AND NOT 2 = tag n f"

abbreviation wchain :: "memory \<Rightarrow> nat \<Rightarrow> blk list \<Rightarrow> bool" where
  "wchain \<equiv> gchain loose_ftr"

lemma tag_bit1: "8 dvd n \<Longrightarrow> \<not> bit (tag n f) 1"
  using mult8_bit [of n 1] by (cases f) (auto simp: tag_def bit_or_iff bit_1_iff)

lemma bits_at_2:
  fixes w :: u32
  shows "(w AND 2 = 0) \<longleftrightarrow> \<not> bit w 1" and "\<not> bit w 1 \<Longrightarrow> (w OR (v AND 2)) AND NOT 2 = w"
    and "(w AND NOT 2) AND NOT 7 = w AND NOT 7"
proof -
  have two: "bit (2 :: u32) k \<longleftrightarrow> k = 1" for k by (auto simp: bit_2_iff)
  show "(w AND 2 = 0) \<longleftrightarrow> \<not> bit w 1"
  proof
    assume "w AND 2 = 0"
    then have "\<not> bit (w AND 2) 1" by simp
    then show "\<not> bit w 1" by (simp only: bit_and_iff two) simp
  next
    assume "\<not> bit w 1"
    then show "w AND 2 = 0" by (intro bit_word_eqI) (simp only: bit_and_iff two, auto)
  qed
  show "\<not> bit w 1 \<Longrightarrow> (w OR (v AND 2)) AND NOT 2 = w"
    by (intro bit_word_eqI) (auto simp only: bit_and_iff bit_or_iff bit_not_iff possible_bit_word two)
  have seven: "bit (7 :: u32) 1" by (simp add: bit_numeral_rec)
  show "(w AND NOT 2) AND NOT 7 = w AND NOT 7"
    by (intro bit_word_eqI) (use seven in \<open>auto simp only: bit_and_iff bit_not_iff two\<close>)
qed

lemma loose_size: "8 dvd n \<Longrightarrow> loose_ftr w n f \<Longrightarrow> w AND NOT 7 = w32 n"
  using bits_at_2(3) [of w] tag_size [of n f] by (simp only: loose_ftr_def)

lemma tag_unmarked: "8 dvd n \<Longrightarrow> tag n f AND 2 = 0"
  using tag_bit1 bits_at_2(1) by blast

lemma tag_unset: "8 dvd n \<Longrightarrow> tag n f AND NOT 2 = tag n f"
  using bits_at_2(2) [OF tag_bit1, of n f 0] by simp

lemma loose_tag: "8 dvd n \<Longrightarrow> loose_ftr (tag n f OR (w AND 2)) n f" "8 dvd n \<Longrightarrow> loose_ftr (tag n f) n f"
  using bits_at_2(2) [OF tag_bit1] tag_unset by (simp_all only: loose_ftr_def)

text \<open>Reading and writing tags whose footers are loose.\<close>

lemma TPUT_w32:
  "in_arena s a 4 \<Longrightarrow> TPUT (w32 a) v s
    = ok (s\<lparr>heap_bytes := store32 (heap_bytes s) a (v OR (load32 (heap_bytes s) a AND 2))\<rparr>)"
  by (simp add: TPUT_def GET_TAG_def)

lemma PREV_BLKP_loose:
  assumes "in_arena s (a - 8) 4" "loose_ftr (load32 (heap_bytes s) (a - 8)) n f" "8 dvd n" "8 \<le> a" "n \<le> a"
  shows "PREV_BLKP (w32 a) s = ok (w32 (a - n))"
  using loose_size [OF assms(3,2)] assms by (simp add: PREV_BLKP_def GET_SIZE_def w32_consts)

text \<open>Header and footer written with \<^verbatim>\<open>PUT\<close>, in either order, over an unmarked header.\<close>

definition stamp :: "memory \<Rightarrow> nat \<Rightarrow> nat \<Rightarrow> bool \<Rightarrow> memory" where
  "stamp m h n f = store32 (store32 m h (tag n f)) (h + n - 4) (tag n f OR (load32 m (h + n - 4) AND 2))"

lemma wchain_stamp: "8 \<le> n \<Longrightarrow> 8 dvd n \<Longrightarrow> wchain (stamp m h n f) h [(n, f)]"
  by (simp add: stamp_def loose_tag)

lemma same_outside_stamp: "8 \<le> n \<Longrightarrow> same_outside h (h + n) m (stamp m h n f)"
  by (auto simp: stamp_def intro!: same_outside_store32)

section \<open>The free blocks of a heap\<close>

text \<open>Payload address and block size of every free block behind header \<open>h\<close>.\<close>

fun frees :: "nat \<Rightarrow> blk list \<Rightarrow> (nat \<times> nat) list" where
  "frees h [] = []"
| "frees h ((n, f) # bs) = (if f then [] else [(h + 4, n)]) @ frees (h + n) bs"

lemma frees_append [simp]: "frees h (bs @ cs) = frees h bs @ frees (h + extent bs) cs"
  by (induction bs arbitrary: h) (auto simp: add.assoc)

lemma frees_bounds:
  "(a, n) \<in> set (frees h bs) \<Longrightarrow> gchain F m h bs \<Longrightarrow>
   h + 4 \<le> a \<and> a + n \<le> h + extent bs + 4 \<and> 8 \<le> n \<and> 8 dvd n \<and> load32 m (a - 4) = tag n False"
proof (induction bs arbitrary: h)
  case (Cons b bs)
  obtain k f where "b = (k, f)" by fastforce
  with Cons.prems Cons.IH [of "h + k"] show ?case by (auto split: if_splits)
qed simp

lemma frees_size: "(a, n) \<in> set (frees h bs) \<Longrightarrow> (n, False) \<in> set bs"
proof (induction bs arbitrary: h)
  case (Cons b bs)
  obtain k f where "b = (k, f)" by fastforce
  with Cons show ?case by (auto split: if_splits)
qed simp

lemma frees_aligned:
  "(a, n) \<in> set (frees h bs) \<Longrightarrow> gchain F m h bs \<Longrightarrow> 8 dvd h + 4 \<Longrightarrow> 8 dvd a"
proof (induction bs arbitrary: h)
  case (Cons b bs)
  obtain k f where b: "b = (k, f)" by fastforce
  with Cons.prems have "8 dvd h + k + 4"
    by (metis add.commute add.left_commute gchain.simps(2) dvd_add)
  with Cons.prems Cons.IH [of "h + k"] b show ?case by (auto split: if_splits)
qed simp

lemma frees_inj:
  "(a, n) \<in> set (frees h bs) \<Longrightarrow> (a, k) \<in> set (frees h bs) \<Longrightarrow> gchain F m h bs \<Longrightarrow> k = n"
proof (induction bs arbitrary: h)
  case (Cons b bs)
  obtain l f where b: "b = (l, f)" by fastforce
  with Cons.prems have rest: "gchain F m (h + l) bs" and l: "8 \<le> l" by auto
  have "h + l + 4 \<le> x" if "(x, y) \<in> set (frees (h + l) bs)" for x y
    using frees_bounds [OF that rest] by simp
  with Cons.prems(1,2) Cons.IH [OF _ _ rest] b l show ?case by (fastforce split: if_splits)
qed simp

text \<open>A free block and an allocated one do not overlap.\<close>

lemma frees_payloads_apart:
  "(a, n) \<in> set (frees h bs) \<Longrightarrow> (p, k) \<in> set (payloads h bs) \<Longrightarrow> gchain F m h bs \<Longrightarrow>
   p + k + 8 \<le> a \<or> a + n \<le> p"
proof (induction bs arbitrary: h)
  case (Cons b bs)
  obtain l f where b: "b = (l, f)" by fastforce
  with Cons.prems have rest: "gchain F m (h + l) bs" and l: "8 \<le> l" by auto
  show ?case
    using Cons.prems(1,2) b l Cons.IH [OF _ _ rest] frees_bounds [OF _ rest] payload_bounds [OF _ rest]
    by (fastforce split: if_splits)
qed simp

text \<open>The free blocks of a chain without a stretch of them.\<close>

lemma frees_remove:
  assumes "gchain F m h (xs @ mid @ ys)"
  shows "set (frees h (xs @ mid @ ys)) - set (frees (h + extent xs) mid)
     = set (frees h xs) \<union> set (frees (h + extent xs + extent mid) ys)"
proof -
  have xs: "gchain F m h xs" and mid: "gchain F m (h + extent xs) mid"
    and ys: "gchain F m (h + extent xs + extent mid) ys" using assms by (auto simp: add.assoc)
  have "set (frees h xs) \<inter> set (frees (h + extent xs) mid) = {}"
    using frees_bounds [OF _ xs] frees_bounds [OF _ mid] by fastforce
  moreover have "set (frees (h + extent xs + extent mid) ys) \<inter> set (frees (h + extent xs) mid) = {}"
    using frees_bounds [OF _ ys] frees_bounds [OF _ mid] by fastforce
  ultimately show ?thesis by (auto simp: add.assoc)
qed

section \<open>Writes into the links\<close>

text \<open>Bytes outside the first eight bytes of the blocks at \<open>A\<close> are the same.\<close>

definition links_only :: "nat set \<Rightarrow> memory \<Rightarrow> memory \<Rightarrow> bool" where
  "links_only A m m' \<longleftrightarrow> (\<forall>y. (\<forall>a \<in> A. y < a \<or> a + 8 \<le> y) \<longrightarrow> m' y = m y)"

lemma links_only_refl [simp]: "links_only A m m"
  by (simp add: links_only_def)

lemma links_only_trans: "links_only A m m' \<Longrightarrow> links_only A m' m'' \<Longrightarrow> links_only A m m''"
  by (simp add: links_only_def)

lemma links_only_nodes: "only_nodes xs m m' \<Longrightarrow> set xs \<subseteq> A \<Longrightarrow> links_only A m m'"
  unfolding only_nodes_def links_only_def by blast

lemma links_only_load:
  assumes "links_only A m m'" "\<forall>a \<in> A. x + 4 \<le> a \<or> a + 8 \<le> x"
  shows "load32 m' x = load32 m x"
proof (rule load32_cong)
  fix y assume y: "x \<le> y" "y < x + 4"
  have "\<forall>a \<in> A. y < a \<or> a + 8 \<le> y"
  proof
    fix a assume "a \<in> A"
    with assms(2) y show "y < a \<or> a + 8 \<le> y" by fastforce
  qed
  with assms(1) show "m' y = m y" by (simp add: links_only_def)
qed

lemma gchain_links:
  assumes "gchain F m h bs" "\<forall>b \<in> set bs. snd b \<or> 16 \<le> fst b" "links_only A m m'"
    and "\<forall>a \<in> A. a + 8 \<le> h \<or> h + extent bs \<le> a \<or> a \<in> fst ` set (frees h bs)"
  shows "gchain F m' h bs"
  using assms(1,2,4)
proof (induction bs arbitrary: h)
  case (Cons b bs)
  obtain n f where b: "b = (n, f)" by fastforce
  have rest: "gchain F m (h + n) bs" and n: "8 \<le> n" "\<not> f \<longrightarrow> 16 \<le> n"
    using Cons.prems(1,2) b by auto
  have tail: "h + n + 4 \<le> a" if "a \<in> fst ` set (frees (h + n) bs)" for a
    using that frees_bounds [OF _ rest] by fastforce
  have cases: "a + 8 \<le> h \<or> h + n + extent bs \<le> a \<or> \<not> f \<and> a = h + 4 \<or> a \<in> fst ` set (frees (h + n) bs)"
    if "a \<in> A" for a
    using Cons.prems(3) that b by (auto split: if_splits)
  have "\<forall>a \<in> A. h + 4 \<le> a \<or> a + 8 \<le> h" "\<forall>a \<in> A. h + n - 4 + 4 \<le> a \<or> a + 8 \<le> h + n - 4"
    using cases tail n by fastforce+
  then have "load32 m' h = load32 m h" "load32 m' (h + n - 4) = load32 m (h + n - 4)"
    by (auto intro: links_only_load [OF assms(3)])
  moreover have "gchain F m' (h + n) bs"
    using Cons.prems(2) b cases n by (intro Cons.IH [OF rest]) fastforce+
  ultimately show ?case using Cons.prems(1) b by simp
qed simp

lemma kept_links:
  assumes "gchain F m h bs" "\<forall>b \<in> set bs. 16 \<le> fst b" "links_only A m m'" "A \<subseteq> fst ` set (frees h bs)"
  shows "kept (payloads h bs) m m'"
  unfolding kept_def
proof (intro allI impI)
  fix p k x assume p: "(p, k) \<in> set (payloads h bs)" "p \<le> x" "x < p + k"
  have "x < a \<or> a + 8 \<le> x" if "a \<in> A" for a
  proof -
    from that assms(4) obtain n where n: "(a, n) \<in> set (frees h bs)" by fastforce
    have "16 \<le> n" using frees_size [OF n] assms(2) by force
    with frees_payloads_apart [OF n p(1) assms(1)] p(2,3) show ?thesis by linarith
  qed
  then show "m' x = m x" using assms(3) by (simp add: links_only_def)
qed

section \<open>The free lists\<close>

definition size_class :: "nat \<Rightarrow> nat" where
  "size_class n = fst (select_list 0 (w32 n))"

lemma size_class_less: "size_class n < 20"
  using select_list_index [of 0 "w32 n"] by (simp add: size_class_def)

text \<open>
  What the search for a place to insert at compares is the size shifted by its class: no block of
  the class is smaller, so insertion is always at the front.
\<close>

lemma class_front:
  assumes "1 \<le> n" "n < 2 ^ 32" "1 \<le> k" "k < 2 ^ 32" "size_class k = size_class n"
  shows "\<exists>z. select_list 0 (w32 n) = (size_class n, z) \<and> z \<le> w32 k"
proof (cases "n < 2 ^ 19")
  case True
  obtain j where j: "2 ^ j \<le> n" "n < 2 ^ Suc j"
    using ex_power_ivl1 [of 2 n] assms(1) by auto
  have "(2 :: nat) ^ j < 2 ^ 19" using True j(1) by (rule le_less_trans [rotated])
  then have "j < 19" by (simp only: power_strict_increasing_iff)
  then have "select_list 0 (w32 n) = (j, 1)" using j by (rule select_list_small)
  then show ?thesis using assms(3,4) by (simp add: size_class_def w32_1 del: w32_zero)
next
  case False
  then have sel: "select_list 0 (w32 n) = (19, w32 (n div 2 ^ 19))"
    using assms(2) by (intro select_list_large) auto
  have "2 ^ 19 \<le> k"
  proof (rule ccontr)
    assume "\<not> 2 ^ 19 \<le> k"
    then have less: "k < 2 ^ 19" by simp
    obtain j where j: "2 ^ j \<le> k" "k < 2 ^ Suc j"
      using ex_power_ivl1 [of 2 k] assms(3) by auto
    have "(2 :: nat) ^ j < 2 ^ 19" using less j(1) by (rule le_less_trans [rotated])
    then have "j < 19" by (simp only: power_strict_increasing_iff)
    then have "size_class k = j" using select_list_small [of j k] j by (simp add: size_class_def)
    with \<open>j < 19\<close> sel assms(5) show False by (simp add: size_class_def)
  qed
  moreover have "n div 2 ^ 19 < 2 ^ 13" using assms(2) by (simp add: less_mult_imp_div_less)
  ultimately show ?thesis using sel assms(4) by (simp add: size_class_def)
qed

text \<open>
  \<open>listed s F\<close>: the list of each class holds exactly the free blocks in \<open>F\<close> of that class, each
  once. \<open>F\<close> is a set of payload addresses with block sizes.
\<close>

definition in_class :: "(nat \<times> nat) set \<Rightarrow> nat \<Rightarrow> nat set" where
  "in_class F l = {a. \<exists>n. (a, n) \<in> F \<and> size_class n = l}"

definition listed :: "seg \<Rightarrow> (nat \<times> nat) set \<Rightarrow> bool" where
  "listed s F \<longleftrightarrow> length (sgrlists s) = 20
     \<and> (\<forall>l < 20. \<exists>xs. dlist (heap_bytes s) 0 (sgrlists s ! l) xs \<and> distinct xs \<and> set xs = in_class F l)"

text \<open>
  The blocks of \<open>F\<close> have a place for links, a header that shows their size, and one size each. The
  header may carry the reallocation tag, which the list operations ignore.
\<close>

definition free_ok :: "seg \<Rightarrow> (nat \<times> nat) set \<Rightarrow> bool" where
  "free_ok s F \<longleftrightarrow> (\<forall>(a, n) \<in> F. 8 \<le> a \<and> 8 dvd a \<and> in_arena s (a - 4) 12 \<and> 8 dvd n \<and> 16 \<le> n \<and> n < 2 ^ 32
       \<and> loose_ftr (load32 (heap_bytes s) (a - 4)) n False)
     \<and> (\<forall>a n k. (a, n) \<in> F \<longrightarrow> (a, k) \<in> F \<longrightarrow> k = n)"

lemma free_okD:
  assumes "free_ok s F" "(a, n) \<in> F"
  shows "8 \<le> a" "8 dvd a" "in_arena s (a - 4) 12" "8 dvd n" "16 \<le> n" "n < 2 ^ 32"
    "loose_ftr (load32 (heap_bytes s) (a - 4)) n False" "(a, k) \<in> F \<Longrightarrow> k = n"
    "GET_SIZE (HDRP (w32 a)) s = ok (w32 n)"
proof -
  show A: "8 \<le> a" "8 dvd a" "in_arena s (a - 4) 12" "8 dvd n" "16 \<le> n" "n < 2 ^ 32"
    "loose_ftr (load32 (heap_bytes s) (a - 4)) n False" "(a, k) \<in> F \<Longrightarrow> k = n"
    using assms unfolding free_ok_def by blast+
  have "in_arena s (a - 4) 4" using A(1,3) by (simp add: in_arena_def)
  then show "GET_SIZE (HDRP (w32 a)) s = ok (w32 n)"
    using A(1) loose_size [OF A(4,7)] by (simp add: GET_SIZE_def)
qed

lemma free_ok_nodes:
  assumes "free_ok s F" "distinct xs" "set xs \<subseteq> fst ` F"
  shows "nodes_ok s xs"
  unfolding nodes_ok_def
proof (intro conjI ballI)
  fix a assume "a \<in> set xs"
  with assms(3) obtain n where n: "(a, n) \<in> F" by fastforce
  note D = free_okD [OF assms(1) n]
  show "0 < a" "8 dvd a" "in_arena s a 8" using D(1,2) in_arena_sub [OF D(3), of a 8] by simp_all
qed (rule assms(2))

lemma in_class_fst: "in_class F l \<subseteq> fst ` F"
  by (force simp: in_class_def)

lemma in_class_apart: "free_ok s F \<Longrightarrow> a \<in> in_class F l \<Longrightarrow> a \<in> in_class F k \<Longrightarrow> k = l"
  using free_okD(8) [of s F] by (fastforce simp: in_class_def)

text \<open>Writes into the links of one class leave the other lists alone.\<close>

lemma dlist_other_class:
  assumes "free_ok s F" "dlist m pr p xs" "set xs \<subseteq> in_class F k" "only_nodes ys m m'" "set ys \<subseteq> in_class F l" "k \<noteq> l"
  shows "dlist m' pr p xs"
proof (rule dlist_cong [OF assms(2)])
  fix x assume x: "x \<in> set xs"
  have apart: "x + 8 \<le> y \<or> y + 8 \<le> x" if "y \<in> set ys" for y
  proof (rule nodes_apart)
    have "x \<in> in_class F k" "y \<in> in_class F l" using x that assms(3,5) by blast+
    then obtain n i where "(x, n) \<in> F" "(y, i) \<in> F" unfolding in_class_def by blast
    then show "8 dvd x" "8 dvd y" using free_okD(2) [OF assms(1)] by blast+
    show "x \<noteq> y" using x that assms(3,5,6) in_class_apart [OF assms(1)] by blast
  qed
  have lo: "links_only (set ys) m m'" using assms(4) by (rule links_only_nodes) simp
  have "\<forall>y \<in> set ys. x + 4 \<le> y \<or> y + 8 \<le> x" "\<forall>y \<in> set ys. x + 4 + 4 \<le> y \<or> y + 8 \<le> x + 4"
  proof (safe, goal_cases)
    case (1 y) then show ?case using apart [of y] by linarith
  next
    case (2 y) then show ?case using apart [of y] by linarith
  qed
  then show "load32 m' x = load32 m x \<and> load32 m' (x + 4) = load32 m (x + 4)"
    using links_only_load [OF lo, of x] links_only_load [OF lo, of "x + 4"] by blast
qed

lemma in_class_insert: "in_class (insert (a, n) F) l = (if size_class n = l then insert a (in_class F l) else in_class F l)"
  by (auto simp: in_class_def)

text \<open>One list is replaced, and only nodes of its class are written: the other lists stay.\<close>

lemma listed_replace:
  assumes ok: "free_ok s H" and li: "listed s F" and F: "F \<subseteq> H"
    and w: "only_nodes ns (heap_bytes s) m" "set ns \<subseteq> in_class H l" and l: "l < 20"
    and new: "dlist m 0 g zs" "distinct zs" "set zs = in_class G l"
    and rest: "\<And>k. k \<noteq> l \<Longrightarrow> in_class G k = in_class F k"
  shows "listed (s\<lparr>heap_bytes := m, sgrlists := (sgrlists s)[l := g]\<rparr>) G"
  unfolding listed_def
proof (intro conjI allI impI)
  let ?s = "s\<lparr>heap_bytes := m, sgrlists := (sgrlists s)[l := g]\<rparr>"
  show "length (sgrlists ?s) = 20" using li by (simp add: listed_def)
  fix k :: nat assume k: "k < 20"
  show "\<exists>ys. dlist (heap_bytes ?s) 0 (sgrlists ?s ! k) ys \<and> distinct ys \<and> set ys = in_class G k"
  proof (cases "k = l")
    case True
    then show ?thesis using new l li by (intro exI [of _ zs]) (simp add: listed_def)
  next
    case False
    obtain ys where ys: "dlist (heap_bytes s) 0 (sgrlists s ! k) ys" "distinct ys" "set ys = in_class F k"
      using li k unfolding listed_def by blast
    have "set ys \<subseteq> in_class H k" using ys(3) F by (auto simp: in_class_def)
    then have "dlist m 0 (sgrlists s ! k) ys"
      using dlist_other_class [OF ok ys(1) _ w False] by blast
    then show ?thesis using ys False rest [OF False] by (intro exI [of _ ys]) simp
  qed
qed

lemma listed_insert:
  assumes ok: "free_ok s (insert (a, n) F)" and new: "(a, n) \<notin> F" and li: "listed s F"
  shows "\<exists>m gs. seg_insert_block (w32 a) (w32 n) s = ok (s\<lparr>heap_bytes := m, sgrlists := gs\<rparr>)
    \<and> listed (s\<lparr>heap_bytes := m, sgrlists := gs\<rparr>) (insert (a, n) F)
    \<and> links_only (insert a (fst ` F)) (heap_bytes s) m"
proof -
  let ?F = "insert (a, n) F" and ?l = "size_class n"
  obtain xs where xs: "dlist (heap_bytes s) 0 (sgrlists s ! ?l) xs" "distinct xs" "set xs = in_class F ?l"
    using li size_class_less unfolding listed_def by blast
  have fresh: "a \<notin> fst ` F" using free_okD(8) [OF ok] new by fastforce
  have all: "set (a # xs) = in_class ?F ?l" using xs(3) by (simp add: in_class_insert)
  then have cls: "set (a # xs) \<subseteq> fst ` ?F" "set (a # xs) \<subseteq> insert a (fst ` F)"
    using in_class_fst [of ?F] by fastforce+
  have dis: "distinct (a # xs)" using fresh xs(2,3) in_class_fst [of F ?l] by auto
  then have nodes: "nodes_ok s (a # xs)" using free_ok_nodes [OF ok] cls(1) by blast
  obtain z where z: "select_list 0 (w32 n) = (?l, z)" by (metis prod.collapse size_class_def)
  have front: "sgrlists s ! ?l = 0 \<or> (\<exists>k. GET_SIZE (HDRP (sgrlists s ! ?l)) s = ok k \<and> z \<le> k)"
  proof (cases xs)
    case Nil
    then show ?thesis using xs(1) by simp
  next
    case (Cons b ys)
    then obtain k where k: "(b, k) \<in> F" "size_class k = ?l" using xs(3) by (fastforce simp: in_class_def)
    note B = free_okD [OF ok insertI2 [OF k(1)]] and A = free_okD [OF ok insertI1]
    have "z \<le> w32 k" using class_front [of n k] A(5,6) B(5,6) k(2) z by auto
    then show ?thesis using B(9) Cons xs(1) by auto
  qed
  let ?m = "push_mem (heap_bytes s) a xs"
  note P = push_mem_dlist [OF xs(1) nodes]
  have "seg_insert_block (w32 a) (w32 n) s
      = ok (s\<lparr>heap_bytes := ?m, sgrlists := (sgrlists s)[?l := w32 a]\<rparr>)"
    using seg_insert_front [OF xs(1) nodes z front] by (simp add: set_head_def)
  moreover have "listed (s\<lparr>heap_bytes := ?m, sgrlists := (sgrlists s)[?l := w32 a]\<rparr>) ?F"
    by (rule listed_replace [OF ok li _ P(2) _ size_class_less P(1) dis all])
      (use all in \<open>auto simp: in_class_insert\<close>)
  moreover have "links_only (insert a (fst ` F)) (heap_bytes s) ?m"
    using P(2) cls(2) by (rule links_only_nodes)
  ultimately show ?thesis by blast
qed

lemma listed_delete:
  assumes ok: "free_ok s F" and mem: "(a, n) \<in> F" and li: "listed s F"
  shows "\<exists>m gs. seg_delete_block (w32 a) s = ok (s\<lparr>heap_bytes := m, sgrlists := gs\<rparr>)
    \<and> listed (s\<lparr>heap_bytes := m, sgrlists := gs\<rparr>) (F - {(a, n)})
    \<and> links_only (fst ` F) (heap_bytes s) m"
proof -
  let ?F = "F - {(a, n)}" and ?l = "size_class n"
  obtain zs where zs: "dlist (heap_bytes s) 0 (sgrlists s ! ?l) zs" "distinct zs" "set zs = in_class F ?l"
    using li size_class_less unfolding listed_def by blast
  have "a \<in> set zs" using mem zs(3) by (auto simp: in_class_def)
  then obtain xs ys where z: "zs = xs @ a # ys" by (meson split_list)
  have sz: "GET_SIZE (HDRP (w32 a)) s = ok (w32 n)" "fst (select_list 0 (w32 n)) = ?l" "?l < length (sgrlists s)"
    using free_okD(9) [OF ok mem] li size_class_less by (simp_all add: size_class_def listed_def)
  have one: "k = n" if "(a, k) \<in> F" for k using free_okD(8) [OF ok mem that] .
  have cl: "in_class ?F k = in_class F k - {a}" and outside: "k \<noteq> ?l \<Longrightarrow> in_class F k - {a} = in_class F k" for k
    using one by (auto simp: in_class_def)
  have nodes: "nodes_ok s (xs @ a # ys)" using zs z in_class_fst [of F ?l] by (intro free_ok_nodes [OF ok]) auto
  let ?m = "unlink_mem (heap_bytes s) xs ys" and ?g = "new_head (sgrlists s ! ?l) xs ys"
  have d: "dlist (heap_bytes s) 0 (sgrlists s ! ?l) (xs @ a # ys)" using zs(1) z by simp
  note U = unlink_mem_dlist [OF d nodes]
  have sub: "set (xs @ ys) \<subseteq> in_class F ?l" "set (xs @ ys) \<subseteq> fst ` F"
    and left: "distinct (xs @ ys)" "set (xs @ ys) = in_class ?F ?l"
    using zs(2,3) z in_class_fst [of F ?l] by (auto simp: cl)
  have "seg_delete_block (w32 a) s = ok (s\<lparr>heap_bytes := ?m, sgrlists := (sgrlists s)[?l := ?g]\<rparr>)"
    using seg_delete_block_ok [OF d nodes sz] by (simp add: set_head_def)
  moreover have "listed (s\<lparr>heap_bytes := ?m, sgrlists := (sgrlists s)[?l := ?g]\<rparr>) ?F"
    by (rule listed_replace [OF ok li order_refl U(2) sub(1) size_class_less U(1) left])
      (use outside in \<open>simp add: cl\<close>)
  moreover have "links_only (fst ` F) (heap_bytes s) ?m"
    using U(2) sub(2) by (rule links_only_nodes)
  ultimately show ?thesis by blast
qed

text \<open>Bytes outside the blocks of \<open>F\<close> are of no concern to the lists.\<close>

lemma listed_outside:
  assumes "listed s F" "same_outside lo hi (heap_bytes s) m" "\<forall>a \<in> fst ` F. a + 8 \<le> lo \<or> hi \<le> a"
  shows "listed (s\<lparr>heap_bytes := m\<rparr>) F"
  unfolding listed_def
proof (intro conjI allI impI)
  show "length (sgrlists (s\<lparr>heap_bytes := m\<rparr>)) = 20" using assms(1) by (simp add: listed_def)
  fix k :: nat assume "k < 20"
  then obtain xs where xs: "dlist (heap_bytes s) 0 (sgrlists s ! k) xs" "distinct xs" "set xs = in_class F k"
    using assms(1) unfolding listed_def by blast
  have "dlist m 0 (sgrlists s ! k) xs"
  proof (rule dlist_cong [OF xs(1)])
    fix a assume "a \<in> set xs"
    then have "a \<in> fst ` F" using xs(3) in_class_fst [of F k] by blast
    then have "a + 8 \<le> lo \<or> hi \<le> a" using assms(3) by blast
    then show "load32 m a = load32 (heap_bytes s) a \<and> load32 m (a + 4) = load32 (heap_bytes s) (a + 4)"
      by (auto intro!: same_outside_load32 [OF assms(2)])
  qed
  then show "\<exists>xs. dlist (heap_bytes (s\<lparr>heap_bytes := m\<rparr>)) 0 (sgrlists (s\<lparr>heap_bytes := m\<rparr>) ! k) xs
      \<and> distinct xs \<and> set xs = in_class F k"
    using xs(2,3) by auto
qed

section \<open>The heap\<close>

text \<open>The boundary tags, from prologue to epilogue; free neighbours are allowed.\<close>

definition seg_heap :: "seg \<Rightarrow> blk list \<Rightarrow> bool" where
  "seg_heap s bs \<longleftrightarrow>
     arena_ok s
   \<and> seg_listp s = w32 (start_of s + 8)
   \<and> brk_of s = start_of s + 16 + extent bs
   \<and> wchain (heap_bytes s) (start_of s + 4) ((8, True) # bs)
   \<and> load32 (heap_bytes s) (start_of s + 12 + extent bs) = tag 0 True
   \<and> (\<forall>b \<in> set bs. 16 \<le> fst b)"

definition seg_frees :: "seg \<Rightarrow> blk list \<Rightarrow> (nat \<times> nat) set" where
  "seg_frees s bs = set (frees (start_of s + 12) bs)"

text \<open>The invariant between calls: no free neighbours, every free block in the list of its class.\<close>

definition seg_inv :: "seg \<Rightarrow> blk list \<Rightarrow> bool" where
  "seg_inv s bs \<longleftrightarrow> seg_heap s bs \<and> coalesced bs \<and> listed s (seg_frees s bs)"

definition seg_payloads :: "seg \<Rightarrow> blk list \<Rightarrow> (nat \<times> nat) list" where
  "seg_payloads s bs = payloads (start_of s + 12) bs"

lemma seg_heapD:
  assumes "seg_heap s bs"
  shows "wchain (heap_bytes s) (start_of s + 12) bs" "wchain (heap_bytes s) (start_of s + 4) ((8, True) # bs)"
    and "load32 (heap_bytes s) (start_of s + 12 + extent bs) = tag 0 True"
    and "in_arena s (start_of s + 4) (12 + extent bs)"
    and "0 < start_of s" "8 dvd start_of s" "8 dvd start_of s + 12 + 4" "brk_of s \<le> top_of s"
    and "start_of s + 16 + extent bs < 4294967296" "\<forall>b \<in> set bs. 16 \<le> fst b"
    and "brk_of s = start_of s + 16 + extent bs"
proof -
  show "8 dvd start_of s + 12 + 4" using assms by (simp add: seg_heap_def arena_ok_def add.assoc)
qed (use assms unat_u32_less [of "mem_max_addr s"] in \<open>auto simp: seg_heap_def arena_ok_def in_arena_def ac_simps\<close>)

lemma seg_heap_free_ok:
  assumes "seg_heap s bs" "F \<subseteq> seg_frees s bs"
  shows "free_ok s F"
  unfolding free_ok_def
proof (intro conjI)
  note D = seg_heapD [OF assms(1)]
  show "\<forall>(a, n) \<in> F. 8 \<le> a \<and> 8 dvd a \<and> in_arena s (a - 4) 12 \<and> 8 dvd n \<and> 16 \<le> n \<and> n < 2 ^ 32
       \<and> loose_ftr (load32 (heap_bytes s) (a - 4)) n False"
  proof safe
    fix a n assume "(a, n) \<in> F"
    then have m: "(a, n) \<in> set (frees (start_of s + 12) bs)" using assms(2) by (auto simp: seg_frees_def)
    note B = frees_bounds [OF m D(1)]
    have n: "16 \<le> n" using frees_size [OF m] D(10) by force
    show "8 dvd a" by (rule frees_aligned [OF m D(1,7)])
    show "in_arena s (a - 4) 12" by (rule in_arena_sub [OF D(4)]) (use B n in linarith)+
    show "8 \<le> a" "8 dvd n" "16 \<le> n" "n < 2 ^ 32" "loose_ftr (load32 (heap_bytes s) (a - 4)) n False"
      using B n D(9) loose_tag(2) by simp_all
  qed
  show "\<forall>a n k. (a, n) \<in> F \<longrightarrow> (a, k) \<in> F \<longrightarrow> k = n"
    using frees_inj [OF _ _ D(1)] assms(2) by (auto simp: seg_frees_def)
qed

text \<open>Writes into free lists: only the links and the list heads change.\<close>

definition relinked :: "blk list \<Rightarrow> seg \<Rightarrow> seg \<Rightarrow> bool" where
  "relinked bs s s' \<longleftrightarrow> (\<exists>m gs. s' = s\<lparr>heap_bytes := m, sgrlists := gs\<rparr>
     \<and> links_only (fst ` seg_frees s bs) (heap_bytes s) m)"

lemma relinked_start:
  "relinked bs s s' \<Longrightarrow> start_of s' = start_of s \<and> in_arena s' = in_arena s \<and> seg_frees s' bs = seg_frees s bs"
  by (auto simp: relinked_def seg_frees_def in_arena_def fun_eq_iff)

lemma relinked_trans: "relinked bs s s' \<Longrightarrow> relinked bs s' s'' \<Longrightarrow> relinked bs s s''"
  using links_only_trans by (fastforce simp: relinked_def seg_frees_def)

lemma relinked_heap:
  assumes "seg_heap s bs" "relinked bs s s'"
  shows "seg_heap s' bs" "kept (seg_payloads s bs) (heap_bytes s) (heap_bytes s')"
proof -
  obtain m gs where s': "s' = s\<lparr>heap_bytes := m, sgrlists := gs\<rparr>"
      and l: "links_only (fst ` seg_frees s bs) (heap_bytes s) m"
    using assms(2) unfolding relinked_def by blast
  note D = seg_heapD [OF assms(1)]
  have in_heap: "a + 12 \<le> start_of s + 12 + extent bs" if a: "a \<in> fst ` seg_frees s bs" for a
  proof -
    from a obtain n where m: "(a, n) \<in> set (frees (start_of s + 12) bs)" by (fastforce simp: seg_frees_def)
    have "16 \<le> n" using frees_size [OF m] D(10) by force
    then show ?thesis using frees_bounds [OF m D(1)] by simp
  qed
  have "wchain m (start_of s + 4) ((8, True) # bs)"
    by (rule gchain_links [OF D(2) _ l]) (use D(10) in \<open>auto simp: seg_frees_def ac_simps\<close>)
  moreover have "load32 m (start_of s + 12 + extent bs) = tag 0 True"
    using links_only_load [OF l, of "start_of s + 12 + extent bs"] in_heap D(3) by fastforce
  ultimately show "seg_heap s' bs" using assms(1) s' by (simp add: seg_heap_def arena_ok_def)
  show "kept (seg_payloads s bs) (heap_bytes s) (heap_bytes s')"
    using kept_links [OF D(1,10) l] s' by (simp add: seg_payloads_def seg_frees_def)
qed

lemma seg_delete_step:
  assumes "seg_heap s bs" "F \<subseteq> seg_frees s bs" "listed s F" "(a, n) \<in> F"
  shows "\<exists>s'. seg_delete_block (w32 a) s = ok s' \<and> relinked bs s s' \<and> listed s' (F - {(a, n)})"
proof -
  obtain m gs where m: "seg_delete_block (w32 a) s = ok (s\<lparr>heap_bytes := m, sgrlists := gs\<rparr>)"
      "listed (s\<lparr>heap_bytes := m, sgrlists := gs\<rparr>) (F - {(a, n)})" "links_only (fst ` F) (heap_bytes s) m"
    using listed_delete [OF seg_heap_free_ok [OF assms(1,2)] assms(4,3)] by blast
  have "links_only (fst ` seg_frees s bs) (heap_bytes s) m"
    using m(3) assms(2) unfolding links_only_def by blast
  with m show ?thesis unfolding relinked_def by blast
qed

lemma seg_insert_step:
  assumes "seg_heap s bs" "insert (a, n) F \<subseteq> seg_frees s bs" "listed s F" "(a, n) \<notin> F"
  shows "\<exists>s'. seg_insert_block (w32 a) (w32 n) s = ok s' \<and> relinked bs s s' \<and> listed s' (insert (a, n) F)"
proof -
  obtain m gs where m: "seg_insert_block (w32 a) (w32 n) s = ok (s\<lparr>heap_bytes := m, sgrlists := gs\<rparr>)"
      "listed (s\<lparr>heap_bytes := m, sgrlists := gs\<rparr>) (insert (a, n) F)"
      "links_only (insert a (fst ` F)) (heap_bytes s) m"
    using listed_insert [OF seg_heap_free_ok [OF assms(1,2)] assms(4,3)] by blast
  have "insert a (fst ` F) \<subseteq> fst ` seg_frees s bs" using assms(2) by force
  then have "links_only (fst ` seg_frees s bs) (heap_bytes s) m"
    using m(3) unfolding links_only_def by blast
  with m show ?thesis unfolding relinked_def by blast
qed

text \<open>New tags for a stretch of the heap none of whose blocks is listed.\<close>

lemma seg_restamp:
  assumes heap: "seg_heap s (xs @ mid @ ys)" and h: "h = start_of s + 12 + extent xs" and n: "n = extent mid"
    and m: "wchain m h mid'" "extent mid' = n" "\<forall>b \<in> set mid'. 16 \<le> fst b"
      "same_outside h (h + n) (heap_bytes s) m"
    and li: "listed s F" "F \<subseteq> set (frees (start_of s + 12) xs) \<union> set (frees (h + n) ys)"
  shows "seg_heap (s\<lparr>heap_bytes := m\<rparr>) (xs @ mid' @ ys)"
    and "listed (s\<lparr>heap_bytes := m\<rparr>) F"
    and "kept (payloads (start_of s + 12) xs @ payloads (h + n) ys) (heap_bytes s) m"
proof -
  note D = seg_heapD [OF heap]
  have ch: "wchain m (start_of s + 4) (((8, True) # xs) @ mid' @ ys)"
    using chain_replace [of loose_ftr "heap_bytes s" "start_of s + 4" "(8, True) # xs" mid ys m mid'] D(2) m h n
    by (simp add: ac_simps)
  have epi: "load32 m (start_of s + 12 + extent (xs @ mid' @ ys)) = tag 0 True"
    using D(3) m(2) h n same_outside_load32 [OF m(4), of "start_of s + 12 + extent (xs @ mid @ ys)"]
    by (simp add: ac_simps)
  show "seg_heap (s\<lparr>heap_bytes := m\<rparr>) (xs @ mid' @ ys)"
    using heap ch epi m(2,3) n by (auto simp: seg_heap_def arena_ok_def)
  have xs: "wchain (heap_bytes s) (start_of s + 12) xs" and ys: "wchain (heap_bytes s) (h + n) ys"
    using D(1) h n by (auto simp: ac_simps)
  have "a + 8 \<le> h \<or> h + n \<le> a" if "(a, k) \<in> set (frees (start_of s + 12) xs) \<union> set (frees (h + n) ys)" for a k
  proof (cases "(a, k) \<in> set (frees (start_of s + 12) xs)")
    case True
    then have "16 \<le> k" using frees_size [OF True] D(10) by force
    then show ?thesis using frees_bounds [OF True xs] h by simp
  next
    case False
    then show ?thesis using that frees_bounds [OF _ ys] by fastforce
  qed
  then show "listed (s\<lparr>heap_bytes := m\<rparr>) F"
    using li(2) by (intro listed_outside [OF li(1) m(4)]) force
  have "m x = heap_bytes s x" if "(p, k) \<in> set (payloads (start_of s + 12) xs)" "p \<le> x" "x < p + k" for p k x
    using payload_bounds [OF that(1) xs] that(2,3) m(4) h by (simp add: same_outside_def)
  moreover have "m x = heap_bytes s x" if "(p, k) \<in> set (payloads (h + n) ys)" "p \<le> x" "x < p + k" for p k x
    using payload_bounds [OF that(1) ys] that(2,3) m(4) by (simp add: same_outside_def)
  ultimately show "kept (payloads (start_of s + 12) xs @ payloads (h + n) ys) (heap_bytes s) m"
    by (auto simp: kept_def)
qed

end
