(* ===== verification/SegList_Free.thy ===== *)
theory SegList_Free
  imports SegList_Heap
begin

text \<open>
  \<^verbatim>\<open>mm_free\<close> of \<^verbatim>\<open>src/mm.c\<close> and the routines it calls, on a heap that meets the invariant of theory
  \<open>SegList_Heap\<close>: they join blocks, and keep every free block in the list of its class.
\<close>

section \<open>The tags around a block\<close>

definition prev_blk :: "blk list \<Rightarrow> blk" where
  "prev_blk xs = (if xs = [] then (8, True) else last xs)"

definition next_blk :: "blk list \<Rightarrow> blk" where
  "next_blk ys = (case ys of [] \<Rightarrow> (0, True) | b # _ \<Rightarrow> b)"

lemma seg_own:
  assumes "seg_heap s (xs @ (n, b) # ys)" "h = start_of s + 12 + extent xs"
  shows "load32 (heap_bytes s) h = tag n b" "16 \<le> n" "8 dvd n" "in_arena s h (n + 4)" "h + n + 4 < 4294967296"
    and "8 dvd h + 4"
proof -
  note D = seg_heapD [OF assms(1)]
  show "in_arena s h (n + 4)" by (rule in_arena_sub [OF D(4)]) (use assms(2) in simp_all)
  have "8 dvd extent xs" using D(1) by (auto dest: chain_dvd)
  then have "8 dvd (start_of s + 12 + 4) + extent xs" using D(7) by (rule dvd_add [rotated])
  then show "8 dvd h + 4" using assms(2) by (simp add: ac_simps)
qed (use seg_heapD(1,9,10) [OF assms(1)] assms(2) in auto)

lemma seg_prev:
  assumes "seg_heap s (xs @ (n, b) # ys)" "h = start_of s + 12 + extent xs" "prev_blk xs = (k, g)"
  shows "load32 (heap_bytes s) (h - k) = tag k g" "loose_ftr (load32 (heap_bytes s) (h - 4)) k g"
    and "8 \<le> k" "8 dvd k" "k + 4 \<le> h" "in_arena s (h - k) (k + 4)"
proof -
  note D = seg_heapD [OF assms(1)]
  have "load32 (heap_bytes s) (h - k) = tag k g \<and> loose_ftr (load32 (heap_bytes s) (h - 4)) k g
      \<and> 8 \<le> k \<and> 8 dvd k \<and> start_of s + 4 + k \<le> h"
  proof (cases xs rule: rev_cases)
    case Nil
    then show ?thesis using D(2) assms(2,3) by (simp add: prev_blk_def ac_simps)
  next
    case (snoc x0 y)
    then have y: "y = (k, g)" using assms(3) by (simp add: prev_blk_def)
    show ?thesis using D(1) assms(2) snoc y by (simp add: add.assoc)
  qed
  then show "load32 (heap_bytes s) (h - k) = tag k g" "loose_ftr (load32 (heap_bytes s) (h - 4)) k g"
    "8 \<le> k" "8 dvd k" "k + 4 \<le> h" "in_arena s (h - k) (k + 4)"
    using assms(2) by (auto intro: in_arena_sub [OF D(4)])
qed

lemma seg_next:
  assumes "seg_heap s (xs @ (n, b) # ys)" "h = start_of s + 12 + extent xs" "next_blk ys = (j, f)"
  shows "load32 (heap_bytes s) (h + n) = tag j f" "8 dvd j" "in_arena s (h + n) (j + 4)"
proof -
  note D = seg_heapD [OF assms(1)]
  show "load32 (heap_bytes s) (h + n) = tag j f" "8 dvd j"
    using D(1,3) assms(2,3) by (cases ys; force simp: next_blk_def add.assoc)+
  show "in_arena s (h + n) (j + 4)"
    by (rule in_arena_sub [OF D(4)]) (use assms(2,3) in \<open>cases ys; force simp: next_blk_def\<close>)+
qed

section \<open>Writing tags with \<^verbatim>\<open>PUT\<close>\<close>

lemma TPUT_tag:
  "in_arena s a 4 \<Longrightarrow> load32 (heap_bytes s) a = tag n f \<Longrightarrow> 8 dvd n \<Longrightarrow>
   TPUT (w32 a) v s = ok (s\<lparr>heap_bytes := store32 (heap_bytes s) a v\<rparr>)"
  by (simp add: TPUT_w32 tag_unmarked)

lemma TPUT_FTRP_tag:
  "in_arena s (a - 4) 4 \<Longrightarrow> load32 (heap_bytes s) (a - 4) = tag n f \<Longrightarrow> 8 dvd n \<Longrightarrow> 4 \<le> a \<Longrightarrow>
   8 \<le> a + n \<Longrightarrow> in_arena s (a + n - 8) 4 \<Longrightarrow>
   TPUT_FTRP (w32 a) v s
     = ok (s\<lparr>heap_bytes := store32 (heap_bytes s) (a + n - 8) (v OR (load32 (heap_bytes s) (a + n - 8) AND 2))\<rparr>)"
  by (simp add: TPUT_FTRP_def TPUT_w32)

lemma GET_TAG_tag: "in_arena s a 4 \<Longrightarrow> load32 (heap_bytes s) a = tag n f \<Longrightarrow> 8 dvd n \<Longrightarrow> GET_TAG (w32 a) s = ok 0"
  by (simp add: GET_TAG_def tag_unmarked)

lemma load_footer: "16 \<le> n \<Longrightarrow> load32 (store32 m h v) (h + n - 4) = load32 m (h + n - 4)"
  by (rule load32_store32_other) linarith

section \<open>Blocks that take the place of others\<close>

text \<open>\<open>seg_step s s' bs\<close>: the heap of \<open>s'\<close> is \<open>bs\<close>, fully listed, and the payloads in it are those of \<open>s\<close>.\<close>

definition seg_frame :: "seg \<Rightarrow> seg \<Rightarrow> bool" where
  "seg_frame s s' \<longleftrightarrow> mem_start_brk s' = mem_start_brk s \<and> mem_brk s' = mem_brk s
     \<and> mem_max_addr s' = mem_max_addr s \<and> seg_listp s' = seg_listp s"

definition seg_step :: "seg \<Rightarrow> seg \<Rightarrow> blk list \<Rightarrow> bool" where
  "seg_step s s' bs \<longleftrightarrow> seg_heap s' bs \<and> listed s' (seg_frees s' bs)
     \<and> seg_frame s s'
     \<and> kept (seg_payloads s bs) (heap_bytes s) (heap_bytes s')"

lemma seg_step_relinked:
  assumes "seg_heap s bs" "relinked bs s s1" "seg_step s1 s' bs'" "set (seg_payloads s bs') \<subseteq> set (seg_payloads s bs)"
  shows "seg_step s s' bs'"
proof -
  have "kept (seg_payloads s bs') (heap_bytes s) (heap_bytes s1)"
    using relinked_heap(2) [OF assms(1,2)] assms(4) by (rule kept_subset)
  moreover have "seg_payloads s1 bs' = seg_payloads s bs'"
    using relinked_start [OF assms(2)] by (simp add: seg_payloads_def)
  ultimately have "kept (seg_payloads s bs') (heap_bytes s) (heap_bytes s')"
    using assms(3) by (auto simp: seg_step_def intro: kept_trans)
  then show ?thesis using assms(2,3) by (auto simp: seg_step_def relinked_def seg_frame_def)
qed

lemma seg_frees_remove:
  assumes "seg_heap s (xs @ mid @ ys)" "h = start_of s + 12 + extent xs" "n = extent mid"
  shows "seg_frees s (xs @ mid @ ys) - set (frees h mid) = set (frees (start_of s + 12) xs) \<union> set (frees (h + n) ys)"
  unfolding seg_frees_def assms(2,3) by (rule frees_remove [OF seg_heapD(1) [OF assms(1)]])

text \<open>A stretch of blocks is stamped as one free block, which is then listed.\<close>

lemma seg_merge:
  assumes heap: "seg_heap s (xs @ mid @ ys)" and h: "h = start_of s + 12 + extent xs" and n: "n = extent mid" "16 \<le> n"
    and li: "listed s (set (frees (start_of s + 12) xs) \<union> set (frees (h + n) ys))"
  shows "\<exists>s'. seg_insert_block (w32 (h + 4)) (w32 n) (s\<lparr>heap_bytes := stamp (heap_bytes s) h n False\<rparr>) = ok s'
     \<and> seg_step s s' (xs @ (n, False) # ys)"
proof -
  let ?s = "s\<lparr>heap_bytes := stamp (heap_bytes s) h n False\<rparr>"
  let ?F = "set (frees (start_of s + 12) xs) \<union> set (frees (h + n) ys)" and ?B = "xs @ [(n, False)] @ ys"
  have "8 dvd n" using seg_heapD(1) [OF heap] n(1) by (auto dest: chain_dvd)
  then have st: "wchain (stamp (heap_bytes s) h n False) h [(n, False)]"
      "same_outside h (h + n) (heap_bytes s) (stamp (heap_bytes s) h n False)"
    using n(2) by (simp_all add: wchain_stamp same_outside_stamp del: gchain.simps)
  have sz: "extent [(n, False)] = n" "\<forall>b \<in> set [(n, False)]. 16 \<le> fst b" using n(2) by simp_all
  note R = seg_restamp [OF heap h n(1) st(1) sz st(2) li order_refl]
  have F: "seg_frees ?s ?B = insert (h + 4, n) ?F" using h by (auto simp: seg_frees_def ac_simps)
  have "(h + 4, n) \<notin> ?F"
    using frees_remove [of loose_ftr "heap_bytes ?s" "start_of s + 12" xs "[(n, False)]" ys] seg_heapD(1) [OF R(1)] h
    by auto
  with seg_insert_step [OF R(1) _ R(2)] F
  obtain s' where s': "seg_insert_block (w32 (h + 4)) (w32 n) ?s = ok s'" "relinked ?B ?s s'" "listed s' (insert (h + 4, n) ?F)"
    by blast
  note L = relinked_heap [OF R(1) s'(2)]
  have pay: "seg_payloads s ?B = payloads (start_of s + 12) xs @ payloads (h + n) ys" "seg_payloads ?s ?B = seg_payloads s ?B"
    using h by (simp_all add: seg_payloads_def ac_simps)
  have "kept (seg_payloads s ?B) (heap_bytes s) (heap_bytes s')"
    using kept_trans [OF R(3)] L(2) pay by simp
  moreover have "seg_frame s s'" using s'(2) by (auto simp: relinked_def seg_frame_def)
  moreover have "seg_frees s' ?B = insert (h + 4, n) ?F" using F relinked_start [OF s'(2)] by simp
  ultimately show ?thesis using s'(1,3) L(1) by (auto simp: seg_step_def)
qed

text \<open>The same for a stretch of free blocks that the lists no longer hold.\<close>

lemma seg_take:
  assumes heap: "seg_heap s (xs @ mid @ ys)" and h: "h = start_of s + 12 + extent xs" and n: "n = extent mid" "16 \<le> n"
    and free: "\<forall>b \<in> set mid. \<not> snd b" and re: "relinked (xs @ mid @ ys) s s2"
    and li: "listed s2 (seg_frees s (xs @ mid @ ys) - set (frees h mid))"
  shows "\<exists>s'. seg_insert_block (w32 (h + 4)) (w32 n) (s2\<lparr>heap_bytes := stamp (heap_bytes s2) h n False\<rparr>) = ok s'
     \<and> seg_step s s' (xs @ (n, False) # ys)"
proof -
  have h2: "h = start_of s2 + 12 + extent xs" and st: "start_of s2 = start_of s"
    using h relinked_start [OF re] by simp_all
  have "listed s2 (set (frees (start_of s2 + 12) xs) \<union> set (frees (h + n) ys))"
    using li unfolding seg_frees_remove [OF heap h n(1)] st .
  then obtain s' where s': "seg_insert_block (w32 (h + 4)) (w32 n) (s2\<lparr>heap_bytes := stamp (heap_bytes s2) h n False\<rparr>) = ok s'"
      "seg_step s2 s' (xs @ (n, False) # ys)"
    using seg_merge [OF relinked_heap(1) [OF heap re] h2 n] by blast
  have "payloads k mid = []" for k
    using free by (induction mid arbitrary: k) (auto split: prod.splits)
  then have "set (seg_payloads s (xs @ (n, False) # ys)) \<subseteq> set (seg_payloads s (xs @ mid @ ys))"
    using n(1) by (auto simp: seg_payloads_def)
  then show ?thesis using s'(1) seg_step_relinked [OF heap re s'(2)] by blast
qed

section \<open>Coalescing\<close>

text \<open>The guards, between an untagged left neighbour and a right neighbour or the epilogue.\<close>

lemma seg_coalesce_guards:
  assumes heap: "seg_heap s (xs @ (n, False) # ys)" and h: "h = start_of s + 12 + extent xs"
    and k: "prev_blk xs = (k, g)" and j: "next_blk ys = (j, f)"
  shows "PREV_BLKP (w32 (h + 4)) s = ok (w32 (h - k + 4))" "GET_ALLOC (HDRP (w32 (h - k + 4))) s = ok (of_bool g)"
    "GET_TAG (HDRP (w32 (h - k + 4))) s = ok 0" "GET_SIZE (HDRP (w32 (h - k + 4))) s = ok (w32 k)"
    "NEXT_BLKP (w32 (h + 4)) s = ok (w32 (h + n + 4))" "GET_ALLOC (HDRP (w32 (h + n + 4))) s = ok (of_bool f)"
    "GET_SIZE (HDRP (w32 (h + n + 4))) s = ok (w32 j)" "GET_SIZE (HDRP (w32 (h + 4))) s = ok (w32 n)"
proof -
  note O = seg_own [OF heap h] and P = seg_prev [OF heap h k] and N = seg_next [OF heap h j]
  have ar: "in_arena s h 4" "in_arena s (h - k) 4" "in_arena s (h + n) 4" "in_arena s (h - 4) 4"
    using O(4) N(3) P(3,5,6) by (auto intro: in_arena_sub)
  have "PREV_BLKP (w32 (h + 4)) s = ok (w32 (h + 4 - k))"
    by (rule PREV_BLKP_loose [where f = g]) (use P ar in simp_all)
  then show "PREV_BLKP (w32 (h + 4)) s = ok (w32 (h - k + 4))" using P(5) by simp
  show "GET_TAG (HDRP (w32 (h - k + 4))) s = ok 0" using GET_TAG_tag [OF ar(2) P(1,4)] by simp
qed (use seg_own [OF heap h] seg_prev [OF heap h k] seg_next [OF heap h j] in \<open>simp_all add: in_arena_def ac_simps\<close>)

lemma seg_coalesce_none:
  assumes "seg_heap s (xs @ (n, False) # ys)" "h = start_of s + 12 + extent xs"
    and "prev_blk xs = (k, True)" "next_blk ys = (j, True)"
  shows "seg_coalesce (w32 (h + 4)) s = ok (w32 (h + 4), s)"
  using seg_coalesce_guards [OF assms] by (simp add: seg_coalesce_def)

lemma seg_coalesce_next:
  assumes heap: "seg_heap s (xs @ (n, False) # (j, False) # ys)" (is "seg_heap s ?B")
    and h: "h = start_of s + 12 + extent xs" and k: "prev_blk xs = (k, True)"
    and li: "listed s (seg_frees s (xs @ (n, False) # (j, False) # ys))"
  shows "\<exists>s'. seg_coalesce (w32 (h + 4)) s = ok (w32 (h + 4), s') \<and> seg_step s s' (xs @ (n + j, False) # ys)"
proof -
  let ?F = "seg_frees s ?B" and ?mid = "[(n, False), (j, False)]"
  have j: "next_blk ((j, False) # ys) = (j, False)" by (simp add: next_blk_def)
  have F: "(h + 4, n) \<in> ?F" "(h + n + 4, j) \<in> ?F" using h by (auto simp: seg_frees_def ac_simps)
  obtain s1 where s1: "seg_delete_block (w32 (h + 4)) s = ok s1" "relinked ?B s s1" "listed s1 (?F - {(h + 4, n)})"
    using seg_delete_step [OF heap _ li F(1)] by blast
  note H1 = relinked_heap(1) [OF heap s1(2)] and S1 = relinked_start [OF s1(2)]
  have F1: "?F - {(h + 4, n)} \<subseteq> seg_frees s1 ?B" "(h + n + 4, j) \<in> ?F - {(h + 4, n)}"
    using S1 F(2) seg_own(2) [OF heap h] by auto
  obtain s2 where s2: "seg_delete_block (w32 (h + n + 4)) s1 = ok s2" "relinked ?B s1 s2"
      "listed s2 (?F - {(h + 4, n)} - {(h + n + 4, j)})"
    using seg_delete_step [OF H1 F1(1) s1(3) F1(2)] by blast
  note H2 = relinked_heap(1) [OF H1 s2(2)] and S2 = relinked_start [OF s2(2)]
  have h1: "h = start_of s1 + 12 + extent xs" and h2: "h = start_of s2 + 12 + extent xs" using h S1 S2 by simp_all
  note O = seg_own [OF H2 h2] and N = seg_next [OF H2 h2 j]
  have nj: "16 \<le> n + j" "8 dvd n + j" using O N by simp_all
  have gone: "set (frees h ?mid) = {(h + n + 4, j), (h + 4, n)}" by auto
  have lim: "listed s2 (seg_frees s (xs @ ?mid @ ys) - set (frees h ?mid))"
    unfolding gone using s2(3) by (subst Diff_insert) simp
  have mid: "seg_heap s (xs @ ?mid @ ys)" "n + j = extent ?mid" "\<forall>b \<in> set ?mid. \<not> snd b" "relinked (xs @ ?mid @ ys) s s2"
    using heap relinked_trans [OF s1(2) s2(2)] by simp_all
  obtain s' where s': "seg_insert_block (w32 (h + 4)) (w32 (n + j)) (s2\<lparr>heap_bytes := stamp (heap_bytes s2) h (n + j) False\<rparr>) = ok s'"
      "seg_step s s' (xs @ (n + j, False) # ys)"
    using seg_take [OF mid(1) h mid(2) nj(1) mid(3,4) lim] by blast
  have ar: "in_arena s2 h 4" "in_arena s2 (h + (n + j) - 4) 4"
    using O(2,4) N(3) by (auto simp: in_arena_def)
  have put: "TPUT (HDRP (w32 (h + 4))) v s2 = ok (s2\<lparr>heap_bytes := store32 (heap_bytes s2) h v\<rparr>)" for v
    using TPUT_tag [OF ar(1) O(1,3)] by simp
  let ?s3 = "s2\<lparr>heap_bytes := store32 (heap_bytes s2) h (tag (n + j) False)\<rparr>"
  have putf: "TPUT_FTRP (w32 (h + 4)) (tag (n + j) False) ?s3
      = ok (s2\<lparr>heap_bytes := stamp (heap_bytes s2) h (n + j) False\<rparr>)"
    using TPUT_FTRP_tag [of ?s3 "h + 4" "n + j" False] ar nj by (simp add: stamp_def load_footer)
  have "seg_coalesce (w32 (h + 4)) s = ok (w32 (h + 4), s')"
    using seg_coalesce_guards [OF heap h k j] seg_coalesce_guards [OF H1 h1 k j] seg_coalesce_guards [OF H2 h2 k j]
      s1(1) s2(1) put putf s'(1)
    by (simp add: seg_coalesce_def)
  with s'(2) show ?thesis by blast
qed

text \<open>Two blocks leave their lists, one after the other.\<close>

lemma seg_delete_two:
  assumes heap: "seg_heap s bs" and F: "F \<subseteq> seg_frees s bs" "listed s F" "(a, n) \<in> F" "(b, k) \<in> F" "a \<noteq> b"
  shows "\<exists>s1 s2. seg_delete_block (w32 a) s = ok s1 \<and> seg_delete_block (w32 b) s1 = ok s2
    \<and> relinked bs s s1 \<and> relinked bs s s2 \<and> listed s2 (F - {(a, n)} - {(b, k)})"
proof -
  obtain s1 where s1: "seg_delete_block (w32 a) s = ok s1" "relinked bs s s1" "listed s1 (F - {(a, n)})"
    using seg_delete_step [OF heap F(1-3)] by blast
  have "F - {(a, n)} \<subseteq> seg_frees s1 bs" "(b, k) \<in> F - {(a, n)}"
    using relinked_start [OF s1(2)] F by auto
  then obtain s2 where "seg_delete_block (w32 b) s1 = ok s2" "relinked bs s1 s2" "listed s2 (F - {(a, n)} - {(b, k)})"
    using seg_delete_step [OF relinked_heap(1) [OF heap s1(2)] _ s1(3)] by blast
  then show ?thesis using s1 relinked_trans [OF s1(2)] by blast
qed

text \<open>The tags of the block joined with its left neighbour: footer first, then the header of the neighbour.\<close>

lemma seg_write_prev:
  assumes heap: "seg_heap s (xs @ (k, False) # (n, False) # ys)" and hp: "hp = start_of s + 12 + extent xs"
    and t: "t = tag (k + n) False"
  shows "\<exists>m. TPUT_FTRP (w32 (hp + k + 4)) t s = ok (s\<lparr>heap_bytes := m\<rparr>)
    \<and> PREV_BLKP (w32 (hp + k + 4)) (s\<lparr>heap_bytes := m\<rparr>) = ok (w32 (hp + 4))
    \<and> TPUT (HDRP (w32 (hp + 4))) t (s\<lparr>heap_bytes := m\<rparr>) = ok (s\<lparr>heap_bytes := stamp (heap_bytes s) hp (k + n) False\<rparr>)
    \<and> PREV_BLKP (w32 (hp + k + 4)) (s\<lparr>heap_bytes := stamp (heap_bytes s) hp (k + n) False\<rparr>) = ok (w32 (hp + 4))"
proof -
  let ?h = "hp + k" and ?m = "heap_bytes s" and ?xs = "xs @ [(k, False)]"
  have heap': "seg_heap s (?xs @ (n, False) # ys)" and h: "?h = start_of s + 12 + extent ?xs"
    and k: "prev_blk ?xs = (k, False)" using heap hp by (simp_all add: prev_blk_def)
  note O = seg_own [OF heap' h] and P = seg_prev [OF heap' h k]
  have ar: "in_arena s ?h 4" "in_arena s (?h + n - 4) 4" "in_arena s hp 4" "in_arena s (?h - 4) 4"
    using O(2,4) P(3,6) by (auto simp: in_arena_def)
  let ?m3 = "store32 ?m (?h + n - 4) (t OR (load32 ?m (?h + n - 4) AND 2))"
  have putf: "TPUT_FTRP (w32 (?h + 4)) t s = ok (s\<lparr>heap_bytes := ?m3\<rparr>)"
    using TPUT_FTRP_tag [of s "?h + 4" n False t] ar O(1-3) by (simp add: add.assoc)
  have far: "load32 ?m3 hp = load32 ?m hp" "load32 ?m3 (?h - 4) = load32 ?m (?h - 4)"
    using O(2) P(3) by (auto intro!: load32_store32_other)
  have put: "TPUT (HDRP (w32 (hp + 4))) t (s\<lparr>heap_bytes := ?m3\<rparr>) = ok (s\<lparr>heap_bytes := stamp ?m hp (k + n) False\<rparr>)"
    using TPUT_tag [of "s\<lparr>heap_bytes := ?m3\<rparr>" hp k False t] ar(3) far(1) P(1,4)
      store32_commute [of hp "?h + n - 4" ?m t] O(2) by (simp add: stamp_def t add.assoc)
  have ftr: "PREV_BLKP (w32 (?h + 4)) (s\<lparr>heap_bytes := m\<rparr>) = ok (w32 (hp + 4))"
    if "load32 m (?h - 4) = load32 ?m (?h - 4)" for m
    using PREV_BLKP_loose [of "s\<lparr>heap_bytes := m\<rparr>" "?h + 4" k False] that P(2,3,4) ar(4) by simp
  have "load32 (stamp ?m hp (k + n) False) (?h - 4) = load32 ?m (?h - 4)"
    using O(2) P(3) by (auto simp: stamp_def intro!: trans [OF load32_store32_other])
  then show ?thesis using putf put ftr [OF far(2)] ftr by blast
qed

lemma seg_coalesce_prev:
  assumes heap: "seg_heap s (xs @ (k, False) # (n, False) # ys)" (is "seg_heap s ?B")
    and hp: "hp = start_of s + 12 + extent xs" and j: "next_blk ys = (j, True)"
    and li: "listed s (seg_frees s (xs @ (k, False) # (n, False) # ys))"
  shows "\<exists>s'. seg_coalesce (w32 (hp + k + 4)) s = ok (w32 (hp + 4), s') \<and> seg_step s s' (xs @ (k + n, False) # ys)"
proof -
  let ?F = "seg_frees s ?B" and ?mid = "[(k, False), (n, False)]" and ?h = "hp + k" and ?xs = "xs @ [(k, False)]"
  have F: "(?h + 4, n) \<in> ?F" "(hp + 4, k) \<in> ?F" using hp by (auto simp: seg_frees_def ac_simps)
  have "?h + 4 \<noteq> hp + 4" using seg_own(2) [OF heap hp] by simp
  from seg_delete_two [OF heap order_refl li F this] obtain s1 s2 where
      s1: "seg_delete_block (w32 (?h + 4)) s = ok s1" "relinked ?B s s1"
      and s2: "seg_delete_block (w32 (hp + 4)) s1 = ok s2" "relinked ?B s s2"
        "listed s2 (?F - {(?h + 4, n)} - {(hp + 4, k)})" by blast
  note H1 = relinked_heap(1) [OF heap s1(2)] and H2 = relinked_heap(1) [OF heap s2(2)]
  have h: "?h = start_of s + 12 + extent ?xs" "?h = start_of s1 + 12 + extent ?xs" "?h = start_of s2 + 12 + extent ?xs"
    and hp2: "hp = start_of s2 + 12 + extent xs" and k: "prev_blk ?xs = (k, False)"
    using hp relinked_start [OF s1(2)] relinked_start [OF s2(2)] by (simp_all add: prev_blk_def)
  have H: "seg_heap s (?xs @ (n, False) # ys)" "seg_heap s1 (?xs @ (n, False) # ys)" "seg_heap s2 (?xs @ (n, False) # ys)"
    using heap H1 H2 by simp_all
  have nj: "16 \<le> k + n" using seg_own(2) [OF H2 hp2] by simp
  have gone: "set (frees hp ?mid) = {(hp + 4, k), (?h + 4, n)}" by auto
  have lim: "listed s2 (seg_frees s (xs @ ?mid @ ys) - set (frees hp ?mid))"
    unfolding gone using s2(3) by (subst Diff_insert) simp
  have mid: "seg_heap s (xs @ ?mid @ ys)" "k + n = extent ?mid" "\<forall>b \<in> set ?mid. \<not> snd b" "relinked (xs @ ?mid @ ys) s s2"
    using heap s2(2) by simp_all
  obtain s' where s': "seg_insert_block (w32 (hp + 4)) (w32 (k + n)) (s2\<lparr>heap_bytes := stamp (heap_bytes s2) hp (k + n) False\<rparr>) = ok s'"
      "seg_step s s' (xs @ (k + n, False) # ys)"
    using seg_take [OF mid(1) hp mid(2) nj mid(3,4) lim] by blast
  from seg_write_prev [OF H2 hp2 refl] obtain m where
    W: "TPUT_FTRP (w32 (?h + 4)) (tag (k + n) False) s2 = ok (s2\<lparr>heap_bytes := m\<rparr>)"
      "PREV_BLKP (w32 (?h + 4)) (s2\<lparr>heap_bytes := m\<rparr>) = ok (w32 (hp + 4))"
      "TPUT (HDRP (w32 (hp + 4))) (tag (k + n) False) (s2\<lparr>heap_bytes := m\<rparr>)
        = ok (s2\<lparr>heap_bytes := stamp (heap_bytes s2) hp (k + n) False\<rparr>)"
      "PREV_BLKP (w32 (?h + 4)) (s2\<lparr>heap_bytes := stamp (heap_bytes s2) hp (k + n) False\<rparr>) = ok (w32 (hp + 4))" by blast
  have "w32 n + w32 k = w32 (k + n)" "PACK (w32 (k + n)) 0 = tag (k + n) False" by (simp_all add: add.commute)
  then have "seg_coalesce (w32 (?h + 4)) s = ok (w32 (hp + 4), s')"
    using seg_coalesce_guards [OF H(1) h(1) k j] seg_coalesce_guards [OF H(2) h(2) k j] seg_coalesce_guards [OF H(3) h(3) k j]
      s1(1) s2(1) W s'(1)
    by (simp add: seg_coalesce_def)
  with s'(2) show ?thesis by blast
qed

text \<open>And of the block joined with both neighbours: header first, then the footer of the right neighbour.\<close>

lemma seg_write_both:
  assumes heap: "seg_heap s (xs @ (k, False) # (n, False) # (j, False) # ys)" and hp: "hp = start_of s + 12 + extent xs"
    and t: "t = tag (k + n + j) False"
  shows "\<exists>s4. TPUT (HDRP (w32 (hp + 4))) t s = ok s4 \<and> NEXT_BLKP (w32 (hp + k + 4)) s4 = ok (w32 (hp + k + n + 4))
    \<and> TPUT_FTRP (w32 (hp + k + n + 4)) t s4 = ok (s\<lparr>heap_bytes := stamp (heap_bytes s) hp (k + n + j) False\<rparr>)
    \<and> PREV_BLKP (w32 (hp + k + 4)) (s\<lparr>heap_bytes := stamp (heap_bytes s) hp (k + n + j) False\<rparr>) = ok (w32 (hp + 4))"
proof -
  let ?h = "hp + k" and ?m = "heap_bytes s" and ?xs = "xs @ [(k, False)]"
  have heap': "seg_heap s (?xs @ (n, False) # (j, False) # ys)" and h: "?h = start_of s + 12 + extent ?xs"
    and k: "prev_blk ?xs = (k, False)" and j: "next_blk ((j, False) # ys) = (j, False)"
    using heap hp by (simp_all add: prev_blk_def next_blk_def)
  note O = seg_own [OF heap' h] and P = seg_prev [OF heap' h k] and N = seg_next [OF heap' h j]
  have ar: "in_arena s ?h 4" "in_arena s (?h + n + j - 4) 4" "in_arena s hp 4" "in_arena s (?h - 4) 4" "in_arena s (?h + n) 4"
    using O(2,4) P(3,6) N(3) by (auto simp: in_arena_def)
  have j8: "8 \<le> j" using seg_heapD(10) [OF heap] by force
  let ?s4 = "s\<lparr>heap_bytes := store32 ?m hp t\<rparr>"
  have put: "TPUT (HDRP (w32 (hp + 4))) t s = ok ?s4" using TPUT_tag [of s hp k False t] ar(3) P(1,4) by simp
  have far: "load32 (store32 ?m hp t) ?h = load32 ?m ?h" "load32 (store32 ?m hp t) (?h + n) = load32 ?m (?h + n)"
      "load32 (store32 ?m hp t) (?h + n + j - 4) = load32 ?m (?h + n + j - 4)"
    using O(2) P(3) by (auto intro!: load32_store32_other)
  have nxt: "NEXT_BLKP (w32 (?h + 4)) ?s4 = ok (w32 (?h + n + 4))"
    using far(1) O(1,3) ar(1) by (simp add: ac_simps)
  have putf: "TPUT_FTRP (w32 (?h + n + 4)) t ?s4 = ok (s\<lparr>heap_bytes := stamp ?m hp (k + n + j) False\<rparr>)"
    using TPUT_FTRP_tag [of ?s4 "?h + n + 4" j False t] ar far(2,3) N(1,2) j8 by (simp add: stamp_def t add.assoc)
  have "load32 (stamp ?m hp (k + n + j) False) (?h - 4) = load32 ?m (?h - 4)"
    using O(2) P(3) by (auto simp: stamp_def intro!: trans [OF load32_store32_other])
  then have "PREV_BLKP (w32 (?h + 4)) (s\<lparr>heap_bytes := stamp ?m hp (k + n + j) False\<rparr>) = ok (w32 (hp + 4))"
    using PREV_BLKP_loose [of "s\<lparr>heap_bytes := stamp ?m hp (k + n + j) False\<rparr>" "?h + 4" k False] P(2,3,4) ar(4) by simp
  then show ?thesis using put nxt putf by blast
qed

lemma seg_coalesce_both:
  assumes heap: "seg_heap s (xs @ (k, False) # (n, False) # (j, False) # ys)" (is "seg_heap s ?B")
    and hp: "hp = start_of s + 12 + extent xs"
    and li: "listed s (seg_frees s (xs @ (k, False) # (n, False) # (j, False) # ys))"
  shows "\<exists>s'. seg_coalesce (w32 (hp + k + 4)) s = ok (w32 (hp + 4), s') \<and> seg_step s s' (xs @ (k + n + j, False) # ys)"
proof -
  let ?F = "seg_frees s ?B" and ?mid = "[(k, False), (n, False), (j, False)]" and ?h = "hp + k" and ?xs = "xs @ [(k, False)]"
  let ?t = "tag (k + n + j) False"
  have F: "(?h + 4, n) \<in> ?F" "(hp + 4, k) \<in> ?F" "(?h + n + 4, j) \<in> ?F" using hp by (auto simp: seg_frees_def ac_simps)
  have k16: "16 \<le> k" and "?h + 4 \<noteq> hp + 4" using seg_own(2) [OF heap hp] by simp_all
  from seg_delete_two [OF heap order_refl li F(1,2) this(2)] obtain s1 s2 where
      s1: "seg_delete_block (w32 (?h + 4)) s = ok s1" "relinked ?B s s1"
      and s2: "seg_delete_block (w32 (hp + 4)) s1 = ok s2" "relinked ?B s s2"
        "listed s2 (?F - {(?h + 4, n)} - {(hp + 4, k)})" by blast
  have n16: "16 \<le> n" using seg_heapD(10) [OF heap] by force
  have F2: "?F - {(?h + 4, n)} - {(hp + 4, k)} \<subseteq> seg_frees s2 ?B" "(?h + n + 4, j) \<in> ?F - {(?h + 4, n)} - {(hp + 4, k)}"
    using relinked_start [OF s2(2)] F(3) k16 n16 by auto
  obtain s3 where s3: "seg_delete_block (w32 (?h + n + 4)) s2 = ok s3" "relinked ?B s2 s3"
      "listed s3 (?F - {(?h + 4, n)} - {(hp + 4, k)} - {(?h + n + 4, j)})"
    using seg_delete_step [OF relinked_heap(1) [OF heap s2(2)] F2(1) s2(3) F2(2)] by blast
  note R3 = relinked_trans [OF s2(2) s3(2)]
  have H: "seg_heap s (?xs @ (n, False) # (j, False) # ys)" "seg_heap s1 (?xs @ (n, False) # (j, False) # ys)"
      "seg_heap s2 (?xs @ (n, False) # (j, False) # ys)" "seg_heap s3 (?xs @ (n, False) # (j, False) # ys)"
    using heap relinked_heap(1) [OF heap s1(2)] relinked_heap(1) [OF heap s2(2)] relinked_heap(1) [OF heap R3] by simp_all
  have h: "?h = start_of s + 12 + extent ?xs" "?h = start_of s1 + 12 + extent ?xs" "?h = start_of s2 + 12 + extent ?xs"
      "?h = start_of s3 + 12 + extent ?xs" "hp = start_of s3 + 12 + extent xs"
    and nb: "prev_blk ?xs = (k, False)" "next_blk ((j, False) # ys) = (j, False)"
    using hp relinked_start [OF s1(2)] relinked_start [OF s2(2)] relinked_start [OF R3]
    by (simp_all add: prev_blk_def next_blk_def)
  have gone: "set (frees hp ?mid) = insert (?h + n + 4, j) {(hp + 4, k), (?h + 4, n)}" by auto
  have lim: "listed s3 (seg_frees s (xs @ ?mid @ ys) - set (frees hp ?mid))"
    unfolding gone using s3(3) by (subst Diff_insert, subst Diff_insert) simp
  have mid: "seg_heap s (xs @ ?mid @ ys)" "k + n + j = extent ?mid" "16 \<le> k + n + j" "\<forall>b \<in> set ?mid. \<not> snd b"
      "relinked (xs @ ?mid @ ys) s s3"
    using heap R3 k16 by simp_all
  obtain s' where s': "seg_insert_block (w32 (hp + 4)) (w32 (k + n + j)) (s3\<lparr>heap_bytes := stamp (heap_bytes s3) hp (k + n + j) False\<rparr>) = ok s'"
      "seg_step s s' (xs @ (k + n + j, False) # ys)"
    using seg_take [OF mid(1) hp mid(2-5) lim] by blast
  have "seg_heap s3 ?B" using H(4) by simp
  from seg_write_both [OF this h(5) refl] obtain s4 where
    W: "TPUT (HDRP (w32 (hp + 4))) ?t s3 = ok s4" "NEXT_BLKP (w32 (?h + 4)) s4 = ok (w32 (?h + n + 4))"
      "TPUT_FTRP (w32 (?h + n + 4)) ?t s4 = ok (s3\<lparr>heap_bytes := stamp (heap_bytes s3) hp (k + n + j) False\<rparr>)"
      "PREV_BLKP (w32 (?h + 4)) (s3\<lparr>heap_bytes := stamp (heap_bytes s3) hp (k + n + j) False\<rparr>) = ok (w32 (hp + 4))" by blast
  have "w32 n + (w32 k + w32 j) = w32 (k + n + j)" "PACK (w32 (k + n + j)) 0 = ?t" by (simp_all add: ac_simps)
  then have "seg_coalesce (w32 (?h + 4)) s = ok (w32 (hp + 4), s')"
    using seg_coalesce_guards [OF H(1) h(1) nb] seg_coalesce_guards [OF H(2) h(2) nb] seg_coalesce_guards [OF H(3) h(3) nb]
      seg_coalesce_guards [OF H(4) h(4) nb] s1(1) s2(1) s3(1) W s'(1)
    by (simp add: seg_coalesce_def)
  with s'(2) show ?thesis by blast
qed

text \<open>All four cases at once.\<close>

lemma seg_coalesce_joins:
  assumes heap: "seg_heap s (xs @ (n, False) # ys)" and li: "listed s (seg_frees s (xs @ (n, False) # ys))"
    and j: "join_blocks xs n ys = (xs', n', ys')"
  shows "\<exists>s'. seg_coalesce (w32 (start_of s + 16 + extent xs)) s = ok (w32 (start_of s + 16 + extent xs'), s')
     \<and> seg_step s s' (xs' @ (n', False) # ys')"
proof -
  have same: "seg_step s s (xs @ (n, False) # ys)"
    using heap li by (simp add: seg_step_def seg_frame_def kept_def)
  obtain k g where k: "prev_blk xs = (k, g)" by fastforce
  obtain i f where i: "next_blk ys = (i, f)" by fastforce
  have left: "if g then join_blocks xs n ys = (xs, join_next n ys) else \<exists>x0. xs = x0 @ [(k, False)]"
    using k by (cases xs rule: rev_cases) (auto simp: prev_blk_def join_blocks_def split: prod.splits)
  have right: "if f then join_next n ys = (n, ys) else \<exists>y0. ys = (i, False) # y0"
    using i by (cases ys) (auto simp: next_blk_def join_next_def split: bool.splits)
  show ?thesis
  proof (cases g; cases f)
    assume gf: g f
    then have "xs' = xs" "n' = n" "ys' = ys" using left right j by auto
    then show ?thesis using same seg_coalesce_none [OF heap refl [of "start_of s + 12 + extent xs"], of k i] k i gf
      by (auto simp: add.assoc)
  next
    assume gf: g "\<not> f"
    then obtain y0 where "ys = (i, False) # y0" using right by auto
    moreover have "xs' = xs" "n' = n + i" "ys' = y0" using left j calculation gf by (auto simp: join_next_def)
    ultimately show ?thesis using seg_coalesce_next [of s xs n i y0 "start_of s + 12 + extent xs" k] heap li k gf
      by (simp add: add.assoc)
  next
    assume gf: "\<not> g" f
    then obtain x0 where x: "xs = x0 @ [(k, False)]" using left by auto
    moreover have "xs' = x0" "n' = k + n" "ys' = ys" using right j x gf by (auto simp: join_blocks_def)
    ultimately show ?thesis using seg_coalesce_prev [of s x0 k n ys "start_of s + 12 + extent x0" i] heap li i gf
      by (simp add: add.assoc)
  next
    assume gf: "\<not> g" "\<not> f"
    then obtain x0 y0 where x: "xs = x0 @ [(k, False)]" "ys = (i, False) # y0" using left right by auto
    moreover have "xs' = x0" "n' = k + n + i" "ys' = y0" using j x by (auto simp: join_blocks_def join_next_def)
    ultimately show ?thesis using seg_coalesce_both [of s x0 k n i y0 "start_of s + 12 + extent x0"] heap li
      by (simp add: add.assoc)
  qed
qed

section \<open>Freeing\<close>

lemma store32_load32: "store32 m a (load32 m a) = m"
proof -
  have "ucast (load32 m a) = m a" "ucast (drop_bit 8 (load32 m a)) = m (a + 1)"
    "ucast (drop_bit 16 (load32 m a)) = m (a + 2)" "ucast (drop_bit 24 (load32 m a)) = m (a + 3)"
    by (rule bit_word_eqI; auto simp: load32_def bit_simps dest: bit_imp_le_length)+
  then show ?thesis by (simp add: store32_def fun_eq_iff)
qed

lemma seg_free_start:
  assumes heap: "seg_heap s (xs @ (n, True) # ys)" and h: "h = start_of s + 12 + extent xs"
  shows "seg_mm_free (w32 (h + 4)) s
    = bnd (seg_insert_block (w32 (h + 4)) (w32 n) (s\<lparr>heap_bytes := stamp (heap_bytes s) h n False\<rparr>)) (\<lambda>s.
      bnd (seg_coalesce (w32 (h + 4)) s) (\<lambda>(_, s). ok s))"
proof -
  obtain j f where j: "next_blk ys = (j, f)" by fastforce
  note O = seg_own [OF heap h] and N = seg_next [OF heap h j]
  have ar: "in_arena s h 4" "in_arena s (h + n) 4" "in_arena s (h + n - 4) 4"
    using O(2,4) N(3) by (auto simp: in_arena_def)
  have "UNSET_TAG (HDRP (w32 (h + n + 4))) s = ok s"
    using ar(2) N(1,2) store32_load32 [of "heap_bytes s" "h + n"] tag_unset [OF N(2), of f]
    by (simp add: UNSET_TAG_def)
  moreover have "NEXT_BLKP (w32 (h + 4)) s = ok (w32 (h + n + 4))" using ar(1) O(1,3) by (simp add: ac_simps)
  moreover have "TPUT (HDRP (w32 (h + 4))) v s = ok (s\<lparr>heap_bytes := store32 (heap_bytes s) h v\<rparr>)" for v
    using TPUT_tag [OF ar(1) O(1,3)] by simp
  moreover have "TPUT_FTRP (w32 (h + 4)) (tag n False) (s\<lparr>heap_bytes := store32 (heap_bytes s) h (tag n False)\<rparr>)
      = ok (s\<lparr>heap_bytes := stamp (heap_bytes s) h n False\<rparr>)"
    using TPUT_FTRP_tag [of "s\<lparr>heap_bytes := store32 (heap_bytes s) h (tag n False)\<rparr>" "h + 4" n False] ar O(2,3)
    by (simp add: stamp_def load_footer)
  ultimately show ?thesis using ar(1) O(1,3) by (simp add: seg_mm_free_def)
qed

lemma seg_step_inv:
  assumes "seg_step s s' bs" "coalesced bs"
  shows "seg_inv s' bs" "seg_frame s s'" "kept (seg_payloads s bs) (heap_bytes s) (heap_bytes s')"
  using assms by (simp_all add: seg_step_def seg_inv_def)

lemma seg_free_inv:
  assumes inv: "seg_inv s (xs @ (n, True) # ys)" and j: "join_blocks xs n ys = (xs', n', ys')"
  shows "\<exists>s'. seg_mm_free (w32 (start_of s + 16 + extent xs)) s = ok s'
    \<and> seg_inv s' (xs' @ (n', False) # ys') \<and> seg_frame s s'
    \<and> kept (seg_payloads s (xs' @ (n', False) # ys')) (heap_bytes s) (heap_bytes s')"
proof -
  let ?h = "start_of s + 12 + extent xs" and ?m = "xs @ [(n, True)] @ ys"
  have heap: "seg_heap s (xs @ (n, True) # ys)" and co: "coalesced (xs @ (n, True) # ys)"
    and li: "listed s (seg_frees s (xs @ (n, True) # ys))" using inv by (simp_all add: seg_inv_def)
  have n: "16 \<le> n" using seg_own(2) [OF heap refl] .
  have mid: "seg_heap s ?m" "n = extent [(n, True)]" using heap by simp_all
  have "listed s (set (frees (start_of s + 12) xs) \<union> set (frees (?h + n) ys))"
    using li by (simp add: seg_frees_def)
  then obtain s1 where s1: "seg_insert_block (w32 (?h + 4)) (w32 n) (s\<lparr>heap_bytes := stamp (heap_bytes s) ?h n False\<rparr>) = ok s1"
      "seg_step s s1 (xs @ (n, False) # ys)"
    using seg_merge [OF mid(1) refl mid(2) n] by blast
  have st: "start_of s1 = start_of s" using s1(2) by (simp add: seg_step_def seg_frame_def)
  obtain s' where s': "seg_coalesce (w32 (?h + 4)) s1 = ok (w32 (start_of s1 + 16 + extent xs'), s')"
      "seg_step s1 s' (xs' @ (n', False) # ys')"
    using seg_coalesce_joins [OF _ _ j] s1(2) st by (fastforce simp: seg_step_def add.assoc)
  have "coalesced xs" "coalesced ys" "\<forall>b \<in> set xs. 16 \<le> fst b" "\<forall>b \<in> set ys. 16 \<le> fst b"
    using co seg_heapD(10) [OF heap] by (auto simp: coalesced_append coalesced_Cons)
  then have "coalesced (xs' @ (n', False) # ys')" using join_blocks_wf(1) [OF j] n by blast
  note S = seg_step_inv [OF s'(2) this]
  have "seg_payloads s1 (xs' @ (n', False) # ys') = seg_payloads s (xs' @ (n', False) # ys')"
    "seg_payloads s (xs @ (n, False) # ys) = seg_payloads s (xs' @ (n', False) # ys')"
    using st join_blocks_payloads [OF j] by (simp_all add: seg_payloads_def)
  then have "kept (seg_payloads s (xs' @ (n', False) # ys')) (heap_bytes s) (heap_bytes s')"
    using S(3) s1(2) by (auto simp: seg_step_def intro: kept_trans)
  moreover have "seg_frame s s'" using s1(2) S(2) by (simp add: seg_step_def seg_frame_def)
  moreover have "seg_mm_free (w32 (start_of s + 16 + extent xs)) s = ok s'"
    using seg_free_start [OF heap refl] s1(1) s'(1) by (simp add: ac_simps)
  ultimately show ?thesis using S(1) by blast
qed

end
