(* ===== verification/SegList_Correct.thy ===== *)
theory SegList_Correct
  imports SegList_Lists FirstFit_Heap
begin

text \<open>
  What the operations of \<^verbatim>\<open>src/mm.c\<close> do: \<^verbatim>\<open>mm_init\<close> builds a well-formed heap with one free
  block, and \<^verbatim>\<open>mm_malloc\<close> then never returns.
\<close>

section \<open>The search for a fit\<close>

text \<open>The first block of a list that is large enough and carries no reallocation tag.\<close>

definition fits :: "'a mem_scheme \<Rightarrow> u32 \<Rightarrow> nat \<Rightarrow> bool" where
  "fits s asize a \<longleftrightarrow> asize \<le> load32 (heap_bytes s) (a - 4) AND NOT 7 \<and> load32 (heap_bytes s) (a - 4) AND 2 = 0"

lemma seg_fit_loop_find:
  assumes "dlist (heap_bytes s) pr p xs" "nodes_ok s xs" "\<forall>a \<in> set xs. in_arena s (a - 4) 4"
  shows "seg_fit_loop asize p s = ok (case find (fits s asize) xs of None \<Rightarrow> 0 | Some a \<Rightarrow> w32 a)"
  using assms
proof (induction xs arbitrary: p pr)
  case Nil
  then show ?case by (subst seg_fit_loop.simps) simp
next
  case (Cons a xs)
  note a = nodes_okD [OF Cons.prems(2), of a, simplified]
  have p: "p = w32 a" and tl: "dlist (heap_bytes s) (w32 a) (load32 (heap_bytes s) a) xs"
    using Cons.prems(1) by auto
  have "nodes_ok s xs" using Cons.prems(2) by (simp add: nodes_ok_def)
  then have IH: "seg_fit_loop asize (load32 (heap_bytes s) a) s
      = ok (case find (fits s asize) xs of None \<Rightarrow> 0 | Some a \<Rightarrow> w32 a)"
    using Cons.IH [OF tl] Cons.prems(3) by simp
  have "8 dvd a" "0 < a" using a by simp_all
  then have "8 \<le> a" by (auto elim!: dvdE)
  then have hd: "GET (HDRP (w32 a)) s = ok (load32 (heap_bytes s) (a - 4))"
    using Cons.prems(3) by simp
  show ?case
    using a p IH hd
    by (subst seg_fit_loop.simps)
      (auto simp: fits_def GET_SIZE_def GET_TAG_def NEXT_FREEP_def not_less)
qed

text \<open>With list 0 empty the outer loop goes round forever.\<close>

lemma seg_list_loop_Some:
  assumes "seg_list_loop asize list sz bp s = Some r"
  shows "list = 0 \<longrightarrow> sgrlists s ! 0 \<noteq> 0"
proof (rule seg_list_loop.raw_induct [OF _ assms, where P = "\<lambda>asize list sz bp s r. list = 0 \<longrightarrow> sgrlists s ! 0 \<noteq> 0"])
  fix f :: "u32 \<Rightarrow> nat \<Rightarrow> u32 \<Rightarrow> u32 \<Rightarrow> seg \<Rightarrow> u32 res" and asize list sz bp s r
  assume IH: "\<And>asize list sz bp s r. f asize list sz bp s = Some r \<Longrightarrow> list = 0 \<longrightarrow> sgrlists s ! 0 \<noteq> 0"
    and body: "(if list < LISTS then
        if sz \<le> 1 \<and> sgrlists s ! list \<noteq> 0 \<or> list = LISTS - 1 then
          bnd (seg_fit_loop asize (sgrlists s ! list) s) (\<lambda>bp.
          if bp \<noteq> 0 then ok bp else f asize list (drop_bit 1 sz) bp s)
        else f asize list (drop_bit 1 sz) bp s
      else ok bp) = Some r"
  show "list = 0 \<longrightarrow> sgrlists s ! 0 \<noteq> 0"
    using body IH [of asize list "drop_bit 1 sz" bp s r] by (auto split: if_splits)
qed

lemma seg_list_loop_diverges: "sgrlists s ! 0 = 0 \<Longrightarrow> seg_list_loop asize 0 sz bp s = None"
  using seg_list_loop_Some [of asize 0 sz bp s] by (cases "seg_list_loop asize 0 sz bp s") auto

lemma seg_mm_malloc_diverges: "sgrlists s ! 0 = 0 \<Longrightarrow> 0 < sz \<Longrightarrow> seg_mm_malloc ptr sz s = None"
  by (simp add: seg_mm_malloc_def seg_list_loop_diverges Let_def not_le [symmetric])

section \<open>Initialisation\<close>

text \<open>
  The heap right after \<^verbatim>\<open>mm_init\<close>: prologue, a free block of \<^verbatim>\<open>CHUNKSIZE\<close> bytes with empty links,
  epilogue, and the block alone in list 12.
\<close>

definition seg_fresh :: "seg \<Rightarrow> bool" where
  "seg_fresh s \<longleftrightarrow> arena_ok s \<and> seg_listp s = w32 (start_of s + 8) \<and> brk_of s = start_of s + 4112
     \<and> chain (heap_bytes s) (start_of s + 4) [(8, True), (4096, False)]
     \<and> load32 (heap_bytes s) (start_of s + 4108) = tag 0 True
     \<and> sgrlists s = (replicate 20 0)[12 := w32 (start_of s + 16)]
     \<and> dlist (heap_bytes s) 0 (sgrlists s ! 12) [start_of s + 16]"

lemma select_4096: "select_list 0 (w32 4096) = (12, 1)"
  by (rule select_list_small) simp_all

lemma seg_mm_init_fresh:
  assumes "arena_ok s" "mem_brk s = mem_start_brk s"
  shows "\<exists>s'. seg_mm_init s = ok (0, s') \<and> start_of s' = start_of s \<and> top_of s' = top_of s \<and> seg_fresh s'"
proof -
  let ?b = "start_of s"
  have b: "0 < ?b" "8 dvd ?b" "top_of s = ?b + 20971520" "?b + 20971520 < 4294967296"
    using assms(1) unat_u32_less [of "mem_max_addr s"] by (auto simp: arena_ok_def)
  let ?s0 = "s\<lparr>sgrlists := replicate 20 0\<rparr>"
  have sbrk: "mem_sbrk (4 * WSIZE) ?s0 = (w32 ?b, ?s0\<lparr>mem_brk := w32 (?b + 16)\<rparr>)"
    using mem_sbrk_ok [of "w32 16" ?s0] b assms(2) w32_add [of ?b 16] by (simp add: w32_consts)
  let ?m = "store32 (store32 (store32 (store32 (heap_bytes s) ?b 0) (?b + 4) (tag 8 True))
    (?b + 8) (tag 8 True)) (?b + 12) (tag 0 True)"
  let ?s1 = "?s0\<lparr>mem_brk := w32 (?b + 16), heap_bytes := ?m, seg_listp := w32 (?b + 8)\<rparr>"
  let ?s2 = "?s1\<lparr>mem_brk := w32 (?b + 4112)\<rparr>"
  let ?m2 = "fresh_mem ?m (?b + 12) 4096"
  let ?s3 = "?s2\<lparr>heap_bytes := ?m2\<rparr>"
  have tags: "PACK DSIZE 1 = tag 8 True" by (simp add: w32_consts)
  have ini: "seg_mm_init s = bnd (seg_extend_heap (w32 (4096 div 4)) ?s1)
      (\<lambda>(bp, s). if bp = 0 then ok (-1, s) else ok (0, s))"
    using b bp_not_minus1 [of ?b]
    by (simp only: seg_mm_init_def LISTS_val sbrk Let_def prod.case tags)
      (simp add: w32_consts w32_div in_arena_def ac_simps del: w32_unat)
  have sbrk2: "mem_sbrk (w32 4096) ?s1 = (w32 (?b + 16), ?s2)"
    using mem_sbrk_ok [of "w32 4096" ?s1] b w32_add [of "?b + 16" 4096] by (simp add: ac_simps)
  have words: "w32 (4096 div 4) mod 2 = 0" "w32 (4096 div 4) * WSIZE = w32 4096" "\<not> w32 4096 < OVERHEAD"
    by (simp_all add: w32_consts OVERHEAD_def w32_mod)
  have ext: "seg_extend_heap (w32 (4096 div 4)) ?s1
      = bnd (seg_insert_block (w32 (?b + 16)) (w32 4096) ?s3) (seg_coalesce (w32 (?b + 16)))"
    using b bp_not_minus1 [of "?b + 16"]
    by (simp only: seg_extend_heap_def words Let_def sbrk2 simp_thms if_False prod.case)
      (simp add: NPUT_FTRP_def in_arena_def fresh_mem_def set_block_def ac_simps)
  let ?s4 = "set_head 12 (w32 (?b + 16)) (?s3\<lparr>heap_bytes := push_mem ?m2 (?b + 16) []\<rparr>)"
  have "nodes_ok ?s3 [?b + 16]" using b by (simp add: nodes_ok_def in_arena_def)
  then have ins: "seg_insert_block (w32 (?b + 16)) (w32 4096) ?s3 = ok ?s4"
    using seg_insert_front [of ?s3 12 "[]" "?b + 16" "w32 4096" 1] select_4096 by simp
  have m4: "load32 (heap_bytes ?s4) (?b + 4) = tag 8 True" "load32 (heap_bytes ?s4) (?b + 8) = tag 8 True"
      "load32 (heap_bytes ?s4) (?b + 12) = tag 4096 False" "load32 (heap_bytes ?s4) (?b + 4104) = tag 4096 False"
      "load32 (heap_bytes ?s4) (?b + 4108) = tag 0 True" "load32 (heap_bytes ?s4) (?b + 16) = 0"
      "load32 (heap_bytes ?s4) (?b + 20) = 0"
    by (simp_all add: set_head_def push_mem_def fresh_mem_def set_block_def ac_simps)
  have ar: "start_of ?s4 = ?b" "top_of ?s4 = ?b + 20971520"
    using b by (simp_all add: set_head_def)
  have "seg_coalesce (w32 (?b + 16)) ?s4 = ok (w32 (?b + 16), ?s4)"
    using b m4 ar by (simp add: seg_coalesce_def in_arena_def ac_simps)
  moreover have "seg_fresh ?s4"
    using assms(1) b m4 ar by (simp add: seg_fresh_def arena_ok_def set_head_def ac_simps)
  ultimately show ?thesis using ini ext ins b ar
    by (intro exI [of _ ?s4]) simp
qed

end
