(* ===== verification/Block_Heap.thy ===== *)
theory Block_Heap
  imports Blocks
begin

text \<open>
  What \<^verbatim>\<open>place\<close> and \<^verbatim>\<open>mm_free\<close> of a boundary-tag allocator promise, as a locale: on a heap that spells
  a list of blocks they compute \<open>place_blocks\<close> and \<open>join_blocks\<close> and leave the other payloads
  alone. The first-fit allocator and the segregated-list allocator both provide it.
\<close>

section \<open>Programs over blocks\<close>

text \<open>A program of a client: place \<open>a\<close> bytes in block \<open>i\<close>, or release block \<open>i\<close>.\<close>

datatype block_op = Place nat nat | Release nat

text \<open>What a step makes of the list of blocks; \<open>None\<close> when it does not apply.\<close>

fun block_step :: "block_op \<Rightarrow> blk list \<Rightarrow> blk list option" where
  "block_step (Place i a) bs =
     (if i < length bs \<and> \<not> snd (bs ! i) \<and> 16 \<le> a \<and> 8 dvd a \<and> a \<le> fst (bs ! i)
      then Some (take i bs @ place_blocks (fst (bs ! i)) a @ drop (Suc i) bs) else None)"
| "block_step (Release i) bs =
     (if i < length bs \<and> snd (bs ! i)
      then (let (xs, n, ys) = join_blocks (take i bs) (fst (bs ! i)) (drop (Suc i) bs)
            in Some (xs @ (n, False) # ys)) else None)"

fun block_run :: "block_op list \<Rightarrow> blk list \<Rightarrow> blk list option" where
  "block_run [] bs = Some bs"
| "block_run (p # ps) bs = Option.bind (block_step p bs) (block_run ps)"

text \<open>The same program on the heap. Payload pointers are found from the block list; \<open>b\<close> is the first one.\<close>

fun heap_step ::
  "(u32 \<Rightarrow> u32 \<Rightarrow> 's \<Rightarrow> 's res) \<Rightarrow> (u32 \<Rightarrow> 's \<Rightarrow> 's res) \<Rightarrow> nat \<Rightarrow> block_op \<Rightarrow> blk list \<Rightarrow> 's \<Rightarrow> 's res" where
  "heap_step place release b (Place i a) bs s = place (w32 (b + extent (take i bs))) (w32 a) s"
| "heap_step place release b (Release i) bs s = release (w32 (b + extent (take i bs))) s"

fun heap_run ::
  "(u32 \<Rightarrow> u32 \<Rightarrow> 's \<Rightarrow> 's res) \<Rightarrow> (u32 \<Rightarrow> 's \<Rightarrow> 's res) \<Rightarrow> nat \<Rightarrow> block_op list \<Rightarrow> blk list \<Rightarrow> 's \<Rightarrow> 's res" where
  "heap_run place release b [] bs s = ok s"
| "heap_run place release b (p # ps) bs s =
     bnd (heap_step place release b p bs s) (heap_run place release b ps (the (block_step p bs)))"

section \<open>The contract\<close>

locale block_heap =
  fixes inv :: "'s \<Rightarrow> blk list \<Rightarrow> bool" and base :: "'s \<Rightarrow> nat" and bytes :: "'s \<Rightarrow> memory"
    and place :: "u32 \<Rightarrow> u32 \<Rightarrow> 's \<Rightarrow> 's res" and release :: "u32 \<Rightarrow> 's \<Rightarrow> 's res"
  assumes place_law:
      "inv s (xs @ (n, False) # ys) \<Longrightarrow> 16 \<le> a \<Longrightarrow> 8 dvd a \<Longrightarrow> a \<le> n \<Longrightarrow>
       \<exists>s'. place (w32 (base s + extent xs)) (w32 a) s = ok s' \<and> inv s' (xs @ place_blocks n a @ ys)
         \<and> base s' = base s \<and> kept (payloads (base s - 4) (xs @ (n, False) # ys)) (bytes s) (bytes s')"
    and release_law:
      "inv s (xs @ (n, True) # ys) \<Longrightarrow> join_blocks xs n ys = (xs', n', ys') \<Longrightarrow>
       \<exists>s'. release (w32 (base s + extent xs)) s = ok s' \<and> inv s' (xs' @ (n', False) # ys')
         \<and> base s' = base s \<and> kept (payloads (base s - 4) (xs @ (n, False) # ys)) (bytes s) (bytes s')"
    and coalesced_law: "inv s bs \<Longrightarrow> coalesced bs"
begin

text \<open>Releasing what was just placed gives the old blocks back.\<close>

lemma place_release:
  assumes "inv s (xs @ (n, False) # ys)" "16 \<le> a" "8 dvd a" "a \<le> n"
  shows "\<exists>s1 s2. place (w32 (base s + extent xs)) (w32 a) s = ok s1 \<and> release (w32 (base s + extent xs)) s1 = ok s2
    \<and> inv s2 (xs @ (n, False) # ys) \<and> kept (payloads (base s - 4) (xs @ (n, False) # ys)) (bytes s) (bytes s2)"
proof -
  obtain s1 where s1: "place (w32 (base s + extent xs)) (w32 a) s = ok s1" "inv s1 (xs @ place_blocks n a @ ys)"
      "base s1 = base s" "kept (payloads (base s - 4) (xs @ (n, False) # ys)) (bytes s) (bytes s1)"
    using place_law [OF assms] by blast
  obtain k zs where k: "xs @ place_blocks n a @ ys = xs @ (k, True) # zs" "join_blocks xs k zs = (xs, n, ys)"
    using join_placed [OF coalesced_law [OF assms(1)] assms(4)] by blast
  have "inv s1 (xs @ (k, True) # zs)" using s1(2) k(1) by simp
  then obtain s2 where s2: "release (w32 (base s + extent xs)) s1 = ok s2" "inv s2 (xs @ (n, False) # ys)"
      "kept (payloads (base s - 4) (xs @ (k, False) # zs)) (bytes s1) (bytes s2)"
    using release_law [OF _ k(2), of s1] s1(3) by auto
  have "kept (payloads (base s - 4) (xs @ (n, False) # ys)) (bytes s) (bytes s2)"
    using kept_trans [OF s1(4)] s2(3) unfolding join_blocks_payloads [OF k(2)] by blast
  then show ?thesis using s1(1) s2(1,2) by blast
qed

text \<open>Every program that makes sense on the blocks runs on the heap, and computes the same blocks.\<close>

lemma step_refines:
  assumes "inv s bs" "block_step p bs = Some bs'"
  shows "\<exists>s'. heap_step place release (base s) p bs s = ok s' \<and> inv s' bs' \<and> base s' = base s"
proof (cases p)
  case (Place i a)
  then have i: "i < length bs" "bs ! i = (fst (bs ! i), False)" "16 \<le> a" "8 dvd a" "a \<le> fst (bs ! i)"
    and bs': "bs' = take i bs @ place_blocks (fst (bs ! i)) a @ drop (Suc i) bs"
    using assms(2) by (auto split: if_splits simp: prod_eq_iff)
  have "bs = take i bs @ (fst (bs ! i), False) # drop (Suc i) bs"
    using id_take_nth_drop [OF i(1)] i(2) by simp
  then have "inv s (take i bs @ (fst (bs ! i), False) # drop (Suc i) bs)" using assms(1) by simp
  from place_law [OF this i(3-5)] show ?thesis using Place bs' by auto
next
  case (Release i)
  then have i: "i < length bs" "bs ! i = (fst (bs ! i), True)"
    using assms(2) by (auto split: if_splits simp: prod_eq_iff)
  obtain xs n ys where j: "join_blocks (take i bs) (fst (bs ! i)) (drop (Suc i) bs) = (xs, n, ys)"
    using prod_cases3 by blast
  then have bs': "bs' = xs @ (n, False) # ys" using assms(2) Release i by (auto split: if_splits)
  have "bs = take i bs @ (fst (bs ! i), True) # drop (Suc i) bs"
    using id_take_nth_drop [OF i(1)] i(2) by simp
  then have "inv s (take i bs @ (fst (bs ! i), True) # drop (Suc i) bs)" using assms(1) by simp
  from release_law [OF this j] show ?thesis using Release bs' by auto
qed

lemma run_refines:
  "inv s bs \<Longrightarrow> block_run ps bs = Some bs' \<Longrightarrow>
   \<exists>s'. heap_run place release (base s) ps bs s = ok s' \<and> inv s' bs' \<and> base s' = base s"
proof (induction ps arbitrary: s bs)
  case (Cons p ps)
  obtain bs1 where b: "block_step p bs = Some bs1" "block_run ps bs1 = Some bs'"
    using Cons.prems(2) by (auto simp: bind_eq_Some_conv)
  obtain s1 where "heap_step place release (base s) p bs s = ok s1" "inv s1 bs1" "base s1 = base s"
    using step_refines [OF Cons.prems(1) b(1)] by blast
  with Cons.IH [OF _ b(2), of s1] b(1) show ?case by auto
qed simp

end

end
