(* ===== verification/SegList_Ops.thy ===== *)
theory SegList_Ops
  imports SegList_Free SegList_Correct Block_Heap
begin

text \<open>
  The other routines of \<^verbatim>\<open>src/mm.c\<close> under the invariant of theory \<open>SegList_Heap\<close>: \<^verbatim>\<open>place\<close>,
  \<^verbatim>\<open>extend_heap\<close> and \<^verbatim>\<open>mm_init\<close> keep it, and under it \<^verbatim>\<open>mm_malloc\<close> does not return.
\<close>

section \<open>Placing\<close>

lemma chain_wchain: "chain m h bs \<Longrightarrow> wchain m h bs"
  by (induction bs arbitrary: h) (auto simp: loose_tag)

text \<open>The memory of a block split in two.\<close>

definition split_mem :: "memory \<Rightarrow> nat \<Rightarrow> nat \<Rightarrow> nat \<Rightarrow> memory" where
  "split_mem m h n a = set_block (stamp m h a True) (h + a) (n - a) False"

lemma TPUT_FTRP_stamp:
  assumes "16 \<le> k" "k \<le> n" "8 dvd k" "in_arena s h n"
  shows "TPUT_FTRP (w32 (h + 4)) (tag k True) (s\<lparr>heap_bytes := store32 (heap_bytes s) h (tag k True)\<rparr>)
    = ok (s\<lparr>heap_bytes := stamp (heap_bytes s) h k True\<rparr>)"
proof -
  have "in_arena s h 4" "in_arena s (h + k - 4) 4" using assms by (auto intro: in_arena_sub)
  then show ?thesis
    using TPUT_FTRP_tag [of "s\<lparr>heap_bytes := store32 (heap_bytes s) h (tag k True)\<rparr>" "h + 4" k True] assms(1,3)
    by (simp add: stamp_def load_footer)
qed

lemma seg_place_start:
  assumes del: "seg_delete_block (w32 (h + 4)) s = ok s1"
    and tags: "load32 (heap_bytes s) h = tag n False" "load32 (heap_bytes s1) h = tag n False"
    and n: "16 \<le> n" "8 dvd n" "in_arena s h n" "in_arena s1 h n" and a: "16 \<le> a" "8 dvd a" "a \<le> n"
  shows "seg_place (w32 (h + 4)) (w32 a) s
    = (if 16 \<le> n - a
       then seg_insert_block (w32 (h + a + 4)) (w32 (n - a))
          (s1\<lparr>heap_bytes := split_mem (heap_bytes s1) h n a\<rparr>)
       else ok (s1\<lparr>heap_bytes := stamp (heap_bytes s1) h n True\<rparr>))"
proof -
  obtain c where c: "n = a + c" using a(3) by (metis le_iff_add)
  have c8: "8 dvd c" using n(2) a(2) c by (simp add: dvd_add_right_iff)
  have bound: "n < 4294967296" using in_arena_bound [OF n(3)] by simp
  have ar: "in_arena s h 4" "in_arena s1 h 4" using n by (auto intro: in_arena_sub)
  have sz: "GET_SIZE (HDRP (w32 (h + 4))) s = ok (w32 n)" using ar(1) tags(1) n(2) by simp
  have rem: "w32 n - w32 a = w32 c" using c by simp
  have put: "TPUT (HDRP (w32 (h + 4))) v s1 = ok (s1\<lparr>heap_bytes := store32 (heap_bytes s1) h v\<rparr>)" for v
    using TPUT_tag [OF ar(2) tags(2) n(2)] by simp
  note putf = TPUT_FTRP_stamp [OF _ _ _ n(4)]
  show ?thesis
  proof (cases "16 \<le> c")
    case True
    let ?m = "stamp (heap_bytes s1) h a True"
    have st: "load32 ?m h = tag a True" using wchain_stamp [of a "heap_bytes s1" h True] a(1,2) by simp
    have ar2: "in_arena s1 (h + a) 4" "in_arena s1 (h + a + c - 4) 4"
      using n(4) c True by (auto intro!: in_arena_sub [OF n(4)])
    have nxt: "NEXT_BLKP (w32 (h + 4)) (s1\<lparr>heap_bytes := m\<rparr>) = ok (w32 (h + a + 4))" if "load32 m h = tag a True" for m
      using that ar(2) a(2) by (simp add: ac_simps)
    have hd: "load32 (store32 ?m (h + a) v) h = tag a True" for v
      using st a(1) by (simp add: load32_store32_other)
    have ft: "load32 (set_block ?m (h + a) c False) h = tag a True"
      using st same_outside_load32 [OF same_outside_set_block, of c h "h + a" ?m False] True a(1) by simp
    have nput: "NPUT_FTRP (w32 (h + a + 4)) (tag c False) (s1\<lparr>heap_bytes := store32 ?m (h + a) (tag c False)\<rparr>)
        = ok (s1\<lparr>heap_bytes := set_block ?m (h + a) c False\<rparr>)"
      using ar2 c8 True by (simp add: NPUT_FTRP_def set_block_def add.assoc)
    show ?thesis
      using True c a nxt [OF st] nxt [OF hd] nxt [OF ft] nput put putf [of a] sz del rem ar2(1) bound
      by (simp add: seg_place_def MIN_BSIZE_def w32_numeral split_mem_def)
  next
    case False
    then show ?thesis
      using c n a put putf [of n] sz del rem bound by (simp add: seg_place_def MIN_BSIZE_def w32_numeral)
  qed
qed

lemma split_mem_chain:
  assumes "16 \<le> a" "8 dvd a" "16 \<le> n - a" "8 dvd n"
  shows "wchain (split_mem m h n a) h [(a, True), (n - a, False)]" "same_outside h (h + n) m (split_mem m h n a)"
proof -
  let ?m = "split_mem m h n a"
  have st: "wchain (stamp m h a True) h [(a, True)]" by (rule wchain_stamp) (use assms in auto)
  have so: "same_outside (h + a) (h + a + (n - a)) (stamp m h a True) ?m"
    unfolding split_mem_def by (rule same_outside_set_block) (use assms in simp)
  have "wchain ?m h [(a, True)]" by (rule chain_same_outside [OF st so]) simp
  moreover have "wchain ?m (h + a) [(n - a, False)]"
    unfolding split_mem_def by (rule chain_wchain [OF chain_set_block]) (use assms in \<open>auto simp: dvd_diff_nat\<close>)
  ultimately show "wchain ?m h [(a, True), (n - a, False)]" by simp
  show "same_outside h (h + n) m ?m"
    by (rule same_outside_trans [OF same_outside_mono [OF same_outside_stamp] same_outside_mono [OF so]])
      (use assms in auto)
qed

text \<open>Splitting a block that has left its list: the remainder is filed.\<close>

lemma seg_split:
  assumes heap: "seg_heap s (xs @ (n, False) # ys)" and h: "h = start_of s + 12 + extent xs"
    and li: "listed s (set (frees (start_of s + 12) xs) \<union> set (frees (h + n) ys))"
    and a: "16 \<le> a" "8 dvd a" "a \<le> n" "16 \<le> n - a"
  shows "\<exists>s'. seg_insert_block (w32 (h + a + 4)) (w32 (n - a)) (s\<lparr>heap_bytes := split_mem (heap_bytes s) h n a\<rparr>) = ok s'
    \<and> seg_heap s' (xs @ [(a, True), (n - a, False)] @ ys) \<and> listed s' (seg_frees s' (xs @ [(a, True), (n - a, False)] @ ys))
    \<and> seg_frame s s'
    \<and> kept (seg_payloads s (xs @ (n, False) # ys)) (heap_bytes s) (heap_bytes s')"
proof -
  let ?mid = "[(a, True), (n - a, False)]" and ?s2 = "s\<lparr>heap_bytes := split_mem (heap_bytes s) h n a\<rparr>"
  let ?F = "set (frees (start_of s + 12) xs) \<union> set (frees (h + n) ys)" and ?C = "xs @ ?mid @ ys"
  have H: "seg_heap s (xs @ [(n, False)] @ ys)" "n = extent [(n, False)]" using heap by simp_all
  have n8: "8 dvd n" using seg_own(3) [OF heap h] .
  have sz: "extent ?mid = n" "\<forall>b \<in> set ?mid. 16 \<le> fst b" using a by simp_all
  note M = split_mem_chain [OF a(1,2,4) n8, where m = "heap_bytes s" and h = h]
  note R = seg_restamp [OF H(1) h H(2) M(1) sz M(2) li order_refl]
  have F: "seg_frees ?s2 ?C = insert (h + a + 4, n - a) ?F" using h a(3) by (auto simp: seg_frees_def ac_simps)
  have "seg_frees ?s2 ((xs @ [(a, True)]) @ [(n - a, False)] @ ys) - set (frees (h + a) [(n - a, False)])
      = set (frees (start_of ?s2 + 12) (xs @ [(a, True)])) \<union> set (frees (h + a + (n - a)) ys)"
    by (rule seg_frees_remove) (use R(1) h in simp_all)
  moreover have "(h + a + 4, n - a) \<in> set (frees (h + a) [(n - a, False)])" by simp
  moreover have "set (frees (start_of ?s2 + 12) (xs @ [(a, True)])) \<union> set (frees (h + a + (n - a)) ys) = ?F"
    using a(3) by (simp add: add.assoc)
  ultimately have new: "(h + a + 4, n - a) \<notin> ?F" by blast
  obtain s' where s': "seg_insert_block (w32 (h + a + 4)) (w32 (n - a)) ?s2 = ok s'" "relinked ?C ?s2 s'"
      "listed s' (insert (h + a + 4, n - a) ?F)"
    using seg_insert_step [OF R(1) _ R(2) new] F by blast
  note H2 = relinked_heap [OF R(1) s'(2)]
  have fr: "seg_frame s s'" using s'(2) by (auto simp: relinked_def seg_frame_def)
  have pays: "seg_payloads s (xs @ (n, False) # ys) = payloads (start_of s + 12) xs @ payloads (h + n) ys"
    and sub: "set (seg_payloads s (xs @ (n, False) # ys)) \<subseteq> set (seg_payloads ?s2 ?C)"
    using h a(3) by (auto simp: seg_payloads_def ac_simps)
  have kp: "kept (seg_payloads s (xs @ (n, False) # ys)) (heap_bytes s) (heap_bytes s')"
    using kept_trans [OF R(3)] kept_subset [OF H2(2) sub] pays by simp
  have "seg_frees s' ?C = insert (h + a + 4, n - a) ?F" using F relinked_start [OF s'(2)] by simp
  then show ?thesis using s'(1,3) H2(1) fr kp by auto
qed

text \<open>Or the whole block is stamped as allocated.\<close>

lemma seg_take_all:
  assumes heap: "seg_heap s (xs @ (n, False) # ys)" and h: "h = start_of s + 12 + extent xs"
    and li: "listed s (set (frees (start_of s + 12) xs) \<union> set (frees (h + n) ys))"
    and s': "s' = s\<lparr>heap_bytes := stamp (heap_bytes s) h n True\<rparr>"
  shows "seg_heap s' (xs @ [(n, True)] @ ys)" "listed s' (seg_frees s' (xs @ [(n, True)] @ ys))"
    "kept (seg_payloads s (xs @ (n, False) # ys)) (heap_bytes s) (heap_bytes s')"
proof -
  note O = seg_own [OF heap h]
  have H: "seg_heap s (xs @ [(n, False)] @ ys)" "n = extent [(n, False)]" using heap by simp_all
  have n8: "8 \<le> n" using O(2) by simp
  have sz: "extent [(n, True)] = n" "\<forall>b \<in> set [(n, True)]. 16 \<le> fst b" using O(2) by simp_all
  note R = seg_restamp [OF H(1) h H(2) wchain_stamp [OF n8 O(3)] sz same_outside_stamp [OF n8] li order_refl]
  have F: "seg_frees s' (xs @ [(n, True)] @ ys) = set (frees (start_of s + 12) xs) \<union> set (frees (h + n) ys)"
    and P: "seg_payloads s (xs @ (n, False) # ys) = payloads (start_of s + 12) xs @ payloads (h + n) ys"
    using h by (simp_all add: s' seg_frees_def seg_payloads_def ac_simps)
  show "seg_heap s' (xs @ [(n, True)] @ ys)" "listed s' (seg_frees s' (xs @ [(n, True)] @ ys))"
    "kept (seg_payloads s (xs @ (n, False) # ys)) (heap_bytes s) (heap_bytes s')"
    unfolding F P using R by (simp_all add: s')
qed

lemma seg_place_inv:
  assumes inv: "seg_inv s (xs @ (n, False) # ys)" and a: "16 \<le> a" "8 dvd a" "a \<le> n"
  shows "\<exists>s'. seg_place (w32 (start_of s + 16 + extent xs)) (w32 a) s = ok s'
    \<and> seg_inv s' (xs @ place_blocks n a @ ys) \<and> seg_frame s s'
    \<and> kept (seg_payloads s (xs @ (n, False) # ys)) (heap_bytes s) (heap_bytes s')"
proof -
  let ?h = "start_of s + 12 + extent xs" and ?B = "xs @ (n, False) # ys"
  have heap: "seg_heap s ?B" and co: "coalesced ?B" and li: "listed s (seg_frees s ?B)"
    using inv by (simp_all add: seg_inv_def)
  have "(?h + 4, n) \<in> seg_frees s ?B" by (simp add: seg_frees_def)
  then obtain s1 where s1: "seg_delete_block (w32 (?h + 4)) s = ok s1" "relinked ?B s s1"
      "listed s1 (seg_frees s ?B - {(?h + 4, n)})"
    using seg_delete_step [OF heap _ li] by blast
  note H1 = relinked_heap [OF heap s1(2)] and S1 = relinked_start [OF s1(2)]
  have h1: "?h = start_of s1 + 12 + extent xs" using S1 by simp
  have li1: "listed s1 (set (frees (start_of s1 + 12) xs) \<union> set (frees (?h + n) ys))"
    using s1(3) seg_frees_remove [of s xs "[(n, False)]" ys ?h n] heap S1 by simp
  note O = seg_own [OF heap refl] and O1 = seg_own [OF H1(1) h1]
  have ar: "in_arena s ?h n" "in_arena s1 ?h n" using O(4) O1(4) by (auto intro: in_arena_sub)
  note run = seg_place_start [OF s1(1) O(1) O1(1) O(2,3) ar a]
  have pays: "seg_payloads s1 ?B = seg_payloads s ?B" using S1 by (simp add: seg_payloads_def)
  have fr: "seg_frame s s1" using s1(2) by (auto simp: relinked_def seg_frame_def)
  have "\<exists>s'. seg_place (w32 (?h + 4)) (w32 a) s = ok s' \<and> seg_heap s' (xs @ place_blocks n a @ ys)
      \<and> listed s' (seg_frees s' (xs @ place_blocks n a @ ys)) \<and> seg_frame s1 s'
      \<and> kept (seg_payloads s ?B) (heap_bytes s1) (heap_bytes s')"
  proof (cases "16 \<le> n - a")
    case True
    then show ?thesis using seg_split [OF H1(1) h1 li1 a True] run pays by (auto simp: place_blocks_def)
  next
    case False
    then show ?thesis using seg_take_all [OF H1(1) h1 li1 refl] run pays
      by (auto simp: place_blocks_def seg_frame_def)
  qed
  moreover have "coalesced (xs @ place_blocks n a @ ys)"
    using co by (auto simp: place_blocks_def coalesced_append coalesced_Cons)
  ultimately show ?thesis using fr kept_trans [OF H1(2)]
    by (auto simp: seg_inv_def seg_frame_def add.assoc)
qed

text \<open>Placing and freeing meet the contract of theory \<open>Block_Heap\<close>.\<close>

interpretation segb: block_heap seg_inv "\<lambda>s. start_of s + 16" heap_bytes seg_place seg_mm_free
proof unfold_locales
  fix s xs n ys a
  assume "seg_inv s (xs @ (n, False) # ys)" "16 \<le> a" "8 dvd a" "a \<le> n"
  note P = seg_place_inv [OF this]
  have base: "start_of s + 16 - 4 = start_of s + 12" by simp
  show "\<exists>s'. seg_place (w32 (start_of s + 16 + extent xs)) (w32 a) s = ok s' \<and> seg_inv s' (xs @ place_blocks n a @ ys)
      \<and> start_of s' + 16 = start_of s + 16
      \<and> kept (payloads (start_of s + 16 - 4) (xs @ (n, False) # ys)) (heap_bytes s) (heap_bytes s')"
    unfolding base using P by (auto simp: seg_frame_def seg_payloads_def)
next
  fix s xs n ys xs' n' ys'
  assume "seg_inv s (xs @ (n, True) # ys)" and j: "join_blocks xs n ys = (xs', n', ys')"
  note P = seg_free_inv [OF this]
  have base: "start_of s + 16 - 4 = start_of s + 12" by simp
  show "\<exists>s'. seg_mm_free (w32 (start_of s + 16 + extent xs)) s = ok s' \<and> seg_inv s' (xs' @ (n', False) # ys')
      \<and> start_of s' + 16 = start_of s + 16
      \<and> kept (payloads (start_of s + 16 - 4) (xs @ (n, False) # ys)) (heap_bytes s) (heap_bytes s')"
    unfolding base join_blocks_payloads [OF j, symmetric] using P by (auto simp: seg_frame_def seg_payloads_def)
qed (simp add: seg_inv_def)

section \<open>Extending the heap\<close>

lemma seg_extend_start:
  assumes heap: "seg_heap s bs" and h: "h = start_of s + 12 + extent bs"
    and e: "16 \<le> e" "8 dvd e" "e < 2 ^ 31" "brk_of s + e \<le> top_of s"
  shows "seg_extend_heap (w32 (e div 4)) s
    = bnd (seg_insert_block (w32 (h + 4)) (w32 e) (s\<lparr>mem_brk := w32 (brk_of s + e), heap_bytes := fresh_mem (heap_bytes s) h e\<rparr>))
        (seg_coalesce (w32 (h + 4)))"
    and "seg_heap (s\<lparr>mem_brk := w32 (brk_of s + e), heap_bytes := fresh_mem (heap_bytes s) h e\<rparr>) (bs @ [(e, False)])"
proof -
  let ?m = "heap_bytes s"
  let ?s1 = "s\<lparr>mem_brk := w32 (brk_of s + e)\<rparr>"
  let ?s2 = "s\<lparr>mem_brk := w32 (brk_of s + e), heap_bytes := fresh_mem ?m h e\<rparr>"
  note D = seg_heapD [OF heap]
  have brk: "brk_of s = h + 4" using D(11) h by simp
  have top: "h + 4 + e < 4294967296" using brk e(4) unat_u32_less [of "mem_max_addr s"] by simp
  have mb: "mem_brk s = w32 (h + 4)" by (metis brk w32_unat)
  have nil: "chain ?m h []" by simp
  have "8 \<le> e" using e(1) by simp
  note fm = fresh_mem_chain [OF nil this e(2), simplified]
  have "wchain (fresh_mem ?m h e) (start_of s + 4) ((8, True) # bs)"
    by (rule chain_same_outside [OF D(2) fm(3)]) (simp add: h)
  moreover have "wchain (fresh_mem ?m h e) h [(e, False)]"
    by (rule chain_wchain) (use fm(1) in simp)
  ultimately have ch: "wchain (fresh_mem ?m h e) (start_of s + 4) (((8, True) # bs) @ [(e, False)])"
    unfolding chain_append using h by (simp add: ac_simps)
  show "seg_heap ?s2 (bs @ [(e, False)])"
    using heap ch fm e brk top h by (auto simp: seg_heap_def arena_ok_def ac_simps)
  obtain k where k: "e = 8 * k" using e(2) by (elim dvdE)
  have words: "w32 (e div 4) mod 2 = 0" "w32 (e div 4) * WSIZE = w32 e" "\<not> w32 e < OVERHEAD"
    using e(1,3) k by (simp_all add: w32_consts w32_mod OVERHEAD_def)
  have sbrk: "mem_sbrk (w32 e) s = (w32 (h + 4), ?s1)"
    using mem_sbrk_ok [of "w32 e" s] e(3,4) brk mb by simp
  obtain b where b: "e = 8 + b" using e(1) by (metis \<open>8 \<le> e\<close> le_iff_add)
  have lo: "start_of s \<le> h" "h + e + 4 \<le> top_of s" using h brk e(4) by simp_all
  show "seg_extend_heap (w32 (e div 4)) s
    = bnd (seg_insert_block (w32 (h + 4)) (w32 e) ?s2) (seg_coalesce (w32 (h + 4)))"
    using e(2) top lo bp_not_minus1 [of "h + 4"]
    by (simp only: seg_extend_heap_def words Let_def sbrk simp_thms if_False prod.case)
      (simp add: NPUT_FTRP_def in_arena_def fresh_mem_def set_block_def b ac_simps)
qed

text \<open>The new block lies behind every block of the heap: filing it keeps the lists and the payloads.\<close>

lemma fresh_outside:
  assumes heap: "seg_heap s bs" and e: "16 \<le> e" "8 dvd e"
  defines "h \<equiv> start_of s + 12 + extent bs"
  shows "same_outside h (h + e + 4) (heap_bytes s) (fresh_mem (heap_bytes s) h e)"
    and "(a, k) \<in> seg_frees s bs \<Longrightarrow> a + 8 \<le> h"
    and "kept (seg_payloads s bs) (heap_bytes s) (fresh_mem (heap_bytes s) h e)"
proof -
  note D = seg_heapD [OF heap]
  show so: "same_outside h (h + e + 4) (heap_bytes s) (fresh_mem (heap_bytes s) h e)"
    using fresh_mem_chain(3) [of "heap_bytes s" h "[]" e] e by simp
  show "a + 8 \<le> h" if "(a, k) \<in> seg_frees s bs"
  proof -
    have m: "(a, k) \<in> set (frees (start_of s + 12) bs)" using that by (simp add: seg_frees_def)
    have "16 \<le> k" using frees_size [OF m] D(10) by force
    then show ?thesis using frees_bounds [OF m D(1)] by (simp add: h_def)
  qed
  show "kept (seg_payloads s bs) (heap_bytes s) (fresh_mem (heap_bytes s) h e)"
    unfolding kept_def
  proof (intro allI impI)
    fix p k x assume p: "(p, k) \<in> set (seg_payloads s bs)" "p \<le> x" "x < p + k"
    then have "p + k + 4 \<le> h" using payload_bounds [OF _ D(1)] by (simp add: seg_payloads_def h_def)
    then show "fresh_mem (heap_bytes s) h e x = heap_bytes s x" using p so by (simp add: same_outside_def)
  qed
qed

lemma seg_extend_filed:
  assumes inv: "seg_inv s bs" and e: "16 \<le> e" "8 dvd e" "e < 2 ^ 31" "brk_of s + e \<le> top_of s"
  shows "\<exists>s3. seg_extend_heap (w32 (e div 4)) s = seg_coalesce (w32 (start_of s + 16 + extent bs)) s3
    \<and> seg_heap s3 (bs @ [(e, False)]) \<and> listed s3 (seg_frees s3 (bs @ [(e, False)]))
    \<and> mem_start_brk s3 = mem_start_brk s \<and> mem_max_addr s3 = mem_max_addr s \<and> mem_brk s3 = w32 (brk_of s + e)
    \<and> kept (seg_payloads s bs) (heap_bytes s) (heap_bytes s3)"
proof -
  let ?h = "start_of s + 12 + extent bs" and ?m = "heap_bytes s" and ?B = "bs @ [(e, False)]"
  let ?s2 = "s\<lparr>mem_brk := w32 (brk_of s + e), heap_bytes := fresh_mem ?m ?h e\<rparr>"
  have heap: "seg_heap s bs" and li: "listed s (seg_frees s bs)" using inv by (simp_all add: seg_inv_def)
  note X = seg_extend_start [OF heap refl e] and O = fresh_outside [OF heap e(1,2)]
  have "listed (s\<lparr>heap_bytes := fresh_mem ?m ?h e\<rparr>) (seg_frees s bs)"
    by (rule listed_outside [OF li O(1)]) (use O(2) in auto)
  then have li2: "listed ?s2 (seg_frees s bs)" by (simp add: listed_def)
  have F: "seg_frees ?s2 ?B = insert (?h + 4, e) (seg_frees s bs)" by (simp add: seg_frees_def ac_simps)
  have "(?h + 4, e) \<notin> seg_frees s bs" using O(2) by fastforce
  then obtain s3 where s3: "seg_insert_block (w32 (?h + 4)) (w32 e) ?s2 = ok s3" "relinked ?B ?s2 s3"
      "listed s3 (seg_frees ?s2 ?B)"
    using seg_insert_step [OF X(2) _ li2] F by auto
  note H3 = relinked_heap [OF X(2) s3(2)] and S3 = relinked_start [OF s3(2)]
  have "kept (seg_payloads s bs) (fresh_mem ?m ?h e) (heap_bytes s3)" using H3(2) by (simp add: seg_payloads_def)
  then have "kept (seg_payloads s bs) ?m (heap_bytes s3)" using O(3) kept_trans by blast
  moreover have "mem_start_brk s3 = mem_start_brk s \<and> mem_max_addr s3 = mem_max_addr s \<and> mem_brk s3 = w32 (brk_of s + e)"
    using s3(2) by (auto simp: relinked_def)
  moreover have "listed s3 (seg_frees s3 ?B)" using s3(3) S3 by simp
  ultimately show ?thesis using X(1) s3(1) H3(1) by (intro exI [of _ s3]) (simp add: add.assoc)
qed

lemma seg_extend_inv:
  assumes inv: "seg_inv s bs" and e: "16 \<le> e" "8 dvd e" "e < 2 ^ 31" "brk_of s + e \<le> top_of s"
    and j: "join_blocks bs e [] = (xs', n', ys')"
  shows "\<exists>s'. seg_extend_heap (w32 (e div 4)) s = ok (w32 (start_of s + 16 + extent xs'), s')
    \<and> seg_inv s' (xs' @ [(n', False)]) \<and> mem_start_brk s' = mem_start_brk s \<and> mem_max_addr s' = mem_max_addr s
    \<and> brk_of s' = brk_of s + e \<and> kept (seg_payloads s bs) (heap_bytes s) (heap_bytes s')"
proof -
  have heap: "seg_heap s bs" and co: "coalesced bs" using inv by (simp_all add: seg_inv_def)
  note D = seg_heapD [OF heap]
  obtain s3 where s3: "seg_extend_heap (w32 (e div 4)) s = seg_coalesce (w32 (start_of s + 16 + extent bs)) s3"
      "seg_heap s3 (bs @ [(e, False)])" "listed s3 (seg_frees s3 (bs @ [(e, False)]))"
      "mem_start_brk s3 = mem_start_brk s" "mem_max_addr s3 = mem_max_addr s" "mem_brk s3 = w32 (brk_of s + e)"
      "kept (seg_payloads s bs) (heap_bytes s) (heap_bytes s3)"
    using seg_extend_filed [OF inv e] by blast
  obtain s' where s': "seg_coalesce (w32 (start_of s + 16 + extent bs)) s3 = ok (w32 (start_of s + 16 + extent xs'), s')"
      "seg_step s3 s' (xs' @ (n', False) # ys')"
    using seg_coalesce_joins [OF s3(2,3) j] s3(4) by (auto simp: add.assoc)
  have y: "ys' = []" using j by (auto simp: join_blocks_def join_next_def split: if_splits)
  have "coalesced (xs' @ (n', False) # ys')"
    using join_blocks_wf(1) [OF j co _ D(10) _ e(1)] by simp
  note S = seg_step_inv [OF s'(2) this]
  have "seg_payloads s3 (xs' @ (n', False) # ys') = seg_payloads s bs"
    using join_blocks_payloads [OF j] s3(4) by (simp add: seg_payloads_def)
  then have "kept (seg_payloads s bs) (heap_bytes s) (heap_bytes s')" using s3(7) S(3) kept_trans by metis
  moreover have "mem_start_brk s' = mem_start_brk s \<and> mem_max_addr s' = mem_max_addr s \<and> mem_brk s' = w32 (brk_of s + e)"
    using s3(4-6) S(2) by (simp add: seg_frame_def)
  moreover have "brk_of s + e < 4294967296" using e(4) unat_u32_less [of "mem_max_addr s"] by simp
  ultimately show ?thesis using s3(1) s'(1) S(1) y by (intro exI [of _ s']) auto
qed

text \<open>Without room: NULL, and nothing changes.\<close>

lemma seg_extend_fail:
  assumes "16 \<le> e" "8 dvd e" "e < 2 ^ 32" "brk_of s + e < 2 ^ 32" "top_of s < brk_of s + e \<or> 2 ^ 31 \<le> e"
  shows "seg_extend_heap (w32 (e div 4)) s = ok (0, s)"
proof -
  obtain k where k: "e = 8 * k" using assms(2) by (elim dvdE)
  have words: "w32 (e div 4) mod 2 = 0" "w32 (e div 4) * WSIZE = w32 e" "\<not> w32 e < OVERHEAD"
    using assms(1,3) k by (simp_all add: w32_consts w32_mod OVERHEAD_def)
  have "mem_sbrk (w32 e) s = (-1, s)"
    using assms mem_sbrk_fail [of s "w32 e"] mem_sbrk_negative [of "w32 e" s] by auto
  then show ?thesis by (simp add: seg_extend_heap_def words)
qed

section \<open>Initialisation, and requests\<close>

lemma size_class_4096: "size_class 4096 = 12"
  using select_4096 by (simp add: size_class_def)

lemma seg_fresh_inv:
  assumes "seg_fresh s" shows "seg_inv s [(4096, False)]"
proof -
  have f: "arena_ok s" "seg_listp s = w32 (start_of s + 8)" "brk_of s = start_of s + 4112"
     "chain (heap_bytes s) (start_of s + 4) [(8, True), (4096, False)]"
     "load32 (heap_bytes s) (start_of s + 4108) = tag 0 True"
     "sgrlists s = (replicate 20 0)[12 := w32 (start_of s + 16)]"
     "dlist (heap_bytes s) 0 (sgrlists s ! 12) [start_of s + 16]" using assms unfolding seg_fresh_def by blast+
  have "seg_heap s [(4096, False)]"
    using f(1-3,5) chain_wchain [OF f(4)] by (simp add: seg_heap_def ac_simps)
  moreover have "listed s (seg_frees s [(4096, False)])"
    unfolding listed_def
  proof (intro conjI allI impI)
    show "length (sgrlists s) = 20" using f(6) by simp
    fix l :: nat assume l: "l < 20"
    show "\<exists>xs. dlist (heap_bytes s) 0 (sgrlists s ! l) xs \<and> distinct xs \<and> set xs = in_class (seg_frees s [(4096, False)]) l"
    proof (cases "l = 12")
      case True
      then show ?thesis using f(7)
        by (intro exI [of _ "[start_of s + 16]"]) (simp add: in_class_def seg_frees_def size_class_4096)
    next
      case False
      then show ?thesis using f(6) l
        by (intro exI [of _ "[]"]) (simp add: in_class_def seg_frees_def size_class_4096)
    qed
  qed
  ultimately show ?thesis by (simp add: seg_inv_def coalesced_Cons)
qed

text \<open>No free block is small enough for list 0, and the search never leaves list 0.\<close>

lemma select_list_ge: "l \<le> fst (select_list l z)"
proof (induction l z rule: select_list.induct)
  case (1 l z)
  then show ?case by (subst select_list.simps) auto
qed

lemma size_class_pos:
  assumes "2 \<le> n" "n < 2 ^ 32" shows "size_class n \<noteq> 0"
proof -
  have "1 < w32 n" using assms by simp
  then have "select_list 0 (w32 n) = select_list (Suc 0) (drop_bit 1 (w32 n))"
    by (subst select_list.simps) simp
  then show ?thesis using select_list_ge [of "Suc 0" "drop_bit 1 (w32 n)"] by (simp add: size_class_def)
qed

lemma seg_inv_list0:
  assumes "seg_inv s bs" shows "sgrlists s ! 0 = 0"
proof -
  have ok: "free_ok s (seg_frees s bs)" using assms seg_heap_free_ok unfolding seg_inv_def by blast
  obtain xs where xs: "dlist (heap_bytes s) 0 (sgrlists s ! 0) xs" "set xs = in_class (seg_frees s bs) 0"
    using assms unfolding seg_inv_def listed_def by fastforce
  have "size_class n \<noteq> 0" if "(a, n) \<in> seg_frees s bs" for a n
    using size_class_pos [of n] free_okD(5,6) [OF ok that] by simp
  then have "in_class (seg_frees s bs) 0 = {}" unfolding in_class_def by blast
  with xs show ?thesis by simp
qed

lemma seg_inv_malloc_diverges: "seg_inv s bs \<Longrightarrow> 0 < sz \<Longrightarrow> seg_mm_malloc ptr sz s = None"
  using seg_mm_malloc_diverges seg_inv_list0 by blast

end
