(* ===== verification/ExplicitList.thy ===== *)
theory ExplicitList
  imports Chain
begin

text \<open>
  \<^verbatim>\<open>src/mm2.c\<close>: the unfinished explicit-list allocator, one definition per C function. What it
  prints is left out, except the complaints of its block checker.
\<close>

section \<open>State and macros\<close>

record xl = mem +
  xl_heap_listp :: u32
  free_listp :: u32

definition XL_MIN_BSIZE :: u32 where "XL_MIN_BSIZE = 24"

definition xl_NEXT_FREEP :: "u32 \<Rightarrow> 'a mem_scheme \<Rightarrow> u32 res" where
  "xl_NEXT_FREEP bp s = GET (bp + DSIZE) s"

definition xl_PREV_FREEP :: "u32 \<Rightarrow> 'a mem_scheme \<Rightarrow> u32 res" where
  "xl_PREV_FREEP bp s = GET bp s"

section \<open>The block checker\<close>

datatype xl_msg = Tags_differ | Not_aligned_8 | Block_off_heap | Next_off_heap | Prev_off_heap | Size_mismatch

definition off_heap :: "u32 \<Rightarrow> 'a mem_scheme \<Rightarrow> bool" where
  "off_heap p s \<longleftrightarrow> p < mem_heap_lo s \<or> p > mem_heap_hi s"

definition xl_checkblock :: "u32 \<Rightarrow> 'a mem_scheme \<Rightarrow> xl_msg list res" where
  "xl_checkblock bp s =
     bnd (GET (HDRP bp) s) (\<lambda>hdr.
     bnd (FTRP bp s) (\<lambda>f.
     bnd (GET f s) (\<lambda>ftr.
     let o1 = (if hdr \<noteq> ftr then [Tags_differ] else []);
         o2 = (if bp mod 8 \<noteq> 0 then [Not_aligned_8] else []);
         o3 = (if off_heap bp s then [Block_off_heap] else []) in
     bnd (xl_NEXT_FREEP bp s) (\<lambda>next.
     let o4 = (if off_heap next s then [Next_off_heap] else []) in
     bnd (xl_PREV_FREEP bp s) (\<lambda>prev.
     let o5 = (if off_heap prev s then [Prev_off_heap] else []) in
     bnd (GET_SIZE (HDRP bp) s) (\<lambda>sz.
     bnd (if bp + sz \<noteq> f then ok True
          else bnd (GET_SIZE f s) (\<lambda>k. ok (bp - k \<noteq> HDRP bp))) (\<lambda>bad.
     ok (o1 @ o2 @ o3 @ o4 @ o5 @ (if bad then [Size_mismatch] else [])))))))))"

text \<open>\<^verbatim>\<open>myheapcheck\<close>: \<^verbatim>\<open>myprintblock\<close> reads both tags of the block it prints.\<close>

definition myprintblock :: "u32 \<Rightarrow> 'a mem_scheme \<Rightarrow> unit res" where
  "myprintblock bp s =
     bnd (GET (HDRP bp) s) (\<lambda>_.
     bnd (FTRP bp s) (\<lambda>f.
     bnd (GET f s) (\<lambda>_. ok ())))"

partial_function (option) myheapcheck_loop :: "u32 \<Rightarrow> xl_msg list \<Rightarrow> 'a mem_scheme \<Rightarrow> xl_msg list res" where
  "myheapcheck_loop bp out s =
     bnd (GET_SIZE (HDRP bp) s) (\<lambda>sz.
     if sz > 0 then
       bnd (myprintblock bp s) (\<lambda>_.
       bnd (xl_checkblock bp s) (\<lambda>o1.
       bnd (NEXT_BLKP bp s) (\<lambda>next.
       myheapcheck_loop next (out @ o1) s)))
     else ok out)"

definition myheapcheck :: "xl \<Rightarrow> xl_msg list res" where
  "myheapcheck s = myheapcheck_loop (xl_heap_listp s) [] s"

section \<open>The heap checker\<close>

text \<open>
  The six loops of \<^verbatim>\<open>mm_check\<close>, in order. A result \<open>False\<close> or \<open>None\<close> is the early \<^verbatim>\<open>return -1\<close>.
\<close>

partial_function (option) check_marked :: "u32 \<Rightarrow> xl \<Rightarrow> bool res" where
  "check_marked ptr s =
     bnd (GET_SIZE (HDRP ptr) s) (\<lambda>sz.
     if sz \<noteq> 0 then
       bnd (GET_ALLOC (HDRP ptr) s) (\<lambda>a.
       if a = 1 \<and> ptr \<noteq> xl_heap_listp s then ok False
       else
         bnd (xl_NEXT_FREEP ptr s) (\<lambda>next.
         if a = 1 \<and> next = 0 then ok True else check_marked next s))
     else ok True)"

partial_function (option) check_neighbours :: "bool \<Rightarrow> u32 \<Rightarrow> xl \<Rightarrow> bool res" where
  "check_neighbours lastWasFree ptr s =
     bnd (GET_SIZE (HDRP ptr) s) (\<lambda>sz.
     if sz \<noteq> 0 then
       bnd (GET_ALLOC (HDRP ptr) s) (\<lambda>a.
       if a = 0 \<and> lastWasFree then ok False
       else bnd (NEXT_BLKP ptr s) (\<lambda>next. check_neighbours (a = 0) next s))
     else ok True)"

partial_function (option) check_listed_inner :: "u32 \<Rightarrow> u32 \<Rightarrow> xl \<Rightarrow> u32 option res" where
  "check_listed_inner ptr ptr2 s =
     bnd (GET_SIZE (HDRP ptr2) s) (\<lambda>sz.
     if sz \<noteq> 0 then
       bnd (GET_ALLOC (HDRP ptr2) s) (\<lambda>a.
       if a = 0 \<and> ptr \<noteq> ptr2 then ok None
       else bnd (NEXT_BLKP ptr s) (\<lambda>next. check_listed_inner ptr next s))
     else ok (Some ptr2))"

partial_function (option) check_listed :: "u32 \<Rightarrow> u32 \<Rightarrow> xl \<Rightarrow> u32 option res" where
  "check_listed ptr ptr2 s =
     bnd (GET_SIZE (HDRP ptr) s) (\<lambda>sz.
     if sz \<noteq> 0 then
       bnd (check_listed_inner ptr ptr2 s) (\<lambda>r.
       case r of
         None \<Rightarrow> ok None
       | Some ptr2 \<Rightarrow> bnd (xl_NEXT_FREEP ptr s) (\<lambda>next. check_listed next ptr2 s))
     else ok (Some ptr2))"

partial_function (option) check_links :: "u32 \<Rightarrow> u32 \<Rightarrow> xl \<Rightarrow> bool res" where
  "check_links ptr ptr2 s =
     bnd (GET_SIZE (HDRP ptr) s) (\<lambda>sz.
     bnd (if sz \<noteq> 0 then bnd (GET_SIZE (HDRP ptr2) s) (\<lambda>sz2. ok (sz2 \<noteq> 0)) else ok False) (\<lambda>go.
     if go then
       bnd (xl_NEXT_FREEP ptr s) (\<lambda>next.
       bnd (if next \<noteq> ptr2 then ok True else bnd (xl_PREV_FREEP ptr2 s) (\<lambda>prev. ok (prev \<noteq> ptr))) (\<lambda>bad.
       if bad then ok False
       else bnd (xl_NEXT_FREEP next s) (\<lambda>next2. check_links next next2 s)))
     else ok True))"

partial_function (option) check_cycles :: "bool \<Rightarrow> u32 \<Rightarrow> u32 \<Rightarrow> xl \<Rightarrow> bool res" where
  "check_cycles firstLoop ptr ptr2 s =
     bnd (GET_SIZE (HDRP ptr) s) (\<lambda>sz.
     bnd (if sz \<noteq> 0 then
            bnd (GET_SIZE (HDRP ptr2) s) (\<lambda>sz2.
            if sz2 \<noteq> 0 then
              bnd (xl_NEXT_FREEP ptr2 s) (\<lambda>n2. bnd (GET_SIZE (HDRP n2) s) (\<lambda>sz3. ok (sz3 \<noteq> 0)))
            else ok False)
          else ok False) (\<lambda>go.
     if go then
       if \<not> firstLoop \<and> ptr = ptr2 then ok False
       else
         bnd (xl_NEXT_FREEP ptr s) (\<lambda>ptr.
         bnd (xl_NEXT_FREEP ptr s) (\<lambda>n.
         bnd (xl_NEXT_FREEP n s) (\<lambda>ptr2. check_cycles False ptr ptr2 s)))
     else ok True))"

partial_function (option) check_blocks :: "u32 \<Rightarrow> xl_msg list \<Rightarrow> xl \<Rightarrow> xl_msg list res" where
  "check_blocks ptr out s =
     bnd (GET_SIZE (HDRP ptr) s) (\<lambda>sz.
     if sz \<noteq> 0 then
       bnd (xl_checkblock ptr s) (\<lambda>o1.
       bnd (xl_NEXT_FREEP ptr s) (\<lambda>next. check_blocks next (out @ o1) s))
     else ok out)"

definition xl_mm_check :: "xl \<Rightarrow> (int \<times> xl_msg list) res" where
  "xl_mm_check s =
     bnd (check_marked (free_listp s) s) (\<lambda>fine.
     if \<not> fine then ok (-1, [])
     else
       bnd (check_neighbours False (free_listp s) s) (\<lambda>fine.
       if \<not> fine then ok (-1, [])
       else
         bnd (check_listed (free_listp s) (free_listp s) s) (\<lambda>r.
         if r = None then ok (-1, [])
         else
           bnd (xl_NEXT_FREEP (free_listp s) s) (\<lambda>ptr2.
           bnd (check_links (free_listp s) ptr2 s) (\<lambda>fine.
           if \<not> fine then ok (-1, [])
           else
             bnd (check_cycles True (free_listp s) (free_listp s) s) (\<lambda>fine.
             if \<not> fine then ok (-1, [])
             else bnd (check_blocks (free_listp s) [] s) (\<lambda>out. ok (0, out))))))))"

section \<open>The free list\<close>

definition xl_insertblock :: "u32 \<Rightarrow> xl \<Rightarrow> xl res" where
  "xl_insertblock bp s =
     bnd (PUT (bp + DSIZE) (free_listp s) s) (\<lambda>s.
     bnd (PUT (free_listp s) bp s) (\<lambda>s.
     bnd (PUT bp 0 s) (\<lambda>s.
     let s = s\<lparr>free_listp := bp\<rparr> in
     bnd (xl_mm_check s) (\<lambda>_. ok s))))"

definition xl_removeblock :: "u32 \<Rightarrow> xl \<Rightarrow> xl res" where
  "xl_removeblock bp s =
     bnd (xl_PREV_FREEP bp s) (\<lambda>prev.
     bnd (if prev \<noteq> 0 then bnd (xl_NEXT_FREEP bp s) (\<lambda>next. PUT (prev + DSIZE) next s)
          else bnd (xl_NEXT_FREEP bp s) (\<lambda>next. ok (s\<lparr>free_listp := next\<rparr>))) (\<lambda>s.
     bnd (xl_NEXT_FREEP bp s) (\<lambda>next.
     bnd (xl_PREV_FREEP bp s) (\<lambda>prev.
     PUT next prev s))))"

section \<open>Helper routines\<close>

definition xl_extend_heap :: "u32 \<Rightarrow> xl \<Rightarrow> (u32 \<times> xl) res" where
  "xl_extend_heap words s =
     (let sz = (if words mod 2 \<noteq> 0 then (words + 1) * WSIZE else words * WSIZE);
          sz = (if sz < OVERHEAD then OVERHEAD else sz);
          (bp, s) = mem_sbrk sz s
      in if bp = -1 then ok (0, s)
         else
           bnd (PUT (HDRP bp) (PACK sz 0) s) (\<lambda>s.
           bnd (FTRP bp s) (\<lambda>f.
           bnd (PUT f (PACK sz 0) s) (\<lambda>s.
           bnd (NEXT_BLKP bp s) (\<lambda>next.
           bnd (PUT (HDRP next) (PACK 0 1) s) (\<lambda>s.
           bnd (xl_insertblock bp s) (\<lambda>s. ok (bp, s))))))))"

definition xl_printblock :: "u32 \<Rightarrow> xl \<Rightarrow> unit res" where
  "xl_printblock bp s =
     bnd (xl_mm_check s) (\<lambda>_.
     bnd (GET_SIZE (HDRP bp) s) (\<lambda>hsize.
     bnd (FTRP bp s) (\<lambda>f.
     bnd (GET f s) (\<lambda>_.
     if hsize = 0 then ok ()
     else
       bnd (GET_ALLOC bp s) (\<lambda>a.
       if a \<noteq> 0 then ok ()
       else bnd (xl_NEXT_FREEP bp s) (\<lambda>_. bnd (xl_PREV_FREEP bp s) (\<lambda>_. ok ())))))))"

definition xl_place :: "u32 \<Rightarrow> u32 \<Rightarrow> xl \<Rightarrow> xl res" where
  "xl_place bp asize s =
     bnd (GET_SIZE (HDRP bp) s) (\<lambda>csize.
     bnd (xl_mm_check s) (\<lambda>_.
     bnd (xl_printblock bp s) (\<lambda>_.
     if csize - asize \<ge> DSIZE + OVERHEAD then
       bnd (PUT (HDRP bp) (PACK asize 1) s) (\<lambda>s.
       bnd (FTRP bp s) (\<lambda>f.
       bnd (PUT f (PACK asize 1) s) (\<lambda>s.
       bnd (NEXT_BLKP bp s) (\<lambda>bp.
       bnd (xl_mm_check s) (\<lambda>_.
       bnd (PUT (HDRP bp) (PACK (csize - asize) 0) s) (\<lambda>s.
       bnd (FTRP bp s) (\<lambda>f.
       bnd (PUT f (PACK (csize - asize) 0) s) (\<lambda>s.
       xl_insertblock bp s))))))))
     else
       bnd (PUT (HDRP bp) (PACK csize 1) s) (\<lambda>s.
       bnd (FTRP bp s) (\<lambda>f. PUT f (PACK csize 1) s)))))"

partial_function (option) xl_find_loop :: "u32 \<Rightarrow> u32 \<Rightarrow> 'a mem_scheme \<Rightarrow> u32 res" where
  "xl_find_loop asize bp s =
     bnd (GET_SIZE (HDRP bp) s) (\<lambda>sz.
     if sz > 0 then
       bnd (GET_ALLOC (HDRP bp) s) (\<lambda>a.
       if a = 0 \<and> asize \<le> sz then ok bp
       else bnd (xl_NEXT_FREEP bp s) (\<lambda>next. xl_find_loop asize next s))
     else ok 0)"

definition xl_find_fit :: "u32 \<Rightarrow> xl \<Rightarrow> u32 res" where
  "xl_find_fit asize s = bnd (xl_mm_check s) (\<lambda>_. xl_find_loop asize (free_listp s) s)"

section \<open>The interface\<close>

definition xl_mm_init :: "xl \<Rightarrow> (int \<times> xl) res" where
  "xl_mm_init s =
     (let (p, s) = mem_sbrk (8 * WSIZE) s; s = s\<lparr>xl_heap_listp := p\<rparr>
      in if p = 0 then ok (-1, s)
         else
           bnd (PUT p 0 s) (\<lambda>s.
           bnd (PUT (p + WSIZE) (PACK XL_MIN_BSIZE 1) s) (\<lambda>s.
           bnd (PUT (p + DSIZE * 3) (PACK XL_MIN_BSIZE 1) s) (\<lambda>s.
           bnd (PUT (p + WSIZE + XL_MIN_BSIZE) (PACK 0 1) s) (\<lambda>s.
           let s = s\<lparr>xl_heap_listp := p + DSIZE\<rparr>; s = s\<lparr>free_listp := xl_heap_listp s\<rparr> in
           bnd (myheapcheck s) (\<lambda>_. ok (0, s)))))))"

definition xl_mm_malloc :: "u32 \<Rightarrow> xl \<Rightarrow> (u32 \<times> xl) res" where
  "xl_mm_malloc sz s =
     bnd (xl_mm_check s) (\<lambda>_.
     if sz \<le> 0 then ok (0, s)
     else
       let asize = (if sz \<le> DSIZE then DSIZE + OVERHEAD
                    else DSIZE * ((sz + OVERHEAD + (DSIZE - 1)) div DSIZE)) in
       bnd (xl_find_fit asize s) (\<lambda>bp.
       if bp \<noteq> 0 then bnd (xl_place bp asize s) (\<lambda>s. ok (bp, s))
       else
         bnd (xl_extend_heap (CMAX asize CHUNKSIZE div WSIZE) s) (\<lambda>(bp, s).
         if bp = 0 then ok (0, s)
         else bnd (xl_place bp asize s) (\<lambda>s. ok (bp, s)))))"

text \<open>\<^verbatim>\<open>mm_free\<close> has an empty body, and \<^verbatim>\<open>mm_realloc\<close> and \<^verbatim>\<open>coalesce\<close> only return NULL.\<close>

definition xl_mm_free :: "u32 \<Rightarrow> xl \<Rightarrow> xl res" where
  "xl_mm_free bp s = ok s"

definition xl_mm_realloc :: "u32 \<Rightarrow> u32 \<Rightarrow> xl \<Rightarrow> (u32 \<times> xl) res" where
  "xl_mm_realloc p sz s = ok (0, s)"

definition xl_coalesce :: "u32 \<Rightarrow> u32" where
  "xl_coalesce bp = 0"

section \<open>What the package does after its initialisation\<close>

text \<open>The checker compares the end of the block with its footer, which always lies 8 bytes before.\<close>

lemma xl_checkblock_complains:
  "xl_checkblock bp s = ok out \<Longrightarrow> Size_mismatch \<in> set out"
proof -
  assume a: "xl_checkblock bp s = ok out"
  then obtain sz f where f: "GET_SIZE (HDRP bp) s = ok sz" "FTRP bp s = ok f"
    by (auto simp: xl_checkblock_def Let_def elim!: bnd_eq_okE)
  then have "f = bp + sz - DSIZE"
    by (auto simp: FTRP_def elim!: bnd_eq_okE)
  then have "bp + sz \<noteq> f" by (simp add: DSIZE_def)
  then show ?thesis using a f by (auto simp: xl_checkblock_def Let_def elim!: bnd_eq_okE)
qed

lemma xl_checkblock_returns:
  assumes "GET (HDRP bp) s = ok h" "FTRP bp s = ok f" "GET f s = ok t" "GET (bp + DSIZE) s = ok n" "GET bp s = ok p"
  shows "\<exists>out. xl_checkblock bp s = ok out"
  using assms by (simp add: xl_checkblock_def xl_NEXT_FREEP_def xl_PREV_FREEP_def GET_SIZE_def Let_def)

text \<open>The heap after \<^verbatim>\<open>mm_init\<close>: a prologue block of 24 bytes, and the free list points to it.\<close>

definition xl_fresh :: "xl \<Rightarrow> bool" where
  "xl_fresh s \<longleftrightarrow> arena_ok s \<and> xl_heap_listp s = w32 (start_of s + 8) \<and> free_listp s = w32 (start_of s + 8)
     \<and> load32 (heap_bytes s) (start_of s + 4) = tag 24 True
     \<and> load32 (heap_bytes s) (start_of s + 24) = tag 24 True
     \<and> load32 (heap_bytes s) (start_of s + 28) = tag 0 True"

lemma xl_fresh_facts:
  assumes "xl_fresh s"
  shows "0 < start_of s" "8 dvd start_of s" "start_of s + 40 < 4294967296" "in_arena s (start_of s) 36"
  using assms unat_u32_less [of "mem_max_addr s"]
  by (auto simp: xl_fresh_def arena_ok_def in_arena_def)

lemma xl_mm_check_faults:
  assumes fr: "xl_fresh s" and nx: "load32 (heap_bytes s) (start_of s + 16) = 0"
  shows "xl_mm_check s = fail (Segv (- 4))"
proof -
  note F = xl_fresh_facts [OF fr]
  let ?b = "start_of s"
  have fp: "free_listp s = w32 (?b + 8)" "xl_heap_listp s = w32 (?b + 8)"
    and t: "load32 (heap_bytes s) (?b + 4) = tag 24 True" "load32 (heap_bytes s) (?b + 28) = tag 0 True"
    using fr by (simp_all add: xl_fresh_def)
  have ar: "in_arena s (?b + 4) 4" "in_arena s (?b + 28) 4" "in_arena s (?b + 16) 4"
    using F(4) by (simp_all add: in_arena_def)
  have pro: "GET_SIZE (HDRP (w32 (?b + 8))) s = ok 24" "GET_ALLOC (HDRP (w32 (?b + 8))) s = ok 1"
      "NEXT_BLKP (w32 (?b + 8)) s = ok (w32 (?b + 32))"
    using t(1) ar(1) by (simp_all add: w32_numeral ac_simps)
  have next0: "xl_NEXT_FREEP (w32 (?b + 8)) s = ok 0"
    using nx ar(3) by (simp add: xl_NEXT_FREEP_def w32_consts ac_simps)
  have epi: "GET_SIZE (HDRP (w32 (?b + 32))) s = ok 0"
    using t(2) ar(2) by (simp add: ac_simps)
  have null: "GET_SIZE (HDRP 0) s = fail (Segv (- 4))"
    using F(1,3) F(4) unat_u32_less [of "mem_max_addr s"]
    by (simp add: GET_SIZE_def GET_def HDRP_def WSIZE_def in_arena_def)
  have c1: "check_marked (w32 (?b + 8)) s = ok True"
    by (subst check_marked.simps) (simp add: pro next0 fp del: HDRP_w32)
  have "check_neighbours False (w32 (?b + 32)) s = ok True"
    by (subst check_neighbours.simps) (simp add: epi del: HDRP_w32)
  then have c2: "check_neighbours False (w32 (?b + 8)) s = ok True"
    by (subst check_neighbours.simps) (simp add: pro del: HDRP_w32)
  have "check_listed_inner (w32 (?b + 8)) (w32 (?b + 32)) s = ok (Some (w32 (?b + 32)))"
    by (subst check_listed_inner.simps) (simp add: epi del: HDRP_w32)
  then have "check_listed_inner (w32 (?b + 8)) (w32 (?b + 8)) s = ok (Some (w32 (?b + 32)))"
    by (subst check_listed_inner.simps) (simp add: pro del: HDRP_w32)
  moreover have "check_listed 0 (w32 (?b + 32)) s = fail (Segv (- 4))"
    by (subst check_listed.simps) (simp add: null del: HDRP_w32)
  ultimately have c3: "check_listed (w32 (?b + 8)) (w32 (?b + 8)) s = fail (Segv (- 4))"
    by (subst check_listed.simps) (simp add: pro next0 del: HDRP_w32)
  show ?thesis by (simp add: xl_mm_check_def fp c1 c2 c3)
qed

lemma xl_mm_malloc_faults:
  "xl_fresh s \<Longrightarrow> load32 (heap_bytes s) (start_of s + 16) = 0 \<Longrightarrow> xl_mm_malloc n s = fail (Segv (- 4))"
  by (simp add: xl_mm_malloc_def xl_mm_check_faults)

lemma xl_mm_init_fresh:
  assumes "arena_ok s" "mem_brk s = mem_start_brk s"
  shows "\<exists>s'. xl_mm_init s = ok (0, s') \<and> start_of s' = start_of s \<and> xl_fresh s'
    \<and> load32 (heap_bytes s') (start_of s + 16) = load32 (heap_bytes s) (start_of s + 16)"
proof -
  let ?b = "start_of s"
  have b: "0 < ?b" "8 dvd ?b" "top_of s = ?b + 20971520" "?b + 20971520 < 4294967296"
    using assms(1) unat_u32_less [of "mem_max_addr s"] by (auto simp: arena_ok_def)
  have sbrk: "mem_sbrk (8 * WSIZE) s = (w32 ?b, s\<lparr>mem_brk := w32 (?b + 32)\<rparr>)"
    using mem_sbrk_ok [of "w32 32" s] b assms(2) w32_add [of ?b 32] by (simp add: w32_consts)
  let ?m = "store32 (store32 (store32 (store32 (heap_bytes s) ?b 0) (?b + 4) (tag 24 True))
    (?b + 24) (tag 24 True)) (?b + 28) (tag 0 True)"
  let ?s = "s\<lparr>mem_brk := w32 (?b + 32), heap_bytes := ?m, xl_heap_listp := w32 (?b + 8), free_listp := w32 (?b + 8)\<rparr>"
  have fr: "xl_fresh ?s" using assms(1) b by (simp add: xl_fresh_def arena_ok_def)
  note F = xl_fresh_facts [OF fr]
  have tags: "PACK XL_MIN_BSIZE 1 = tag 24 True" "XL_MIN_BSIZE = w32 24" by (simp_all add: XL_MIN_BSIZE_def w32_numeral)
  have ar: "in_arena ?s (?b + 4) 4" "in_arena ?s (?b + 24) 4" "in_arena ?s (?b + 28) 4"
      "in_arena ?s (?b + 16) 4" "in_arena ?s (?b + 8) 4"
    using b by (simp_all add: in_arena_def)
  have m: "load32 ?m (?b + 4) = tag 24 True" "load32 ?m (?b + 24) = tag 24 True" "load32 ?m (?b + 28) = tag 0 True"
    by simp_all
  have f: "FTRP (w32 (?b + 8)) ?s = ok (w32 (?b + 24))"
    by (subst FTRP_tag [of _ _ 24 True]) (use ar m in \<open>simp_all add: ac_simps\<close>)
  have pro: "GET (HDRP (w32 (?b + 8))) ?s = ok (tag 24 True)" "GET_SIZE (HDRP (w32 (?b + 8))) ?s = ok (w32 24)"
    "NEXT_BLKP (w32 (?b + 8)) ?s = ok (w32 (?b + 32))"
    using ar m by (simp_all add: ac_simps)
  have w: "w32 (?b + 8) + DSIZE = w32 (?b + 16)" by (simp add: w32_consts ac_simps)
  from xl_checkblock_returns [OF pro(1) f GET_w32 [OF ar(2)] GET_w32 [OF ar(4), folded w] GET_w32 [OF ar(5)]]
  obtain out where out: "xl_checkblock (w32 (?b + 8)) ?s = ok out" by blast
  have "myheapcheck_loop (w32 (?b + 32)) o1 ?s = ok o1" for o1
    using ar m by (subst myheapcheck_loop.simps) (simp add: ac_simps)
  then have "myheapcheck ?s = ok out"
    using out pro f ar m
    by (simp add: myheapcheck_def, subst myheapcheck_loop.simps) (simp add: myprintblock_def del: HDRP_w32)
  moreover have "xl_mm_init s = bnd (myheapcheck ?s) (\<lambda>_. ok (0, ?s))"
    using b
    by (simp only: xl_mm_init_def sbrk Let_def prod.case tags)
      (simp add: w32_consts in_arena_def ac_simps del: w32_unat)
  ultimately show ?thesis using fr by (intro exI [of _ ?s]) simp
qed

end
