(* ===== verification/Packages.thy ===== *)
theory Packages
  imports SegList_Ops ExplicitList Mdriver_Correct
begin

text \<open>
  The two unfinished packages, \<^verbatim>\<open>src/mm.c\<close> and \<^verbatim>\<open>src/mm2.c\<close>, linked to the driver: the fate of
  \<^verbatim>\<open>eval_mm_valid\<close>, and of the whole program, on every trace that begins with an allocation.
\<close>

section \<open>The entry points\<close>

text \<open>\<open>ptr\<close> stands for the undeclared identifier in \<^verbatim>\<open>mm_malloc\<close> of \<^verbatim>\<open>mm.c\<close>.\<close>

definition seg_package :: "u32 \<Rightarrow> seg mm_package" where
  "seg_package ptr = \<lparr>mm_init = seg_mm_init, mm_malloc = seg_mm_malloc ptr, mm_free = seg_mm_free,
     mm_realloc = seg_mm_realloc ptr\<rparr>"

definition xl_package :: "xl mm_package" where
  "xl_package = \<lparr>mm_init = xl_mm_init, mm_malloc = xl_mm_malloc, mm_free = xl_mm_free, mm_realloc = xl_mm_realloc\<rparr>"

text \<open>Their team structures, the same one, and that of \<^verbatim>\<open>src/mm-firstfit.c\<close>; characters beyond ASCII are UTF-8 bytes.\<close>

definition seg_team :: team_t where
  "seg_team = \<lparr>teamname = ''SWEDENBOYZ'',
     name1 = ''Bjartur Haf'' @ [CHR 0xC3, CHR 0xBE, CHR 0xC3, CHR 0xB3] @ ''rsson'', id1 = ''bjartur14@ru.is'',
     name2 = ''Emil Gunnar Gunnarsson'', id2 = ''emilg12@ru.is'',
     name3 = ''Ey'' @ [CHR 0xC3, CHR 0xBE, CHR 0xC3, CHR 0xB3] @ ''r Sn'' @ [CHR 0xC3, CHR 0xA6] @ ''r Tryggvason'',
     id3 = ''eythorst14@ru.is''\<rparr>"

definition xl_team :: team_t where "xl_team = seg_team"

definition ff_team :: team_t where
  "ff_team = \<lparr>teamname = ''implicit first fit'', name1 = ''Dave OHallaron'', id1 = ''droh'',
     name2 = [], id2 = [], name3 = [], id3 = []\<rparr>"

lemma teams_pass [simp]: "check_team seg_team = ok ()" "check_team xl_team = ok ()" "check_team ff_team = ok ()"
  by (simp_all add: check_team_def seg_team_def xl_team_def ff_team_def)

section \<open>The correctness check on them\<close>

lemma reset_ready: "arena_ok s \<Longrightarrow> arena_ok (mem_reset_brk s) \<and> mem_brk (mem_reset_brk s) = mem_start_brk (mem_reset_brk s)"
  by (simp add: mem_reset_brk_def arena_ok_def)

text \<open>A trace whose first request, an allocation, is the first that fails: the check ends as that call ends.\<close>

lemma eval_mm_valid_first_alloc:
  assumes "mm_init pkg (mem_reset_brk s) = ok (0, s')" "ops tr = op # rest" "op_type op = ALLOC"
    and "mm_malloc pkg (word_of_int (op_size op)) s' = r" "r = None \<or> (\<exists>e. r = fail e)"
  shows "eval_mm_valid pkg oom tr t rs d s = map_option (\<lambda>_. Inl (projl (the r))) r"
  using assms by (auto simp: eval_mm_valid_def valid_step_def Let_def)

lemma seg_init_hangs:
  assumes "arena_ok s"
  shows "\<exists>s'. seg_mm_init (mem_reset_brk s) = ok (0, s') \<and> seg_fresh s'
    \<and> (\<forall>ptr n. 0 < n \<longrightarrow> seg_mm_malloc ptr n s' = None)"
proof -
  obtain s' where s': "seg_mm_init (mem_reset_brk s) = ok (0, s')" "seg_fresh s'"
    using seg_mm_init_fresh [of "mem_reset_brk s"] reset_ready [OF assms] by blast
  then have "sgrlists s' ! 0 = 0" by (simp add: seg_fresh_def)
  then show ?thesis using s' seg_mm_malloc_diverges by blast
qed

lemma seg_valid_diverges:
  assumes "arena_ok s" "ops tr = op # rest" "op_type op = ALLOC" "(word_of_int (op_size op) :: u32) \<noteq> 0"
  shows "eval_mm_valid (seg_package ptr) oom tr t rs d s = None"
proof -
  obtain s' where s': "seg_mm_init (mem_reset_brk s) = ok (0, s')" "\<forall>n. 0 < n \<longrightarrow> seg_mm_malloc ptr n s' = None"
    using seg_init_hangs [OF assms(1)] by blast
  then have "mm_malloc (seg_package ptr) (word_of_int (op_size op)) s' = None"
    using assms(4) by (simp add: seg_package_def word_neq_0_conv)
  then show ?thesis
    using eval_mm_valid_first_alloc [of "seg_package ptr" s s' tr op rest None oom t rs d] s'(1) assms(2,3)
    by (simp add: seg_package_def)
qed

lemma xl_init_faults:
  assumes "arena_ok s" "load32 (heap_bytes s) (start_of s + 16) = 0"
  shows "\<exists>s'. xl_mm_init (mem_reset_brk s) = ok (0, s') \<and> (\<forall>n. xl_mm_malloc n s' = fail (Segv (- 4)))"
proof -
  have "load32 (heap_bytes (mem_reset_brk s)) (start_of (mem_reset_brk s) + 16) = 0"
    using assms(2) by (simp add: mem_reset_brk_def)
  then show ?thesis
    using xl_mm_init_fresh [of "mem_reset_brk s"] reset_ready [OF assms(1)] xl_mm_malloc_faults by metis
qed

lemma xl_valid_faults:
  assumes "arena_ok s" "load32 (heap_bytes s) (start_of s + 16) = 0" "ops tr = op # rest" "op_type op = ALLOC"
  shows "eval_mm_valid xl_package oom tr t rs d s = fail (Segv (- 4))"
proof -
  obtain s' where s': "xl_mm_init (mem_reset_brk s) = ok (0, s')" "\<forall>n. xl_mm_malloc n s' = fail (Segv (- 4))"
    using xl_init_faults [OF assms(1,2)] by blast
  then show ?thesis
    using eval_mm_valid_first_alloc [of xl_package s s' tr op rest "fail (Segv (- 4))" oom t rs d] assms(3,4)
    by (simp add: xl_package_def)
qed

section \<open>The program linked with them\<close>

text \<open>A first trace that begins with an allocation of some bytes.\<close>

definition allocates_first :: "environment \<Rightarrow> options \<Rightarrow> string list \<Rightarrow> bool" where
  "allocates_first e o1 files \<longleftrightarrow> (\<exists>tr op rest. read_file e True (tracedir o1) files 0 = ok tr \<and> ops tr = op # rest
     \<and> op_type op = ALLOC \<and> (word_of_int (op_size op) :: u32) \<noteq> 0)"

text \<open>When the check of the first trace does not come back, neither does the program.\<close>

lemma mdriver_main_first:
  fixes s :: "'a mem_scheme"
  assumes st: "started e o1 files" and tr: "allocates_first e o1 files"
    and ev: "\<And>tr op rest. ops tr = op # rest \<Longrightarrow> op_type op = ALLOC \<Longrightarrow> (word_of_int (op_size op) :: u32) \<noteq> 0 \<Longrightarrow>
      eval_mm_valid pkg (w_oom (e_world e True 0)) tr 0 [] \<lparr>errors = 0, printed = []\<rparr> (d_machine (entry e s)) = r"
    and r: "r = None \<or> (\<exists>err. r = fail err)"
  shows "mdriver_main lc pkg e h s = map_option (\<lambda>_. Inl (projl (the r))) r"
proof -
  obtain tr op rest where tr: "read_file e True (tracedir o1) files 0 = ok tr" "ops tr = op # rest" "op_type op = ALLOC"
      "(word_of_int (op_size op) :: u32) \<noteq> 0"
    using tr by (auto simp: allocates_first_def)
  obtain n where n: "length files = Suc n" using started_files [OF st] by (cases files) auto
  have "mm_trace pkg 0 (e_world e True 0) tr (entry e s) = map_option (\<lambda>_. Inl (projl (the r))) r"
    using ev [OF tr(2-4)] r by (auto simp: mm_trace_def)
  then show ?thesis using r tr(1) by (auto simp: mdriver_main_started [OF st] n)
qed

lemma seg_main_diverges:
  fixes s :: seg
  assumes st: "started e o1 files" and tr: "allocates_first e o1 files"
  shows "mdriver_main lc (seg_package ptr) e h s = None"
  using mdriver_main_first [OF st tr seg_valid_diverges [OF entry_arena(1) [OF st, of s]], where ?lc = lc and ?h = h] by simp

lemma xl_main_faults:
  fixes s :: xl
  assumes st: "started e o1 files" and tr: "allocates_first e o1 files"
    and zero: "load32 (heap_bytes s) (unat (e_arena e) + 16) = 0"
  shows "mdriver_main lc xl_package e h s = fail (Segv (- 4))"
proof -
  have "load32 (heap_bytes (d_machine (entry e s))) (start_of (d_machine (entry e s)) + 16) = 0" using zero by simp
  note faults = xl_valid_faults [OF entry_arena(1) [OF st, of s] this]
  show ?thesis using mdriver_main_first [OF st tr faults, where ?lc = lc and ?h = h] by simp
qed

end
