(* ===== verification/File_Runs.thy ===== *)
theory File_Runs
  imports Trace_Files FirstFit_Room Packages
begin

text \<open>
  The trace files of the repository run on the first-fit package: the six whose header is right pass
  the check, the other two stop the program inside \<^verbatim>\<open>read_trace\<close>.
\<close>

definition complete_files :: "(string \<times> string) list" where
  "complete_files = [(''short1-bal.rep'', short1_bal), (''short2-bal.rep'', short2_bal),
     (''traces/alloc.rep'', alloc_rep), (''traces/allocAndFree.rep'', allocAndFree_rep),
     (''traces/coalesceCase1.rep'', coalesceCase1_rep), (''traces/coalesceCase2.rep'', coalesceCase2_rep)]"

definition overrun_list :: "(string \<times> string) list" where
  "overrun_list = [(''traces/coalesceCase3.rep'', coalesceCase3_rep), (''traces/coalesceCase4.rep'', coalesceCase4_rep)]"

lemma loaded_files_fit:
  "trace_fits 4112 ff_grow 4072 (loaded g (file_trace 6 short1_ops))"
  "trace_fits 4112 ff_grow 4072 (loaded g (file_trace 6 short2_ops))"
  "trace_fits 4112 ff_grow 4072 (loaded g (file_trace 3 [alloc_op 0 80, alloc_op 1 40, alloc_op 2 80]))"
  "trace_fits 4112 ff_grow 4072 (loaded g (file_trace 1 [alloc_op 0 80, free_op 0]))"
  "trace_fits 4112 ff_grow 4072 (loaded g (file_trace 3 [alloc_op 0 80, alloc_op 1 40, alloc_op 2 80, free_op 1]))"
  "trace_fits 4112 ff_grow 4072 (loaded g (file_trace 2 [alloc_op 0 40, alloc_op 1 24, free_op 1]))"
  unfolding short1_ops_def short2_ops_def
  by (simp_all add: trace_fits_def loaded_def file_trace_def stored_def op_defs op_growth_def ff_grow_def)

lemma complete_files_read:
  assumes "(name, txt) \<in> set complete_files" "length dir < 1000"
  shows "\<exists>tr. read_trace (\<lambda>_. False) g dir name (Some txt) = ok tr \<and> trace_fits 4112 ff_grow 4072 tr"
proof -
  note fits = loaded_files_fit [of g]
  note read = read_loaded [OF file_traces_ok(1) shown_files(1)] read_loaded [OF file_traces_ok(2) shown_files(2)]
    read_loaded [OF file_traces_ok(3) shown_files(3)] allocAndFree_read
    read_loaded [OF file_traces_ok(4) shown_files(4)] read_loaded [OF file_traces_ok(5) shown_files(5)]
  have "\<forall>f \<in> set complete_files. \<exists>tr. read_trace (\<lambda>_. False) g dir (fst f) (Some (snd f)) = ok tr \<and> trace_fits 4112 ff_grow 4072 tr"
    unfolding complete_files_def using assms(2) by (simp add: read fits MAXLINE_def)
  then show ?thesis using assms(1) by force
qed

lemma overrun_list_read:
  assumes "(name, txt) \<in> set overrun_list" "length dir < 1000"
  shows "read_trace (\<lambda>_. False) g dir name (Some txt) = fail OutOfBounds"
proof -
  have "\<forall>f \<in> set overrun_list. read_trace (\<lambda>_. False) g dir (fst f) (Some (snd f)) = fail OutOfBounds"
    unfolding overrun_list_def using assms(2) by (simp add: overrun_files MAXLINE_def)
  then show ?thesis using assms(1) by force
qed

lemma complete_files_run:
  assumes f: "(name, txt) \<in> set complete_files" "length dir < 1000" and s: "arena_ok s" "no_wrap s 4072"
  shows "\<exists>tr v. read_trace (\<lambda>_. False) g dir name (Some txt) = ok tr
    \<and> eval_mm_valid ff_package (\<lambda>_. False) tr t rs d s = ok (1, v) \<and> rep v = d"
proof -
  obtain tr where tr: "read_trace (\<lambda>_. False) g dir name (Some txt) = ok tr" "trace_fits 4112 ff_grow 4072 tr"
    using complete_files_read [OF f] by blast
  have "start_of s + 4112 + growth ff_grow (ops tr) \<le> top_of s" using tr(2) s(1) by (simp add: trace_fits_def arena_ok_def)
  then show ?thesis
    using ff_room.eval_mm_valid_room [OF s(1) _ s(2), of "length (blocks tr)" tr t rs d] tr
    by (auto simp: trace_fits_def)
qed

end
