(* ===== verification/FirstFit_Check.thy ===== *)
theory FirstFit_Check
  imports FirstFit_Correct
begin

text \<open>
  The heap checker of \<^verbatim>\<open>src/mm-firstfit.c\<close> on a heap that meets the invariant: it returns, it
  reports no error, and its verbose listing is the block list.
\<close>

section \<open>The listing of a block list\<close>

fun block_lines :: "nat \<Rightarrow> blk list \<Rightarrow> ff_msg list" where
  "block_lines h [] = []"
| "block_lines h ((n, f) # bs) = Block_line (w32 (h + 4)) (w32 n) f (w32 n) f # block_lines (h + n) bs"

section \<open>One block\<close>

lemma ff_checkblock_ok:
  assumes "load32 (heap_bytes s) h = tag n f" "load32 (heap_bytes s) (h + n - 4) = tag n f"
    and "8 \<le> n" "8 dvd n" "in_arena s h n" "8 dvd h + 4"
  shows "ff_checkblock (w32 (h + 4)) s = ok []"
proof -
  obtain k where k: "n = 8 + k" using assms(3) by (metis le_iff_add)
  have "w32 (h + 4) mod 8 = 0"
    using assms(6) in_arena_bound [OF assms(5)] k by (simp add: w32_numeral w32_mod)
  then show ?thesis
    using assms(1,2,4,5) unfolding k by (simp add: ff_checkblock_def in_arena_def ac_simps)
qed

lemma ff_printblock_ok:
  assumes "load32 (heap_bytes s) h = tag n f" "load32 (heap_bytes s) (h + n - 4) = tag n f"
    and "8 \<le> n" "8 dvd n" "in_arena s h n"
  shows "ff_printblock (w32 (h + 4)) s = ok [Block_line (w32 (h + 4)) (w32 n) f (w32 n) f]"
proof -
  obtain k where k: "n = 8 + k" using assms(3) by (metis le_iff_add)
  have "w32 n \<noteq> 0" using in_arena_bound [OF assms(5)] k by simp
  then show ?thesis
    using assms(1,2,4,5) unfolding k by (simp add: ff_printblock_def in_arena_def ac_simps)
qed

section \<open>The loop\<close>

lemma ff_check_loop_chain:
  assumes "chain (heap_bytes s) h bs" "load32 (heap_bytes s) (h + extent bs) = tag 0 True"
    and "in_arena s h (extent bs + 4)" "8 dvd h + 4"
  shows "ff_check_loop verbose (w32 (h + 4)) out s
    = ok (out @ (if verbose then block_lines h bs else []), w32 (h + extent bs + 4))"
  using assms
proof (induction bs arbitrary: h out)
  case Nil
  then show ?case by (subst ff_check_loop.simps) (simp add: in_arena_def)
next
  case (Cons b bs)
  obtain n f where b: "b = (n, f)" by fastforce
  have n: "8 \<le> n" "8 dvd n" "load32 (heap_bytes s) h = tag n f" "load32 (heap_bytes s) (h + n - 4) = tag n f"
      "n < 4294967296" "in_arena s h n" "in_arena s h 4"
    using Cons.prems(1,3) in_arena_bound [OF Cons.prems(3)] b by (auto simp: in_arena_def)
  have IH: "ff_check_loop verbose (w32 (h + n + 4)) o' s
      = ok (o' @ (if verbose then block_lines (h + n) bs else []), w32 (h + n + extent bs + 4))" for o'
  proof (rule Cons.IH)
    have "8 dvd (h + 4) + n" using Cons.prems(4) n(2) by (rule dvd_add)
    then show "8 dvd h + n + 4" by (simp add: ac_simps)
  qed (use Cons.prems b in \<open>auto simp: add.assoc in_arena_def\<close>)
  have "NEXT_BLKP (w32 (h + 4)) s = ok (w32 (h + n + 4))"
    using n by (simp add: add.assoc add.commute [of 4])
  moreover have "GET_SIZE (HDRP (w32 (h + 4))) s = ok (w32 n)" "0 < w32 n"
    using n by (simp_all add: word_less_nat_alt)
  ultimately show ?case
    using b IH ff_checkblock_ok [OF n(3,4,1,2,6) Cons.prems(4)] ff_printblock_ok [OF n(3,4,1,2,6)]
    by (subst ff_check_loop.simps) (simp add: add.assoc)
qed

section \<open>The checker\<close>

lemma ff_checkheap_blocks:
  assumes inv: "ff_inv s bs"
  shows "ff_mm_checkheap verbose s = ok
    (if verbose then Heap_at (w32 (start_of s + 8)) # block_lines (start_of s + 4) ((8, True) # bs)
       @ [EOL (w32 (start_of s + 16 + extent bs))] else [])"
proof -
  let ?h = "start_of s + 4" and ?e = "start_of s + 12 + extent bs"
  note D = ff_invD [OF inv]
  have ch: "chain (heap_bytes s) ?h ((8, True) # bs)" and hp: "heap_listp s = w32 (?h + 4)"
    and ep: "load32 (heap_bytes s) (?h + extent ((8, True) # bs)) = tag 0 True"
    using inv by (simp_all add: ff_inv_def ac_simps)
  have ar: "in_arena s ?h (extent ((8, True) # bs) + 4)" by (rule D(4))
  have al: "8 dvd ?h + 4" using D(6) by simp
  have in4: "in_arena s ?h 8" "in_arena s ?e 4" "in_arena s (?e - 4) 4"
    using ar by (simp_all add: in_arena_def)
  have foot: "\<exists>n f. 8 dvd n \<and> load32 (heap_bytes s) (?e - 4) = tag n f"
  proof (cases bs rule: rev_cases)
    case Nil
    then show ?thesis using D(3) by (intro exI [of _ 8] exI [of _ True]) (simp add: ac_simps)
  next
    case (snoc ys b)
    obtain n f where b: "b = (n, f)" by fastforce
    with snoc D(1) have "8 \<le> n" "8 dvd n" "load32 (heap_bytes s) (start_of s + 12 + extent ys + n - 4) = tag n f"
      by simp_all
    then show ?thesis using snoc b by (intro exI [of _ n] exI [of _ f]) (simp add: ac_simps)
  qed
  then obtain n f where nf: "8 dvd n" "load32 (heap_bytes s) (?e - 4) = tag n f" by blast
  have loop: "ff_check_loop verbose (heap_listp s) out s = ok (out @ (if verbose
      then block_lines ?h ((8, True) # bs) else []), w32 (?e + 4))" for out
    using ff_check_loop_chain [OF ch ep ar al, of verbose out] hp by (simp add: add.assoc)
  have blk: "ff_checkblock (heap_listp s) s = ok []"
    using ff_checkblock_ok [of s ?h 8 True] D(2,3) in4(1) al hp by (simp add: ac_simps)
  have pro: "GET_SIZE (HDRP (heap_listp s)) s = ok 8" "GET_ALLOC (HDRP (heap_listp s)) s = ok 1"
    using D(2) in4(1) hp by (simp_all add: in_arena_def w32_numeral ac_simps)
  have e0: "load32 (heap_bytes s) ?e = tag 0 True" using inv by (simp add: ff_inv_def)
  have epi: "GET_SIZE (HDRP (w32 (?e + 4))) s = ok 0" "GET_ALLOC (HDRP (w32 (?e + 4))) s = ok 1"
    using e0 in4(2) by (simp_all add: ac_simps)
  have "FTRP (w32 (?e + 4)) s = ok (w32 (?e - 4))"
    using e0 in4(2) by (subst FTRP_tag [of s _ 0 True]) (simp_all add: ac_simps)
  then have "ff_printblock (w32 (?e + 4)) s = ok [EOL (w32 (?e + 4))]"
    using epi nf in4(3) by (simp add: ff_printblock_def ac_simps)
  then show ?thesis
    using pro blk loop epi hp by (simp add: ff_mm_checkheap_def DSIZE_def Let_def ac_simps)
qed

end
