(* ===== verification/FirstFit_Edges.thy ===== *)
theory FirstFit_Edges
  imports FirstFit_Correct Block_Heap
begin

text \<open>
  The first-fit allocator at the edges of its interface: an arena without room, a NULL pointer
  or size zero given to \<^verbatim>\<open>mm_realloc\<close>, requests whose size wraps around; and the cycle of a
  \<^verbatim>\<open>mm_malloc\<close> and a \<^verbatim>\<open>mm_free\<close>. Its \<^verbatim>\<open>place\<close> and \<^verbatim>\<open>mm_free\<close> meet the contract of theory \<open>Block_Heap\<close>.
\<close>

section \<open>Accesses that cannot be inside the arena\<close>

lemma top_not_in_arena: "unat p + n \<ge> 2 ^ 32 \<Longrightarrow> \<not> in_arena s (unat p) n"
  using in_arena_bound [of s "unat p" n] by auto

lemma unat_minus_small:
  "unat (- 1 :: u32) = 4294967295" "unat (- 4 :: u32) = 4294967292"
  by (simp_all add: unsigned_minus_1_eq_mask mask_eq_exp_minus_1)

lemma PUT_minus1: "PUT (- 1) v s = fail (Segv (- 1))"
  using top_not_in_arena [of "- 1 :: u32" 4 s] by (simp add: PUT_def unat_minus_small)

lemma GET_SIZE_null: "GET_SIZE (HDRP 0) s = fail (Segv (- 4))"
  using top_not_in_arena [of "- 4 :: u32" 4 s] by (simp add: GET_SIZE_def GET_def HDRP_def WSIZE_def)

section \<open>Initialisation without room\<close>

text \<open>The code compares the answer of \<^verbatim>\<open>mem_sbrk\<close> with NULL, the failure value is \<open>-1\<close>.\<close>

lemma ff_mm_init_no_room:
  assumes "top_of s < brk_of s + 16" "brk_of s + 16 < 2 ^ 32"
  shows "ff_mm_init s = fail (Segv (- 1))"
proof -
  have "mem_sbrk (4 * WSIZE) s = (- 1, s)"
    using mem_sbrk_cases [of 16 s] assms by (simp add: WSIZE_def)
  then show ?thesis by (simp add: ff_mm_init_def Let_def PUT_minus1)
qed

section \<open>The special arguments of \<^verbatim>\<open>mm_realloc\<close>\<close>

lemma ff_realloc_zero: "ff_mm_realloc ptr 0 s = fail (Exit 1)"
  by (simp add: ff_mm_realloc_def ff_mm_malloc_def)

lemma ff_realloc_null:
  assumes "ff_inv s bs" "0 < n" "no_wrap s n"
  shows "ff_mm_realloc 0 (w32 n) s
    = fail (if malloc_blocks (asize_of n) (has_room s (asize_of n)) bs = None then Exit 1 else Segv (- 4))"
proof (cases "malloc_blocks (asize_of n) (has_room s (asize_of n)) bs")
  case None
  then show ?thesis using ff_mm_malloc_blocks [OF assms] by (simp add: ff_mm_realloc_def)
next
  case (Some r)
  then obtain off bs' where r: "r = (off, bs')" by fastforce
  obtain s' where s': "ff_mm_malloc (w32 n) s = ok (w32 (start_of s + 16 + off), s')" "start_of s' = start_of s"
      "top_of s' = top_of s" "ff_inv s' bs'"
    using ff_mm_malloc_blocks [OF assms] Some r by auto
  have "off \<le> extent bs'"
    using Some r by (auto simp: malloc_blocks_def split: option.splits if_splits prod.splits)
  then have "w32 (start_of s + 16 + off) \<noteq> 0" using ff_invD(8) [OF s'(4)] s'(2) by simp
  then show ?thesis using s'(1) Some by (simp add: ff_mm_realloc_def GET_SIZE_null)
qed

section \<open>Requests that wrap around\<close>

text \<open>Placing with a size of zero: the tags of the block are restored, the word before it is overwritten.\<close>

lemma ff_place_zero:
  assumes n: "16 \<le> n" "8 dvd n" "load32 (heap_bytes s) h = tag n False" "in_arena s (h - 4) (n + 4)" "4 \<le> h"
  shows "\<exists>m'. ff_place (w32 (h + 4)) (w32 0) s = ok (s\<lparr>heap_bytes := m'\<rparr>) \<and> load32 m' (h - 4) = tag 0 True
    \<and> load32 m' h = tag n False"
proof -
  have thresh: "DSIZE + OVERHEAD = w32 16" by (simp add: w32_consts OVERHEAD_def)
  obtain b where b: "n = 16 + b" using n(1) by (metis le_iff_add)
  obtain g where g: "h = g + 4" using n(5) by (metis le_add_diff_inverse2)
  have top: "n < 4294967296" using in_arena_bound [OF n(4)] by simp
  have zero: "w32 n - w32 0 = w32 n" by (simp add: w32_def)
  let ?m = "store32 (store32 (store32 (store32 (heap_bytes s) (g + 4) (tag 0 True)) g (tag 0 True))
    (g + 4) (tag n False)) (g + n) (tag n False)"
  have "ff_place (w32 (h + 4)) (w32 0) s = ok (s\<lparr>heap_bytes := ?m\<rparr>)"
    using n top unfolding ff_place_def thresh b g
    by (simp add: zero [unfolded b] in_arena_def PUT_FTRP_def ac_simps)
  then show ?thesis using n(1) g by (intro exI [of _ ?m]) simp
qed

lemma ff_malloc_overflow:
  assumes inv: "ff_inv s (xs @ (k, False) # ys)" and xs: "\<forall>b \<in> set xs. snd b"
    and n: "2 ^ 32 - 15 \<le> n" "n < 2 ^ 32"
  shows "\<exists>s'. ff_mm_malloc (w32 n) s = ok (w32 (start_of s + 16 + extent xs), s')"
proof -
  let ?h = "start_of s + 12 + extent xs"
  note D = ff_invD [OF inv]
  obtain a where a: "ff_asize (w32 n) = w32 a" "a \<le> 8" "8 dvd a"
    using ff_asize_wraps [OF n] .
  have k: "16 \<le> k" "8 dvd k" "load32 (heap_bytes s) ?h = tag k False" "in_arena s ?h k" "in_arena s (?h - 4) (k + 4)"
    using D(1,4) inv by (auto simp: in_arena_def ff_inv_def)
  have "first_fit a (xs @ (k, False) # ys) = Some (xs, k, ys)"
    using xs k(1) a(2) by (induction xs) (auto split: prod.splits)
  then have find: "ff_find_fit (w32 a) s = ok (w32 (?h + 4))"
    using ff_find_fit_inv [OF inv, of a] a(2) by (simp add: ac_simps)
  have "\<exists>m'. ff_place (w32 (?h + 4)) (w32 a) s = ok (s\<lparr>heap_bytes := m'\<rparr>)"
  proof (cases "a = 0")
    case True
    then show ?thesis using ff_place_zero [of k s ?h] k by auto
  next
    case False
    then have "a = 8" using a(2,3) by (auto elim!: dvdE)
    then show ?thesis using ff_place_mem [of k 8 s ?h] k by auto
  qed
  moreover have "w32 (?h + 4) \<noteq> 0" using D(8) by simp
  moreover have "\<not> w32 n \<le> 0" using n by (simp add: ff_asize_pos)
  ultimately show ?thesis
    using a(1) find by (auto simp: ff_mm_malloc_def Let_def ac_simps)
qed

section \<open>Allocating and freeing\<close>

lemma ff_malloc_free:
  assumes inv: "ff_inv s bs" and n: "0 < n" "no_wrap s n" and fit: "\<exists>(k, f) \<in> set bs. \<not> f \<and> asize_of n \<le> k"
  shows "\<exists>p s1 s2. ff_mm_malloc (w32 n) s = ok (p, s1) \<and> p \<noteq> 0 \<and> ff_mm_free p s1 = ok s2
    \<and> ff_inv s2 bs \<and> kept (ff_payloads s bs) (heap_bytes s) (heap_bytes s2)"
proof -
  obtain xs k ys where f: "first_fit (asize_of n) bs = Some (xs, k, ys)"
    using first_fit_None [of "asize_of n" bs] fit by (cases "first_fit (asize_of n) bs") auto
  have bs: "bs = xs @ (k, False) # ys" and k: "asize_of n \<le> k" using first_fit_Some [OF f] by simp_all
  obtain s1 where s1: "ff_mm_malloc (w32 n) s = ok (w32 (start_of s + 16 + extent xs), s1)" "start_of s1 = start_of s"
      "ff_inv s1 (xs @ place_blocks k (asize_of n) @ ys)" "kept (ff_payloads s bs) (heap_bytes s) (heap_bytes s1)"
    using ff_malloc_fit [OF inv n f] by blast
  obtain l zs where l: "xs @ place_blocks k (asize_of n) @ ys = xs @ (l, True) # zs" "join_blocks xs l zs = (xs, k, ys)"
    using join_placed [of xs k ys "asize_of n"] inv k bs by (auto simp: ff_inv_def)
  obtain s2 where s2: "ff_mm_free (w32 (start_of s + 16 + extent xs)) s1 = ok s2" "start_of s2 = start_of s"
      "ff_inv s2 bs" "kept (ff_payloads s2 bs) (heap_bytes s1) (heap_bytes s2)"
    using ff_mm_free_blocks [OF s1(3) [unfolded l(1)] l(2)] s1(2) bs by auto
  have "w32 (start_of s + 16 + extent xs) \<noteq> 0" using ff_invD(8) [OF inv] bs by simp
  moreover have "ff_payloads s2 bs = ff_payloads s bs" using s2(2) by (simp add: ff_payloads_def)
  ultimately show ?thesis using s1 s2 kept_trans by metis
qed

section \<open>The contract on blocks\<close>

interpretation ffb: block_heap ff_inv "\<lambda>s. start_of s + 16" heap_bytes ff_place ff_mm_free
proof unfold_locales
  fix s xs n ys a
  assume inv: "ff_inv s (xs @ (n, False) # ys)" and a: "16 \<le> a" "8 dvd a" "a \<le> n"
  obtain m' where m': "ff_place (w32 (start_of s + 16 + extent xs)) (w32 a) s = ok (s\<lparr>heap_bytes := m'\<rparr>)"
      "ff_inv (s\<lparr>heap_bytes := m'\<rparr>) (xs @ place_blocks n a @ ys)"
      "same_outside (start_of s + 12 + extent xs) (start_of s + 12 + extent xs + n) (heap_bytes s) m'"
    using ff_place_inv [OF inv a] by blast
  have base: "start_of s + 16 - 4 = start_of s + 12" by simp
  have "kept (payloads (start_of s + 12) (xs @ (n, False) # ys)) (heap_bytes s) m'"
    using kept_outside [OF ff_invD(1) [OF inv] m'(3)] by simp
  then show "\<exists>s'. ff_place (w32 (start_of s + 16 + extent xs)) (w32 a) s = ok s' \<and> ff_inv s' (xs @ place_blocks n a @ ys)
      \<and> start_of s' + 16 = start_of s + 16
      \<and> kept (payloads (start_of s + 16 - 4) (xs @ (n, False) # ys)) (heap_bytes s) (heap_bytes s')"
    unfolding base using m'(1,2) by auto
next
  fix s xs n ys xs' n' ys'
  assume inv: "ff_inv s (xs @ (n, True) # ys)" and j: "join_blocks xs n ys = (xs', n', ys')"
  have base: "start_of s + 16 - 4 = start_of s + 12" by simp
  show "\<exists>s'. ff_mm_free (w32 (start_of s + 16 + extent xs)) s = ok s' \<and> ff_inv s' (xs' @ (n', False) # ys')
      \<and> start_of s' + 16 = start_of s + 16
      \<and> kept (payloads (start_of s + 16 - 4) (xs @ (n, False) # ys)) (heap_bytes s) (heap_bytes s')"
    unfolding base join_blocks_payloads [OF j, symmetric]
    using ff_mm_free_blocks [OF inv j] by (auto simp: ff_payloads_def)
qed (simp add: ff_inv_def)

end
