(* ===== verification/Driver_Sound.thy ===== *)
theory Driver_Sound
  imports Driver
begin

text \<open>
  What the driver's check establishes about a package of which nothing is assumed: the payloads
  it has on record when it returns, and how its verdict and its error report belong together.
\<close>

section \<open>The range list\<close>

text \<open>
  Newer ranges come first. \<open>apart p q\<close>: neither end of \<open>p\<close> lies in the older range \<open>q\<close>.
\<close>

definition apart :: "range_t \<Rightarrow> range_t \<Rightarrow> bool" where
  "apart p q \<longleftrightarrow> \<not> (range_lo q \<le> range_lo p \<and> range_lo p \<le> range_hi q)
     \<and> \<not> (range_lo q \<le> range_hi p \<and> range_hi p \<le> range_hi q)"

definition recorded_ok :: "range_t list \<Rightarrow> bool" where
  "recorded_ok ps \<longleftrightarrow> sorted_wrt apart ps \<and> (\<forall>p \<in> set ps. IS_ALIGNED (range_lo p))"

lemma find_overlap_apart:
  "find_overlap lo hi ps = None \<longleftrightarrow> (\<forall>q \<in> set ps. apart \<lparr>range_lo = lo, range_hi = hi\<rparr> q)"
  by (induction ps) (auto simp: apart_def)

lemma recorded_ok_remove: "recorded_ok ps \<Longrightarrow> recorded_ok (remove_range lo ps)"
proof (induction ps)
  case (Cons p ps)
  then show ?case using set_remove_range [of lo ps] by (auto simp: recorded_ok_def)
qed simp

section \<open>One call of \<^verbatim>\<open>add_range\<close>\<close>

text \<open>It returns 1 and says nothing, or returns 0 and makes one report.\<close>

lemma add_range_verdict:
  assumes "add_range oom rs lo sz t i s d = ok (r, rs', d')" "recorded_ok rs"
  shows "recorded_ok rs' \<and> (r \<noteq> 0 \<longrightarrow> d' = d) \<and> (r = 0 \<longrightarrow> errors d' = errors d + 1)"
  using assms find_overlap_apart
  by (auto simp: add_range_def Let_def malloc_error_def recorded_ok_def split: if_splits option.splits)

section \<open>One request\<close>

lemma valid_step_verdict:
  assumes "valid_step pkg oom t i op v = ok (go, v')" "recorded_ok (ranges v)"
  shows "recorded_ok (ranges v') \<and> (go \<longrightarrow> rep v' = rep v) \<and> (\<not> go \<longrightarrow> errors (rep v') = errors (rep v) + 1)"
proof (cases "op_type op")
  case ALLOC
  then show ?thesis using assms
    by (auto simp: valid_step_def Let_def malloc_error_def elim!: bnd_eq_okE split: if_splits
        dest!: add_range_verdict [OF _ assms(2)])
next
  case FREE
  then show ?thesis using assms
    by (auto simp: valid_step_def Let_def recorded_ok_remove elim!: bnd_eq_okE)
next
  case REALLOC
  then show ?thesis using assms
    by (auto simp: valid_step_def Let_def malloc_error_def elim!: bnd_eq_okE split: if_splits
        dest!: add_range_verdict [OF _ recorded_ok_remove [OF assms(2)]])
qed

section \<open>The whole check\<close>

lemma valid_loop_verdict:
  assumes "valid_loop pkg oom t k xs v = ok (r, v')" "recorded_ok (ranges v)"
  shows "recorded_ok (ranges v') \<and> (r = 1 \<and> rep v' = rep v \<or> r = 0 \<and> errors (rep v') = errors (rep v) + 1)"
  using assms
proof (induction xs arbitrary: k v)
  case (Cons op xs)
  from Cons.prems(1) obtain go v1 where v1: "valid_step pkg (oom k) t (int k) op v = ok (go, v1)"
      "(if go then valid_loop pkg oom t (Suc k) xs v1 else ok (0, v1)) = ok (r, v')"
    by (auto elim!: bnd_eq_okE)
  note step = valid_step_verdict [OF v1(1) Cons.prems(2)]
  show ?case
  proof (cases go)
    case True
    then show ?thesis using Cons.IH [of "Suc k" v1] v1(2) step by auto
  next
    case False
    then show ?thesis using v1(2) step by auto
  qed
qed simp

lemma eval_mm_valid_verdict:
  assumes "eval_mm_valid pkg oom tr t rs d s = ok (r, v)"
  shows "recorded_ok (ranges v) \<and> (r = 1 \<and> rep v = d \<or> r = 0 \<and> errors (rep v) = errors d + 1)"
proof -
  have "recorded_ok []" by (simp add: recorded_ok_def)
  then show ?thesis using assms valid_loop_verdict
    by (force simp: eval_mm_valid_def Let_def clear_ranges_def malloc_error_def elim!: bnd_eq_okE split: if_splits)
qed

end
