(* ===== verification/SegList_Realloc.thy ===== *)
theory SegList_Realloc
  imports SegList_Ops
begin

text \<open>
  \<^verbatim>\<open>mm_realloc\<close> of \<^verbatim>\<open>src/mm.c\<close> under the invariant of theory \<open>SegList_Heap\<close>: it serves a request in
  place or by absorbing the next free block, and goes wrong in every other case.
\<close>

section \<open>Arithmetic\<close>

lemma seg_asize_w32:
  assumes "n + 15 < 2 ^ 32"
  shows "seg_asize (w32 n) = w32 (asize_of n)"
proof -
  have "(n + 15) div 8 < 4294967296" using assms by simp
  then show ?thesis using assms
    by (simp add: seg_asize_def asize_of_def w32_consts w32_1 w32_div add.commute)
qed

text \<open>Differences that are C \<^verbatim>\<open>int\<close>s.\<close>

lemma sint_of_int: "- 2147483648 \<le> z \<Longrightarrow> z < 2147483648 \<Longrightarrow> sint (word_of_int z :: u32) = z"
  by (simp add: signed_of_int signed_take_bit_int_eq_self)

lemma w32_minus: "w32 a - w32 b = word_of_int (int a - int b)"
  by (simp add: w32_def)

lemma negative_diff: "a < 2 ^ 31 \<Longrightarrow> b < 2 ^ 31 \<Longrightarrow> w32 a - w32 b <s 0 \<longleftrightarrow> a < b"
  unfolding word_sless_alt w32_minus by (subst sint_of_int) auto

lemma less_w32: "c < 2 ^ 31 \<Longrightarrow> b < 2 ^ 31 \<Longrightarrow> w32 c <s w32 b \<longleftrightarrow> c < b"
  unfolding word_sless_alt by (simp add: sint_w32)

section \<open>What a request needs\<close>

text \<open>The block that \<^verbatim>\<open>mm_realloc\<close> wants: the one \<^verbatim>\<open>mm_malloc\<close> would take, and \<^verbatim>\<open>BUFFER\<close> bytes more.\<close>

definition realloc_size :: "nat \<Rightarrow> nat" where
  "realloc_size sz = asize_of sz + 128"

lemma realloc_size_props: "144 \<le> realloc_size sz" "8 dvd realloc_size sz" "realloc_size sz \<le> sz + 144"
  "asize_of sz = realloc_size sz - 128"
  using asize_of_props [of sz] by (auto simp: realloc_size_def)

text \<open>The block grows into a free block behind it, all of which it takes.\<close>

definition absorb :: "nat \<Rightarrow> nat \<Rightarrow> blk list \<Rightarrow> (nat \<times> blk list) option" where
  "absorb need n ys =
     (if need \<le> n then Some (n, ys)
      else case ys of (j, False) # zs \<Rightarrow> if need \<le> n + j then Some (n + j, zs) else None | _ \<Rightarrow> None)"

text \<open>The reallocation tag in the header at \<open>a\<close>; a block with little to spare sets it in the next header.\<close>

definition mark :: "nat \<Rightarrow> seg \<Rightarrow> seg" where
  "mark a s = s\<lparr>heap_bytes := store32 (heap_bytes s) a (load32 (heap_bytes s) a OR 2)\<rparr>"

definition mark_if :: "bool \<Rightarrow> nat \<Rightarrow> seg \<Rightarrow> seg" where
  "mark_if tight a s = (if tight then mark a s else s)"

text \<open>The end of the routine.\<close>

definition seg_tighten :: "u32 \<Rightarrow> u32 \<Rightarrow> seg \<Rightarrow> (u32 \<times> seg) res" where
  "seg_tighten bp buf s =
     bnd (if buf <s 2 * BUFFER then bnd (NEXT_BLKP bp s) (\<lambda>next. SET_TAG (HDRP next) s) else ok s) (\<lambda>s. ok (bp, s))"

lemma BUFFER_w32: "BUFFER = w32 128"
  by (simp add: BUFFER_def push_bit_eq_mult flip: w32_numeral)

lemma seg_tighten_run:
  assumes "load32 (heap_bytes s) h = tag k f" "8 dvd k" "in_arena s h 4" "in_arena s (h + k) 4"
    and "need \<le> k" "k < 2 ^ 31"
  shows "seg_tighten (w32 (h + 4)) (w32 k - w32 need) s = ok (w32 (h + 4), mark_if (k < need + 256) (h + k) s)"
proof -
  have "w32 k - w32 need <s 2 * BUFFER \<longleftrightarrow> k < need + 256"
    using assms(5,6) less_w32 [of "k - need" 256] by (auto simp: BUFFER_w32 w32_numeral)
  then show ?thesis using assms(1-4)
    by (simp add: seg_tighten_def SET_TAG_def mark_if_def mark_def)
qed

section \<open>In place\<close>

text \<open>
  The situation of a call: header \<open>h\<close> of an allocated block of \<open>n\<close> bytes, in front of a block
  \<open>(j, f)\<close> or the epilogue, and a request for \<open>sz\<close> bytes.
\<close>

definition realloc_call :: "seg \<Rightarrow> blk list \<Rightarrow> nat \<Rightarrow> blk list \<Rightarrow> nat \<Rightarrow> blk \<Rightarrow> nat \<Rightarrow> bool" where
  "realloc_call s xs n ys h b sz \<longleftrightarrow> seg_inv s (xs @ (n, True) # ys) \<and> h = start_of s + 12 + extent xs
     \<and> next_blk ys = b \<and> 0 < sz \<and> sz < 2 ^ 30 \<and> n + fst b < 2 ^ 30"

lemma realloc_callD:
  assumes "realloc_call s xs n ys h (j, f) sz"
  shows "seg_heap s (xs @ (n, True) # ys)" "listed s (seg_frees s (xs @ (n, True) # ys))"
    "coalesced (xs @ (n, True) # ys)" "seg_inv s (xs @ (n, True) # ys)"
    "h = start_of s + 12 + extent xs" "next_blk ys = (j, f)" "n + j < 2 ^ 30"
  using assms by (simp_all add: realloc_call_def seg_inv_def)

lemma realloc_reads:
  assumes C: "realloc_call s xs n ys h (j, f) sz"
  shows "GET_SIZE (HDRP (w32 (h + 4))) s = ok (w32 n)" "NEXT_BLKP (w32 (h + 4)) s = ok (w32 (h + n + 4))"
    "GET_ALLOC (HDRP (w32 (h + n + 4))) s = ok (of_bool f)" "GET_SIZE (HDRP (w32 (h + n + 4))) s = ok (w32 j)"
    "in_arena s h 4" "in_arena s (h + n) 4" "load32 (heap_bytes s) h = tag n True" "8 dvd n"
proof -
  note D = realloc_callD [OF C]
  note own = seg_own [OF D(1,5)] and behind = seg_next [OF D(1,5,6)]
  show ar: "in_arena s h 4" "in_arena s (h + n) 4" and "load32 (heap_bytes s) h = tag n True" "8 dvd n"
    using own(1,3,4) behind(3) by (auto intro: in_arena_sub)
  show "GET_SIZE (HDRP (w32 (h + 4))) s = ok (w32 n)" "NEXT_BLKP (w32 (h + 4)) s = ok (w32 (h + n + 4))"
    "GET_ALLOC (HDRP (w32 (h + n + 4))) s = ok (of_bool f)" "GET_SIZE (HDRP (w32 (h + n + 4))) s = ok (w32 j)"
    using own(1,3) behind(1,2) ar by (simp_all add: ac_simps)
qed

lemma realloc_request:
  assumes "realloc_call s xs n ys h (j, f) sz"
  shows "seg_asize (w32 sz) + BUFFER = w32 (realloc_size sz)" "w32 sz \<noteq> 0" "realloc_size sz < 2 ^ 31" "n < 2 ^ 31"
  using assms realloc_size_props(3) [of sz] by (simp_all add: realloc_call_def seg_asize_w32 BUFFER_w32 realloc_size_def)

text \<open>A block that is large enough stays where it is; only the tag of the next header may change.\<close>

lemma seg_realloc_stays:
  assumes C: "realloc_call s xs n ys h (j, f) sz" and fits: "realloc_size sz \<le> n"
  shows "seg_mm_realloc ptr (w32 (h + 4)) (w32 sz) s = ok (w32 (h + 4), mark_if (n < realloc_size sz + 256) (h + n) s)"
proof -
  note R = realloc_request [OF C] and G = realloc_reads [OF C]
  show ?thesis
    using fits R G(1) negative_diff [OF R(4,3)] seg_tighten_run [OF G(7,8,5,6) fits R(4)]
    by (simp add: seg_mm_realloc_def seg_tighten_def)
qed

text \<open>\<^verbatim>\<open>mm_free\<close> takes the tag off again: freeing the block works as if it had not been reallocated.\<close>

lemma store32_twice: "store32 (store32 m a v) a w = store32 m a w"
  by (simp add: store32_def fun_eq_iff)

lemma seg_free_unmarks:
  assumes heap: "seg_heap s (xs @ (n, True) # ys)" and h: "h = start_of s + 12 + extent xs"
  shows "seg_mm_free (w32 (h + 4)) (mark_if tight (h + n) s) = seg_mm_free (w32 (h + 4)) s"
proof -
  let ?w = "load32 (heap_bytes s) (h + n)" and ?s = "mark (h + n) s"
  obtain j f where j: "next_blk ys = (j, f)" by fastforce
  note own = seg_own [OF heap h] and behind = seg_next [OF heap h j]
  have ar: "in_arena s h 4" "in_arena s (h + n) 4" using own(4) behind(3) by (auto intro: in_arena_sub)
  have ld: "load32 (heap_bytes ?s) h = tag n True" and ar2: "in_arena ?s h 4" "in_arena ?s (h + n) 4"
    using own(1,2) ar by (simp_all add: mark_def)
  have "(?w OR 2) AND NOT 2 = ?w AND NOT 2"
    by (intro bit_word_eqI) (auto simp only: bit_and_iff bit_or_iff bit_not_iff)
  then have "UNSET_TAG (w32 (h + n)) ?s = UNSET_TAG (w32 (h + n)) s"
    using ar(2) by (simp add: UNSET_TAG_def mark_def store32_twice)
  moreover have "NEXT_BLKP (w32 (h + 4)) r = ok (w32 (h + n + 4)) \<and> GET_SIZE (HDRP (w32 (h + 4))) r = ok (w32 n)"
    if "load32 (heap_bytes r) h = tag n True" "in_arena r h 4" for r :: seg
    using that own(3) by (simp add: ac_simps)
  ultimately have "seg_mm_free (w32 (h + 4)) ?s = seg_mm_free (w32 (h + 4)) s"
    using ld ar2 own(1) ar by (simp add: seg_mm_free_def)
  then show ?thesis by (simp add: mark_if_def)
qed

text \<open>In front of an allocated block the routine asks \<^verbatim>\<open>mm_malloc\<close>, which does not return.\<close>

lemma seg_realloc_hangs:
  assumes C: "realloc_call s xs n ys h (j, True) sz" and "n < realloc_size sz" "j \<noteq> 0"
  shows "seg_mm_realloc ptr (w32 (h + 4)) (w32 sz) s = None"
proof -
  note R = realloc_request [OF C] and G = realloc_reads [OF C] and D = realloc_callD [OF C]
  have "0 < w32 (realloc_size sz) - DSIZE"
    using realloc_size_props(1) [of sz] R(3) by (simp add: w32_consts)
  then have "seg_mm_malloc ptr (w32 (realloc_size sz) - DSIZE) s = None"
    by (rule seg_inv_malloc_diverges [OF D(4)])
  moreover have "w32 j \<noteq> 0" using assms(3) D(7) by simp
  ultimately show ?thesis
    using assms(2) R G negative_diff [OF R(4,3)] by (simp add: seg_mm_realloc_def)
qed

section \<open>Growing into the next free block\<close>

text \<open>The next block leaves its list, and the header and footer of a block of \<open>t\<close> bytes are written.\<close>

lemma seg_grow_run:
  assumes inv: "seg_inv s (xs @ (n, True) # (j, False) # ys)" (is "seg_inv s ?B")
    and h: "h = start_of s + 12 + extent xs" and t: "16 \<le> t" "8 dvd t" "in_arena s (h + t - 4) 4"
  shows "\<exists>s1. seg_delete_block (w32 (h + n + 4)) s = ok s1 \<and> relinked ?B s s1
    \<and> listed s1 (set (frees (start_of s + 12) xs) \<union> set (frees (h + n + j) ys))
    \<and> PUT (HDRP (w32 (h + 4))) (tag t True) s1 = ok (s1\<lparr>heap_bytes := store32 (heap_bytes s1) h (tag t True)\<rparr>)
    \<and> NPUT_FTRP (w32 (h + 4)) (tag t True) (s1\<lparr>heap_bytes := store32 (heap_bytes s1) h (tag t True)\<rparr>)
        = ok (s1\<lparr>heap_bytes := set_block (heap_bytes s1) h t True\<rparr>)"
proof -
  let ?F = "seg_frees s ?B"
  have heap: "seg_heap s ?B" and li: "listed s ?F" using inv by (simp_all add: seg_inv_def)
  have "(h + n + 4, j) \<in> ?F" using h by (simp add: seg_frees_def ac_simps)
  then obtain s1 where s1: "seg_delete_block (w32 (h + n + 4)) s = ok s1" "relinked ?B s s1"
      "listed s1 (?F - {(h + n + 4, j)})"
    using seg_delete_step [OF heap _ li] by blast
  have "seg_heap s (xs @ [(n, True), (j, False)] @ ys)" using heap by simp
  from seg_frees_remove [OF this h refl] have "?F - {(h + n + 4, j)}
      = set (frees (start_of s + 12) xs) \<union> set (frees (h + n + j) ys)" by (simp add: add.assoc)
  moreover have "in_arena s1 h 4" "in_arena s1 (h + t - 4) 4"
    using seg_own(2,4) [OF heap h] t(3) relinked_start [OF s1(2)] by (auto intro: in_arena_sub)
  ultimately show ?thesis using s1 t(1,2)
    by (intro exI [of _ s1]) (simp add: NPUT_FTRP_def set_block_def)
qed

text \<open>The new block behind the header \<open>h\<close>, in the state after \<open>seg_grow_run\<close>.\<close>

lemma set_block_reads:
  assumes "16 \<le> t" "8 dvd t" "in_arena s h 4"
  shows "load32 (set_block m h t f) h = tag t f"
    "GET_SIZE (HDRP (w32 (h + 4))) (s\<lparr>heap_bytes := set_block m h t f\<rparr>) = ok (w32 t)"
  using assms by (simp_all add: set_block_def)

text \<open>The two blocks restamped as one allocated block, once the second has left its list.\<close>

lemma seg_absorb_inv:
  assumes inv: "seg_inv s (xs @ (n, True) # (j, False) # ys)"
    and h: "h = start_of s + 12 + extent xs" and s1: "relinked (xs @ (n, True) # (j, False) # ys) s s1"
    and li: "listed s1 (set (frees (start_of s + 12) xs) \<union> set (frees (h + n + j) ys))"
    and s': "s' = s1\<lparr>heap_bytes := set_block (heap_bytes s1) h (n + j) True\<rparr>"
  shows "seg_inv s' (xs @ (n + j, True) # ys)" "seg_frame s s'"
    "kept (seg_payloads s (xs @ (n, True) # (j, False) # ys)) (heap_bytes s) (heap_bytes s')"
proof -
  let ?t = "n + j" and ?B = "xs @ (n, True) # (j, False) # ys"
  have heap: "seg_heap s ?B" and co: "coalesced ?B" using inv by (simp_all add: seg_inv_def)
  note S1 = relinked_start [OF s1] and H1 = relinked_heap [OF heap s1] and own = seg_own [OF heap h]
  have h1: "h = start_of s1 + 12 + extent xs" and H: "seg_heap s1 (xs @ [(n, True), (j, False)] @ ys)"
    using S1 h H1(1) by simp_all
  have t: "8 \<le> ?t" "8 dvd ?t" using own(2) seg_heapD(1) [OF heap] by simp_all
  have ex: "?t = extent [(n, True), (j, False)]" "extent [(?t, True)] = ?t" "\<forall>b \<in> set [(?t, True)]. 16 \<le> fst b"
    using own(2) by simp_all
  have li1: "listed s1 (set (frees (start_of s1 + 12) xs) \<union> set (frees (h + ?t) ys))" using li S1 by (simp add: add.assoc)
  note Q = seg_restamp [OF H h1 ex(1) chain_wchain [OF chain_set_block [OF t]] ex(2,3) same_outside_set_block [OF t(1)] li1 order_refl]
  have "seg_frees s' (xs @ (?t, True) # ys) = set (frees (start_of s1 + 12) xs) \<union> set (frees (h + ?t) ys)"
    using h1 by (simp add: s' seg_frees_def add.assoc)
  moreover have "coalesced (xs @ (?t, True) # ys)" using co by (auto simp: coalesced_append coalesced_Cons)
  ultimately show "seg_inv s' (xs @ (?t, True) # ys)" using Q(1,2) by (simp add: seg_inv_def s')
  show "seg_frame s s'" using s1 by (auto simp: s' relinked_def seg_frame_def)
  have "heap_bytes s' x = heap_bytes s1 x" if p: "(p, k) \<in> set (seg_payloads s ?B)" "p \<le> x" "x < p + k" for p k x
  proof (cases "(p, k) = (h + 4, n - 8)")
    case True
    then have "h + 4 \<le> x" "x < h + ?t - 4" using p(2,3) own(2) by auto
    then show ?thesis by (simp add: s' set_block_def)
  next
    case False
    then have "(p, k) \<in> set (payloads (start_of s1 + 12) xs @ payloads (h + ?t) ys)"
      using p(1) h S1 by (auto simp: seg_payloads_def ac_simps)
    then show ?thesis using Q(3) p(2,3) by (auto simp: kept_def s')
  qed
  then have "kept (seg_payloads s ?B) (heap_bytes s1) (heap_bytes s')" by (auto simp: kept_def)
  then show "kept (seg_payloads s ?B) (heap_bytes s) (heap_bytes s')" by (rule kept_trans [OF H1(2)])
qed

lemma seg_realloc_absorbs:
  assumes C: "realloc_call s xs n ((j, False) # ys) h (j, False) sz"
    and small: "n < realloc_size sz" and fits: "realloc_size sz \<le> n + j"
  shows "\<exists>s'. seg_mm_realloc ptr (w32 (h + 4)) (w32 sz) s
      = ok (w32 (h + 4), mark_if (n + j < realloc_size sz + 256) (h + n + j) s')
    \<and> seg_inv s' (xs @ (n + j, True) # ys) \<and> seg_frame s s'
    \<and> kept (seg_payloads s (xs @ (n, True) # (j, False) # ys)) (heap_bytes s) (heap_bytes s')"
proof -
  let ?B = "xs @ (n, True) # (j, False) # ys" and ?t = "n + j" and ?need = "realloc_size sz"
  note R = realloc_request [OF C] and G = realloc_reads [OF C] and D = realloc_callD [OF C]
  note own = seg_own [OF D(1,5)] and behind = seg_next [OF D(1,5,6)]
  have t: "16 \<le> ?t" "8 dvd ?t" "?t < 2 ^ 31" using own(2,3) behind(2) D(7) by simp_all
  have ar: "in_arena s (h + ?t - 4) 4" "in_arena s (h + ?t) 4"
    using behind(3) own(2,4) by (auto simp: in_arena_def)
  obtain s1 where s1: "seg_delete_block (w32 (h + n + 4)) s = ok s1" "relinked ?B s s1"
      "listed s1 (set (frees (start_of s + 12) xs) \<union> set (frees (h + n + j) ys))"
      "PUT (HDRP (w32 (h + 4))) (tag ?t True) s1 = ok (s1\<lparr>heap_bytes := store32 (heap_bytes s1) h (tag ?t True)\<rparr>)"
      "NPUT_FTRP (w32 (h + 4)) (tag ?t True) (s1\<lparr>heap_bytes := store32 (heap_bytes s1) h (tag ?t True)\<rparr>)
        = ok (s1\<lparr>heap_bytes := set_block (heap_bytes s1) h ?t True\<rparr>)"
    using seg_grow_run [OF D(4,5) t(1,2) ar(1)] by blast
  let ?s = "s1\<lparr>heap_bytes := set_block (heap_bytes s1) h ?t True\<rparr>"
  have a1: "in_arena s1 h 4" "in_arena ?s h 4" "in_arena ?s (h + ?t) 4"
    using relinked_start [OF s1(2)] G(5) ar(2) by simp_all
  note B = set_block_reads [OF t(1,2) a1(1), of "heap_bytes s1" True]
  have ld: "load32 (heap_bytes ?s) h = tag ?t True" using B(1) by simp
  have "seg_mm_realloc ptr (w32 (h + 4)) (w32 sz) s
      = ok (w32 (h + 4), mark_if (?t < ?need + 256) (h + ?t) ?s)"
    using R G small fits negative_diff [OF R(4,3)] negative_diff [OF t(3) R(3)] s1(1,4,5) B(2) t(3)
      seg_tighten_run [OF ld t(2) a1(2,3) fits t(3)]
    by (simp add: seg_mm_realloc_def seg_tighten_def)
  then show ?thesis using seg_absorb_inv [OF D(4,5) s1(2,3) refl] by (auto simp: add.assoc)
qed

section \<open>Growing past the end\<close>

text \<open>
  When the next block does not suffice the heap is extended, but the new memory lies at the end of
  the heap, it is four times as large as the size the block then claims, and what stands in between is
  not looked at.
\<close>

definition realloc_extension :: "nat \<Rightarrow> nat \<Rightarrow> nat" where
  "realloc_extension need have = max (need - have) 4096"

lemma join_behind:
  assumes "join_blocks (xs @ (n, True) # ys) e [] = (xs', n', ys')" "ys = [] \<or> \<not> snd (hd ys)"
  shows "\<exists>j zs. xs' @ [(n', False)] = xs @ (n, True) # (j, False) # zs"
proof (cases ys rule: rev_cases)
  case Nil
  then show ?thesis using assms(1) by (auto simp: join_blocks_def join_next_def)
next
  case (snoc zs b)
  with assms obtain j where j: "hd ys = (j, False)" by (cases "hd ys") auto
  show ?thesis
  proof (cases zs)
    case Nil
    then show ?thesis using assms(1) snoc j by (auto simp: join_blocks_def join_next_def butlast_append)
  next
    case (Cons c ws)
    then show ?thesis using assms(1) snoc j
      by (auto simp: join_blocks_def join_next_def butlast_append split: if_splits)
  qed
qed

text \<open>The computation of the new size, in C \<^verbatim>\<open>int\<close>s.\<close>

lemma extension_arith:
  assumes "n + j < need" "need < 2 ^ 31" and x: "x = realloc_extension need (n + j)"
  shows "w32 n - w32 need <s 0" "w32 (n + j) - w32 need <s 0"
    "(if CHUNKSIZE <s - (w32 (n + j) - w32 need) then - (w32 (n + j) - w32 need) else CHUNKSIZE) = w32 x"
    "w32 need + ((w32 (n + j) - w32 need) + w32 x) = w32 (n + j + x)"
proof -
  show "w32 n - w32 need <s 0" "w32 (n + j) - w32 need <s 0"
    using negative_diff [of n need] negative_diff [of "n + j" need] assms(1,2) by simp_all
  have "CHUNKSIZE <s w32 (need - (n + j)) \<longleftrightarrow> 4096 < need - (n + j)"
    using less_w32 [of 4096 "need - (n + j)"] assms(2) by (simp flip: w32_numeral)
  then show "(if CHUNKSIZE <s - (w32 (n + j) - w32 need) then - (w32 (n + j) - w32 need) else CHUNKSIZE) = w32 x"
    using assms(1) by (auto simp: x realloc_extension_def max_def w32_numeral)
qed (simp add: algebra_simps)

text \<open>The extension leaves a free block behind the block, and moves the break.\<close>

lemma realloc_extended:
  assumes inv: "seg_inv s (xs @ (n, True) # ys)" and free: "ys = [] \<or> \<not> snd (hd ys)"
    and x: "8 dvd x" "4096 \<le> x" and room: "brk_of s + 4 * x \<le> top_of s" "4 * x < 2 ^ 31"
  shows "\<exists>s2 p k zs. seg_extend_heap (w32 x) s = ok (w32 p, s2) \<and> w32 p \<noteq> 0 \<and> seg_inv s2 (xs @ (n, True) # (k, False) # zs)
    \<and> start_of s2 = start_of s \<and> top_of s2 = top_of s \<and> brk_of s2 = brk_of s + 4 * x"
proof -
  have e: "16 \<le> 4 * x" "8 dvd 4 * x" "4 * x div 4 = x" using x by simp_all
  obtain xs' n' ys' where jo: "join_blocks (xs @ (n, True) # ys) (4 * x) [] = (xs', n', ys')" by (metis prod_cases3)
  obtain s2 where s2: "seg_extend_heap (w32 x) s = ok (w32 (start_of s + 16 + extent xs'), s2)"
      "seg_inv s2 (xs' @ [(n', False)])" "start_of s2 = start_of s" "top_of s2 = top_of s" "brk_of s2 = brk_of s + 4 * x"
    using seg_extend_inv [OF inv e(1,2) room(2,1) jo] e(3) by auto
  have "w32 (start_of s + 16 + extent xs') \<noteq> 0"
    using s2(3) seg_heapD(5,9) [of s2 "xs' @ [(n', False)]"] s2(2) by (simp add: seg_inv_def)
  then show ?thesis using s2 join_behind [OF jo free] by metis
qed

lemma seg_realloc_overruns:
  assumes C: "realloc_call s xs n ys h (j, f) sz" and nf: "\<not> f \<or> j = 0"
    and small: "n + j < realloc_size sz" and x: "x = realloc_extension (realloc_size sz) (n + j)"
    and room: "brk_of s + 4 * x \<le> top_of s" "4 * x < 2 ^ 31"
  shows "\<exists>s'. seg_mm_realloc ptr (w32 (h + 4)) (w32 sz) s = ok (w32 (h + 4), s')
    \<and> GET_SIZE (HDRP (w32 (h + 4))) s' = ok (w32 (n + j + x)) \<and> brk_of s' = brk_of s + 4 * x"
proof -
  let ?t = "n + j + x" and ?need = "realloc_size sz"
  note R = realloc_request [OF C] and G = realloc_reads [OF C] and D = realloc_callD [OF C]
  note own = seg_own [OF D(1,5)] and behind = seg_next [OF D(1,5,6)] and A = extension_arith [OF small R(3) x]
  have x8: "8 dvd x" "4096 \<le> x" "?need \<le> ?t"
    using own(3) behind(2) realloc_size_props(2) [of sz] small
    by (auto simp: x realloc_extension_def max_def intro!: dvd_diff_nat)
  have t: "16 \<le> ?t" "8 dvd ?t" "?t < 2 ^ 31"
    using own(2,3) behind(2) x8(1) D(7) R(3) small room(2) by (simp_all add: x realloc_extension_def max_def)
  have "ys = [] \<or> \<not> snd (hd ys)"
    using nf D(6) seg_heapD(10) [OF D(1)] by (cases ys) (auto simp: next_blk_def)
  from realloc_extended [OF D(4) this x8(1,2) room]
  obtain s2 p k zs where s2: "seg_extend_heap (w32 x) s = ok (w32 p, s2)" "w32 p \<noteq> 0"
      "seg_inv s2 (xs @ (n, True) # (k, False) # zs)"
      "start_of s2 = start_of s" "top_of s2 = top_of s" "brk_of s2 = brk_of s + 4 * x" by blast
  have heap2: "seg_heap s2 (xs @ (n, True) # (k, False) # zs)" and h2: "h = start_of s2 + 12 + extent xs"
    using s2(3,4) D(5) by (simp_all add: seg_inv_def)
  note own2 = seg_own [OF heap2 h2]
  have "h + n + j + 4 \<le> brk_of s"
    using seg_heapD(11) [OF D(1)] D(5,6) by (cases ys) (auto simp: next_blk_def)
  then have ar: "in_arena s2 h 4" "in_arena s2 (h + ?t - 4) 4" "in_arena s2 (h + ?t) 4"
    using own2(2,4) room(1) x8(2) s2(5) t(1) by (auto simp: in_arena_def)
  obtain s1 where s1: "seg_delete_block (w32 (h + n + 4)) s2 = ok s1"
      "relinked (xs @ (n, True) # (k, False) # zs) s2 s1"
      "PUT (HDRP (w32 (h + 4))) (tag ?t True) s1 = ok (s1\<lparr>heap_bytes := store32 (heap_bytes s1) h (tag ?t True)\<rparr>)"
      "NPUT_FTRP (w32 (h + 4)) (tag ?t True) (s1\<lparr>heap_bytes := store32 (heap_bytes s1) h (tag ?t True)\<rparr>)
        = ok (s1\<lparr>heap_bytes := set_block (heap_bytes s1) h ?t True\<rparr>)"
    using seg_grow_run [OF s2(3) h2 t(1,2) ar(2)] by blast
  let ?s = "s1\<lparr>heap_bytes := set_block (heap_bytes s1) h ?t True\<rparr>" and ?tight = "?t < ?need + 256"
  have a1: "in_arena s1 h 4" "in_arena ?s h 4" "in_arena ?s (h + ?t) 4" using relinked_start [OF s1(2)] ar by simp_all
  note B = set_block_reads [OF t(1,2) a1(1), of "heap_bytes s1" True]
  have ld: "load32 (heap_bytes ?s) h = tag ?t True" using B(1) by simp
  have nxt: "NEXT_BLKP (w32 (h + 4)) s2 = ok (w32 (h + n + 4))"
    using own2(1,3) ar(1) by (simp add: ac_simps)
  have "seg_mm_realloc ptr (w32 (h + 4)) (w32 sz) s = ok (w32 (h + 4), mark_if ?tight (h + ?t) ?s)"
    using seg_tighten_run [OF ld t(2) a1(2,3) x8(3) t(3)] nf D(7) R G A s2(1,2) nxt s1(1,3,4) B(2)
    by (simp add: seg_mm_realloc_def seg_tighten_def del: w32_diff HDRP_w32 CHUNKSIZE_val minus_diff_eq)
  moreover have "load32 (heap_bytes (mark_if ?tight (h + ?t) ?s)) h = tag ?t True" "in_arena (mark_if ?tight (h + ?t) ?s) h 4"
    using ld a1(1) t(1) by (auto simp: mark_if_def mark_def)
  then have "GET_SIZE (HDRP (w32 (h + 4))) (mark_if ?tight (h + ?t) ?s) = ok (w32 ?t)" using t(2) by simp
  moreover have "brk_of (mark_if ?tight (h + ?t) ?s) = brk_of s + 4 * x"
    using s1(2) s2(6) by (auto simp: relinked_def mark_if_def mark_def)
  ultimately show ?thesis by blast
qed

text \<open>When the arena has no room for the extension the call returns NULL and changes nothing.\<close>

lemma seg_realloc_refused:
  assumes C: "realloc_call s xs n ys h (j, f) sz" and nf: "\<not> f \<or> j = 0"
    and small: "n + j < realloc_size sz" and x: "x = realloc_extension (realloc_size sz) (n + j)"
    and full: "brk_of s + 4 * x < 2 ^ 32" "top_of s < brk_of s + 4 * x \<or> 2 ^ 31 \<le> 4 * x"
  shows "seg_mm_realloc ptr (w32 (h + 4)) (w32 sz) s = ok (0, s)"
proof -
  note R = realloc_request [OF C] and G = realloc_reads [OF C] and D = realloc_callD [OF C]
  note own = seg_own [OF D(1,5)] and behind = seg_next [OF D(1,5,6)] and A = extension_arith [OF small R(3) x]
  have "8 dvd x" "4096 \<le> x"
    using own(3) behind(2) realloc_size_props(2) [of sz] small
    by (auto simp: x realloc_extension_def max_def intro!: dvd_diff_nat)
  then have "16 \<le> 4 * x" "8 dvd 4 * x" "4 * x < 2 ^ 32" "4 * x div 4 = x" using full(1) by simp_all
  then have "seg_extend_heap (w32 x) s = ok (0, s)" using seg_extend_fail [of "4 * x" s] full by simp
  then show ?thesis
    using nf D(7) R G A
    by (simp add: seg_mm_realloc_def del: w32_diff HDRP_w32 CHUNKSIZE_val minus_diff_eq)
qed

section \<open>All cases\<close>

text \<open>A request that the block, or the block with a free one behind it, can hold.\<close>

lemma seg_realloc_inv:
  assumes inv: "seg_inv s (xs @ (n, True) # ys)" and req: "0 < sz" "sz < 2 ^ 30" "n + fst (next_blk ys) < 2 ^ 30"
    and fits: "absorb (realloc_size sz) n ys = Some (k, zs)"
  shows "\<exists>s'. seg_mm_realloc ptr (w32 (start_of s + 16 + extent xs)) (w32 sz) s
      = ok (w32 (start_of s + 16 + extent xs), mark_if (k < realloc_size sz + 256) (start_of s + 12 + extent xs + k) s')
    \<and> seg_inv s' (xs @ (k, True) # zs) \<and> seg_frame s s'
    \<and> kept (seg_payloads s (xs @ (n, True) # ys)) (heap_bytes s) (heap_bytes s')"
proof -
  let ?h = "start_of s + 12 + extent xs"
  obtain j f where j: "next_blk ys = (j, f)" by fastforce
  have C: "realloc_call s xs n ys ?h (j, f) sz" using inv req j by (simp add: realloc_call_def)
  have bp: "w32 (start_of s + 16 + extent xs) = w32 (?h + 4)" by (simp add: ac_simps)
  show ?thesis
  proof (cases "realloc_size sz \<le> n")
    case True
    then have "k = n" "zs = ys" using fits by (simp_all add: absorb_def)
    then show ?thesis using seg_realloc_stays [OF C True] inv
      by (intro exI [of _ s]) (simp add: bp seg_frame_def kept_def)
  next
    case False
    then obtain k' where y: "ys = (k', False) # zs" "k = n + k'" "realloc_size sz \<le> n + k'"
      using fits by (auto simp: absorb_def split: list.splits prod.splits bool.splits if_splits)
    then have "k' = j" "f = False" using j by (simp_all add: next_blk_def)
    then show ?thesis using seg_realloc_absorbs [of s xs n j zs ?h sz] C False y
      by (simp add: bp ac_simps)
  qed
qed

lemma seg_realloc_then_free:
  assumes inv: "seg_inv s (xs @ (n, True) # ys)" and req: "0 < sz" "sz < 2 ^ 30" "n + fst (next_blk ys) < 2 ^ 30"
    and fits: "absorb (realloc_size sz) n ys = Some (k, zs)"
  shows "\<exists>s' t. seg_mm_realloc ptr (w32 (start_of s + 16 + extent xs)) (w32 sz) s = ok (w32 (start_of s + 16 + extent xs), t)
    \<and> t = mark_if (k < realloc_size sz + 256) (start_of s + 12 + extent xs + k) s'
    \<and> seg_inv s' (xs @ (k, True) # zs) \<and> seg_frame s s'
    \<and> kept (seg_payloads s (xs @ (n, True) # ys)) (heap_bytes s) (heap_bytes s')
    \<and> seg_mm_free (w32 (start_of s + 16 + extent xs)) t = seg_mm_free (w32 (start_of s + 16 + extent xs)) s'"
proof -
  obtain s' where s': "seg_mm_realloc ptr (w32 (start_of s + 16 + extent xs)) (w32 sz) s
      = ok (w32 (start_of s + 16 + extent xs), mark_if (k < realloc_size sz + 256) (start_of s + 12 + extent xs + k) s')"
      "seg_inv s' (xs @ (k, True) # zs)" "seg_frame s s'"
      "kept (seg_payloads s (xs @ (n, True) # ys)) (heap_bytes s) (heap_bytes s')"
    using seg_realloc_inv [OF assms] by blast
  have h: "start_of s + 12 + extent xs = start_of s' + 12 + extent xs" using s'(3) by (simp add: seg_frame_def)
  have "w32 (start_of s + 16 + extent xs) = w32 (start_of s + 12 + extent xs + 4)" by (simp add: ac_simps)
  then show ?thesis using s' seg_free_unmarks [OF _ h] by (auto simp: seg_inv_def)
qed

text \<open>The block then reaches over the payload of a block that is in use behind a free one.\<close>

lemma seg_overrun_payload:
  assumes "ys = (j, False) # (l, True) # zs" "0 < n"
  shows "\<exists>q c. (q, c) \<in> set (seg_payloads s (xs @ (n, True) # ys)) \<and> start_of s + 16 + extent xs < q
    \<and> q + 8 < start_of s + 16 + extent xs + (n + j + realloc_extension need (n + j))"
  using assms
  by (intro exI [of _ "start_of s + 16 + extent xs + n + j"] exI [of _ "l - 8"])
    (auto simp: seg_payloads_def realloc_extension_def ac_simps)

text \<open>Any other request.\<close>

lemma seg_realloc_breaks:
  assumes inv: "seg_inv s (xs @ (n, True) # ys)" and j: "next_blk ys = (j, f)"
    and req: "0 < sz" "sz < 2 ^ 30" "n + j < 2 ^ 30"
    and large: "absorb (realloc_size sz) n ys = None"
    and x: "x = realloc_extension (realloc_size sz) (n + j)"
    and nowrap: "brk_of s + 4 * x < 2 ^ 32"
  shows "if f \<and> j \<noteq> 0 then seg_mm_realloc ptr (w32 (start_of s + 16 + extent xs)) (w32 sz) s = None
    else if top_of s < brk_of s + 4 * x \<or> 2 ^ 31 \<le> 4 * x
      then seg_mm_realloc ptr (w32 (start_of s + 16 + extent xs)) (w32 sz) s = ok (0, s)
    else \<exists>s'. seg_mm_realloc ptr (w32 (start_of s + 16 + extent xs)) (w32 sz) s
          = ok (w32 (start_of s + 16 + extent xs), s')
      \<and> GET_SIZE (HDRP (w32 (start_of s + 16 + extent xs))) s' = ok (w32 (n + j + x))
      \<and> brk_of s' = brk_of s + 4 * x
      \<and> (\<forall>l zs. ys = (j, False) # (l, True) # zs \<longrightarrow>
           (\<exists>q c. (q, c) \<in> set (seg_payloads s (xs @ (n, True) # ys)) \<and> start_of s + 16 + extent xs < q
              \<and> q + 8 < start_of s + 16 + extent xs + (n + j + x)))"
proof -
  let ?h = "start_of s + 12 + extent xs"
  have C: "realloc_call s xs n ys ?h (j, f) sz" using inv req j by (simp add: realloc_call_def)
  have bp: "w32 (start_of s + 16 + extent xs) = w32 (?h + 4)" by (simp add: ac_simps)
  have n: "n < realloc_size sz" using large by (auto simp: absorb_def split: if_splits)
  show ?thesis
  proof (cases "f \<and> j \<noteq> 0")
    case True
    then show ?thesis using seg_realloc_hangs [of s xs n ys ?h j sz] C n by (simp add: bp)
  next
    case False
    then have "n + j < realloc_size sz"
      using large j n by (cases ys) (auto simp: absorb_def next_blk_def split: prod.splits bool.splits if_splits)
    note small = this
    show ?thesis
    proof (cases "top_of s < brk_of s + 4 * x \<or> 2 ^ 31 \<le> 4 * x")
      case True
      then show ?thesis
        unfolding if_not_P [OF False] if_P [OF True] bp
        using False by (intro seg_realloc_refused [OF C _ small x nowrap True]) simp
    next
      case fits: False
      then have room: "brk_of s + 4 * x \<le> top_of s" "4 * x < 2 ^ 31" by simp_all
      show ?thesis
        unfolding if_not_P [OF False] if_not_P [OF fits] bp
        using False seg_realloc_overruns [OF C _ small x room] seg_overrun_payload [of ys j _ _ n s xs "realloc_size sz"]
          seg_own(2) [OF realloc_callD(1,5) [OF C]] x by simp
    qed
  qed
qed

end
