(* ===== verification/SegList_Tagged.thy ===== *)
theory SegList_Tagged
  imports SegList_Realloc
begin

text \<open>
  \<^verbatim>\<open>coalesce\<close> of \<^verbatim>\<open>src/mm.c\<close> behind a free block that carries the reallocation tag, in front of an
  allocated block: the case its tests do not name, which falls into the last branch.
\<close>

section \<open>A marked header among the boundary tags\<close>

text \<open>The links of free blocks lie apart from every header.\<close>

lemma frees_header_apart:
  assumes "gchain F m h (xs @ (p, f) # ys)" "(a, n) \<in> set (frees h (xs @ (p, f) # ys))" "\<forall>b \<in> set xs. 16 \<le> fst b"
  shows "a + 8 \<le> h + extent xs \<or> h + extent xs + 4 \<le> a"
proof (cases "(a, n) \<in> set (frees h xs)")
  case True
  then have "16 \<le> n" using frees_size [OF True] assms(3) by force
  moreover have "a + n \<le> h + extent xs + 4" using frees_bounds [OF True, of F m] assms(1) by simp
  ultimately show ?thesis by simp
next
  case False
  then have "(a, n) \<in> set (frees (h + extent xs) ((p, f) # ys))" using assms(2) by simp
  then show ?thesis using frees_bounds [of a n "h + extent xs" "(p, f) # ys" F m] assms(1) by simp
qed

definition at_header :: "seg \<Rightarrow> blk list \<Rightarrow> nat \<Rightarrow> bool" where
  "at_header s bs x \<longleftrightarrow> (\<exists>xs p f ys. bs = xs @ (p, f) # ys \<and> x = start_of s + 12 + extent xs)"

lemma at_header_apart:
  assumes "seg_heap s bs" "at_header s bs x" "(a, n) \<in> seg_frees s bs"
  shows "a + 8 \<le> x \<or> x + 4 \<le> a"
proof -
  obtain xs p f ys where b: "bs = xs @ (p, f) # ys" "x = start_of s + 12 + extent xs"
    using assms(2) unfolding at_header_def by blast
  note D = seg_heapD(1,10) [OF assms(1)]
  have "gchain loose_ftr (heap_bytes s) (start_of s + 12) (xs @ (p, f) # ys)" using D(1) unfolding b(1) .
  moreover have "(a, n) \<in> set (frees (start_of s + 12) (xs @ (p, f) # ys))"
    using assms(3) unfolding b(1) seg_frees_def .
  moreover have "\<forall>b \<in> set xs. 16 \<le> fst b" using D(2) b(1) by simp
  ultimately show ?thesis unfolding b(2) by (rule frees_header_apart)
qed

lemma at_header_aligned: "seg_heap s bs \<Longrightarrow> at_header s bs x \<Longrightarrow> 8 dvd x + 4"
  unfolding at_header_def using seg_own(6) by blast

lemma mark_frame [simp]:
  "mem_start_brk (mark x s) = mem_start_brk s" "mem_brk (mark x s) = mem_brk s" "mem_max_addr (mark x s) = mem_max_addr s"
  "seg_listp (mark x s) = seg_listp s" "sgrlists (mark x s) = sgrlists s" "in_arena (mark x s) = in_arena s"
  by (simp_all add: mark_def in_arena_def fun_eq_iff)

lemma mark_load: "x + 4 \<le> a \<or> a + 4 \<le> x \<Longrightarrow> load32 (heap_bytes (mark x s)) a = load32 (heap_bytes s) a"
  by (auto simp: mark_def)

lemma mark_outside: "same_outside x (x + 4) (heap_bytes s) (heap_bytes (mark x s))"
  by (auto simp: mark_def same_outside_def)

lemma or_2_loose: "(w OR 2) AND NOT 2 = w AND NOT (2 :: u32)"
proof -
  have two: "bit (2 :: u32) k \<longleftrightarrow> k = 1" for k by (auto simp: bit_2_iff)
  show ?thesis by (intro bit_word_eqI) (auto simp only: bit_and_iff bit_or_iff bit_not_iff two)
qed

lemma marked_free_ok:
  assumes heap: "seg_heap s bs" and x: "at_header s bs x" and F: "F \<subseteq> seg_frees s bs"
  shows "free_ok (mark x s) F"
proof -
  note ok = seg_heap_free_ok [OF heap F]
  have "loose_ftr (load32 (heap_bytes (mark x s)) (a - 4)) n False" if m: "(a, n) \<in> F" for a n
  proof (cases "a = x + 4")
    case True
    then show ?thesis using free_okD(7) [OF ok m] or_2_loose by (simp add: mark_def loose_ftr_def del: not_numeral_eq)
  next
    case False
    then have "a + 8 \<le> x + 4 \<or> x + 4 + 8 \<le> a"
      using nodes_apart [OF free_okD(2) [OF ok m] at_header_aligned [OF heap x]] by simp
    then have "x + 4 \<le> a - 4 \<or> a - 4 + 4 \<le> x" using free_okD(1) [OF ok m] by linarith
    then show ?thesis using free_okD(7) [OF ok m] mark_load [of x "a - 4" s] by simp
  qed
  then show ?thesis using ok unfolding free_ok_def mark_frame by blast
qed

text \<open>What the list operations do to a marked heap is what they do to the unmarked one.\<close>

lemma unmark:
  assumes heap: "seg_heap s bs" and x: "at_header s bs x" and F: "F \<subseteq> seg_frees s bs"
    and l: "links_only (fst ` seg_frees s bs) (heap_bytes (mark x s)) m"
    and li: "listed ((mark x s)\<lparr>heap_bytes := m, sgrlists := gs\<rparr>) F"
  shows "\<exists>s'. (mark x s)\<lparr>heap_bytes := m, sgrlists := gs\<rparr> = mark x s' \<and> relinked bs s s' \<and> listed s' F"
proof -
  let ?m = "\<lambda>y. if x \<le> y \<and> y < x + 4 then heap_bytes s y else m y"
  let ?s = "s\<lparr>heap_bytes := ?m, sgrlists := gs\<rparr>" and ?v = "load32 (heap_bytes s) x OR 2"
  have apart: "a + 8 \<le> x \<or> x + 4 \<le> a" if "a \<in> fst ` seg_frees s bs" for a
    using that at_header_apart [OF heap x] by fastforce
  have at: "m y = store32 (heap_bytes s) x ?v y" if "x \<le> y" "y < x + 4" for y
  proof -
    have "\<forall>a \<in> fst ` seg_frees s bs. y < a \<or> a + 8 \<le> y"
    proof
      fix a assume "a \<in> fst ` seg_frees s bs"
      from apart [OF this] that show "y < a \<or> a + 8 \<le> y" by linarith
    qed
    then show ?thesis using l by (simp add: links_only_def mark_def)
  qed
  have ld: "load32 ?m x = load32 (heap_bytes s) x" by (rule load32_cong) simp
  have "store32 ?m x ?v y = m y" for y
  proof (cases "x \<le> y \<and> y < x + 4")
    case True
    then have "store32 ?m x ?v y = store32 (heap_bytes s) x ?v y" by (auto simp: store32_def)
    then show ?thesis using at True by simp
  qed auto
  then have st: "store32 ?m x ?v = m" by (rule ext)
  have "(mark x s)\<lparr>heap_bytes := m, sgrlists := gs\<rparr> = mark x ?s" by (simp add: mark_def ld st)
  moreover have "links_only (fst ` seg_frees s bs) (heap_bytes s) ?m"
    using l by (auto simp: links_only_def mark_def)
  then have "relinked bs s ?s" unfolding relinked_def by blast
  moreover have "listed (((mark x s)\<lparr>heap_bytes := m, sgrlists := gs\<rparr>)\<lparr>heap_bytes := ?m\<rparr>) F"
    by (rule listed_outside [OF li, of x "x + 4"]) (use F apart in \<open>auto simp: same_outside_def\<close>)
  then have "listed ?s F" by (simp add: mark_def listed_def)
  ultimately show ?thesis by blast
qed

lemma marked_delete:
  assumes heap: "seg_heap s bs" and x: "at_header s bs x" and F: "F \<subseteq> seg_frees s bs" and li: "listed s F" "(a, n) \<in> F"
  shows "\<exists>s'. seg_delete_block (w32 a) (mark x s) = ok (mark x s') \<and> relinked bs s s' \<and> listed s' (F - {(a, n)})"
proof -
  have "listed (s\<lparr>heap_bytes := heap_bytes (mark x s)\<rparr>) F"
    by (rule listed_outside [OF li(1) mark_outside]) (use F at_header_apart [OF heap x] in fastforce)
  then have "listed (mark x s) F" by (simp add: mark_def)
  then obtain m gs where m: "seg_delete_block (w32 a) (mark x s) = ok ((mark x s)\<lparr>heap_bytes := m, sgrlists := gs\<rparr>)"
      "listed ((mark x s)\<lparr>heap_bytes := m, sgrlists := gs\<rparr>) (F - {(a, n)})" "links_only (fst ` F) (heap_bytes (mark x s)) m"
    using listed_delete [OF marked_free_ok [OF heap x F] li(2)] by blast
  have "links_only (fst ` seg_frees s bs) (heap_bytes (mark x s)) m" using m(3) F unfolding links_only_def by blast
  then show ?thesis using unmark [OF heap x _ _ m(2)] m(1) F by fastforce
qed

lemma marked_insert:
  assumes heap: "seg_heap s bs" and x: "at_header s bs x" and F: "insert (a, n) F \<subseteq> seg_frees s bs"
    and li: "listed s F" "(a, n) \<notin> F"
  shows "\<exists>s'. seg_insert_block (w32 a) (w32 n) (mark x s) = ok (mark x s') \<and> relinked bs s s' \<and> listed s' (insert (a, n) F)"
proof -
  have "listed (s\<lparr>heap_bytes := heap_bytes (mark x s)\<rparr>) F"
    by (rule listed_outside [OF li(1) mark_outside]) (use F at_header_apart [OF heap x] in fastforce)
  then have "listed (mark x s) F" by (simp add: mark_def)
  then obtain m gs where m: "seg_insert_block (w32 a) (w32 n) (mark x s) = ok ((mark x s)\<lparr>heap_bytes := m, sgrlists := gs\<rparr>)"
      "listed ((mark x s)\<lparr>heap_bytes := m, sgrlists := gs\<rparr>) (insert (a, n) F)"
      "links_only (insert a (fst ` F)) (heap_bytes (mark x s)) m"
    using listed_insert [OF marked_free_ok [OF heap x F] li(2)] by blast
  have "insert a (fst ` F) \<subseteq> fst ` seg_frees s bs" using F by force
  then have "links_only (fst ` seg_frees s bs) (heap_bytes (mark x s)) m" using m(3) unfolding links_only_def by blast
  then show ?thesis using unmark [OF heap x F _ m(2)] m(1) by auto
qed

section \<open>The case that is missing\<close>

text \<open>A tagged free block, the free block at hand and an allocated one: what the guards read.\<close>

abbreviation three :: "blk list \<Rightarrow> nat \<Rightarrow> nat \<Rightarrow> nat \<Rightarrow> blk list \<Rightarrow> blk list" where
  "three xs p n k ys \<equiv> xs @ (p, False) # (n, False) # (k, True) # ys"

lemma three_tags:
  assumes heap: "seg_heap s (three xs p n k ys)" and x: "x = start_of s + 12 + extent xs"
  shows "load32 (heap_bytes s) x = tag p False" "load32 (heap_bytes s) (x + p) = tag n False"
    "load32 (heap_bytes s) (x + p + n) = tag k True" "loose_ftr (load32 (heap_bytes s) (x + p - 4)) p False"
    "16 \<le> p" "16 \<le> n" "16 \<le> k" "8 dvd p" "8 dvd n" "8 dvd k" "in_arena s x (p + n + k + 4)"
    "at_header s (three xs p n k ys) x"
proof -
  have h2: "seg_heap s ((xs @ [(p, False)]) @ (n, False) # (k, True) # ys)" "x + p = start_of s + 12 + extent (xs @ [(p, False)])"
    and h3: "seg_heap s ((xs @ [(p, False), (n, False)]) @ (k, True) # ys)"
      "x + p + n = start_of s + 12 + extent (xs @ [(p, False), (n, False)])"
    using heap x by simp_all
  note A = seg_own [OF heap x] and B = seg_own [OF h2] and C = seg_own [OF h3]
  show "load32 (heap_bytes s) x = tag p False" "load32 (heap_bytes s) (x + p) = tag n False"
    "load32 (heap_bytes s) (x + p + n) = tag k True" "16 \<le> p" "16 \<le> n" "16 \<le> k" "8 dvd p" "8 dvd n" "8 dvd k"
    using A(1-3) B(1-3) C(1-3) by simp_all
  show "loose_ftr (load32 (heap_bytes s) (x + p - 4)) p False"
    using seg_prev(2) [OF h2, of p False] by (simp add: prev_blk_def)
  show "in_arena s x (p + n + k + 4)" using A(4) C(4) by (simp add: in_arena_def)
  show "at_header s (three xs p n k ys) x" using x unfolding at_header_def by blast
qed

lemma marked_reads:
  assumes heap: "seg_heap s (three xs p n k ys)" and x: "x = start_of s + 12 + extent xs"
  shows "PREV_BLKP (w32 (x + p + 4)) (mark x s) = ok (w32 (x + 4))" "GET_ALLOC (HDRP (w32 (x + 4))) (mark x s) = ok 0"
    "GET_TAG (HDRP (w32 (x + 4))) (mark x s) = ok 2" "GET_SIZE (HDRP (w32 (x + 4))) (mark x s) = ok (w32 p)"
    "NEXT_BLKP (w32 (x + p + 4)) (mark x s) = ok (w32 (x + p + n + 4))"
    "GET_ALLOC (HDRP (w32 (x + p + n + 4))) (mark x s) = ok 1" "GET_SIZE (HDRP (w32 (x + p + n + 4))) (mark x s) = ok (w32 k)"
    "GET_SIZE (HDRP (w32 (x + p + 4))) (mark x s) = ok (w32 n)"
proof -
  note T = three_tags [OF heap x]
  have ar: "in_arena s x 4" "in_arena s (x + p) 4" "in_arena s (x + p + n) 4" "in_arena s (x + p - 4) 4"
    using T(5) by (auto intro: in_arena_sub [OF T(11)])
  have ld: "load32 (heap_bytes (mark x s)) x = tag p False OR 2" "load32 (heap_bytes (mark x s)) (x + p) = tag n False"
    "load32 (heap_bytes (mark x s)) (x + p + n) = tag k True" "loose_ftr (load32 (heap_bytes (mark x s)) (x + p - 4)) p False"
    using T(1-5) mark_load [of x "x + p" s] mark_load [of x "x + p + n" s] mark_load [of x "x + p - 4" s]
    by (simp_all add: mark_def)
  have own: "loose_ftr (tag p False OR 2) p False" using loose_tag(2) [OF T(8)] or_2_loose by (simp add: loose_ftr_def del: not_numeral_eq)
  have "(tag p False OR 2) AND 1 = tag p False AND 1" "(tag p False OR 2) AND 2 = 2"
    by (auto intro!: bit_word_eqI simp: bit_and_iff bit_or_iff bit_1_iff bit_2_iff)
  then show "GET_ALLOC (HDRP (w32 (x + 4))) (mark x s) = ok 0" "GET_TAG (HDRP (w32 (x + 4))) (mark x s) = ok 2"
    "GET_SIZE (HDRP (w32 (x + 4))) (mark x s) = ok (w32 p)"
    using ld(1) ar T(8) loose_size [OF T(8) own] by (simp_all add: GET_ALLOC_def GET_TAG_def GET_SIZE_def)
  show "PREV_BLKP (w32 (x + p + 4)) (mark x s) = ok (w32 (x + 4))"
    using PREV_BLKP_loose [of "mark x s" "x + p + 4" p False] ld(4) ar T(5,8) by simp
qed (use three_tags [OF heap x] mark_load in \<open>auto simp: in_arena_def ac_simps\<close>)

text \<open>\<^verbatim>\<open>delete_block\<close> of a block that is in use, with zeros where a free block has its links.\<close>

lemma delete_allocated:
  assumes "in_arena t (a - 4) 12" "8 \<le> a" "load32 (heap_bytes t) (a - 4) = tag k True" "8 dvd k"
    and "load32 (heap_bytes t) a = 0" "load32 (heap_bytes t) (a + 4) = 0"
  shows "seg_delete_block (w32 a) t = ok (set_head (size_class k) 0 t)"
proof -
  have "in_arena t (a - 4) 4" "in_arena t a 4" "in_arena t (a + 4) 4"
    using assms(2) by (auto intro: in_arena_sub [OF assms(1)])
  then show ?thesis using assms
    by (simp add: seg_delete_block_def bp_defs size_class_def split: prod.split)
qed

text \<open>The list of its class is then empty, the others are as before.\<close>

lemma listed_drop_class:
  assumes "listed s F" "l < 20"
  shows "listed (set_head l 0 s) {(a, m) \<in> F. size_class m \<noteq> l}"
  unfolding listed_def
proof (intro conjI allI impI)
  show "length (sgrlists (set_head l 0 s)) = 20" using assms(1) by (simp add: listed_def set_head_def)
  fix j :: nat assume j: "j < 20"
  show "\<exists>xs. dlist (heap_bytes (set_head l 0 s)) 0 (sgrlists (set_head l 0 s) ! j) xs \<and> distinct xs
      \<and> set xs = in_class {(a, m) \<in> F. size_class m \<noteq> l} j"
  proof (cases "j = l")
    case True
    then show ?thesis using assms j
      by (intro exI [of _ "[]"]) (auto simp: set_head_def listed_def in_class_def)
  next
    case False
    then have "in_class {(a, m) \<in> F. size_class m \<noteq> l} j = in_class F j" by (auto simp: in_class_def)
    then show ?thesis using assms(1) j False by (simp add: listed_def set_head_def)
  qed
qed

lemma relinked_head: "relinked bs s (set_head l g s)"
proof -
  have "set_head l g s = s\<lparr>heap_bytes := heap_bytes s, sgrlists := (sgrlists s)[l := g]\<rparr>" by (simp add: set_head_def)
  then show ?thesis unfolding relinked_def using links_only_refl by blast
qed

text \<open>Header and footer of the three blocks together, written with \<^verbatim>\<open>PUT\<close>: the mark stays.\<close>

lemma store32_swap: "a + 4 \<le> b \<Longrightarrow> store32 (store32 m b v) a w = store32 (store32 m a w) b v"
  by (auto simp: store32_def fun_eq_iff)

lemma marked_stamp:
  assumes heap: "seg_heap s (three xs p n k ys)" and x: "x = start_of s + 12 + extent xs" and N: "N = p + n + k"
  shows "\<exists>t. TPUT (HDRP (w32 (x + 4))) (tag N False) (mark x s) = ok t
    \<and> NEXT_BLKP (w32 (x + p + 4)) t = ok (w32 (x + p + n + 4))
    \<and> TPUT_FTRP (w32 (x + p + n + 4)) (tag N False) t = ok (mark x (s\<lparr>heap_bytes := stamp (heap_bytes s) x N False\<rparr>))
    \<and> PREV_BLKP (w32 (x + p + 4)) (mark x (s\<lparr>heap_bytes := stamp (heap_bytes s) x N False\<rparr>)) = ok (w32 (x + 4))"
proof -
  note T = three_tags [OF heap x]
  let ?t = "s\<lparr>heap_bytes := store32 (heap_bytes s) x (tag N False OR 2)\<rparr>"
  let ?e = "x + N - 4" and ?m = "stamp (heap_bytes s) x N False"
  have ar: "in_arena s x 4" "in_arena s (x + p) 4" "in_arena s (x + p + n) 4" "in_arena s ?e 4" "in_arena s (x + p - 4) 4"
    using T(5-7) N by (auto intro: in_arena_sub [OF T(11)])
  have two: "(tag p False OR 2) AND 2 = 2" by (auto intro!: bit_word_eqI simp: bit_and_iff bit_or_iff bit_2_iff)
  have ld: "load32 (heap_bytes ?t) (x + p) = tag n False" "load32 (heap_bytes ?t) (x + p + n) = tag k True"
    "load32 (heap_bytes ?t) ?e = load32 (heap_bytes s) ?e"
    using T(2,3,5-7) N by simp_all
  have "TPUT (HDRP (w32 (x + 4))) (tag N False) (mark x s) = ok ?t"
    using ar(1) T(1) two by (simp add: TPUT_w32) (simp add: mark_def store32_twice)
  moreover have "NEXT_BLKP (w32 (x + p + 4)) ?t = ok (w32 (x + p + n + 4))"
    using NEXT_BLKP_tag [of ?t "x + p + 4" n False] ld(1) ar(2) T(9) by (simp add: ac_simps)
  moreover have e: "x + p + n + 4 + k - 8 = ?e" using N T(7) by simp
  have "TPUT_FTRP (w32 (x + p + n + 4)) (tag N False) ?t
      = ok (?t\<lparr>heap_bytes := store32 (heap_bytes ?t) ?e (tag N False OR (load32 (heap_bytes s) ?e AND 2))\<rparr>)"
    using TPUT_FTRP_tag [of ?t "x + p + n + 4" k True "tag N False", unfolded e ld(3)] ld(2) ar T(7,10) by simp
  moreover have "store32 (heap_bytes ?t) ?e (tag N False OR (load32 (heap_bytes s) ?e AND 2))
      = store32 ?m x (load32 ?m x OR 2)"
    using T(5) N store32_swap [of x ?e] by (simp add: stamp_def store32_twice)
  then have "?t\<lparr>heap_bytes := store32 (heap_bytes ?t) ?e (tag N False OR (load32 (heap_bytes s) ?e AND 2))\<rparr>
      = mark x (s\<lparr>heap_bytes := ?m\<rparr>)"
    by (simp add: mark_def)
  moreover have "load32 (heap_bytes (mark x (s\<lparr>heap_bytes := ?m\<rparr>))) (x + p - 4) = load32 (heap_bytes s) (x + p - 4)"
  proof -
    have "x + p - 4 + 4 \<le> ?e" "x + 4 \<le> x + p - 4" using T(5,6) N by simp_all
    then show ?thesis by (simp add: mark_def stamp_def del: le_diff_conv2)
  qed
  then have "PREV_BLKP (w32 (x + p + 4)) (mark x (s\<lparr>heap_bytes := ?m\<rparr>)) = ok (w32 (x + 4))"
    using PREV_BLKP_loose [of "mark x (s\<lparr>heap_bytes := ?m\<rparr>)" "x + p + 4" p False] T(4,5,8) ar(5) by simp
  ultimately show ?thesis by metis
qed

lemma kept_load: "kept ps m m' \<Longrightarrow> (q, c) \<in> set ps \<Longrightarrow> q \<le> a \<Longrightarrow> a + 4 \<le> q + c \<Longrightarrow> load32 m' a = load32 m a"
  by (rule load32_cong) (fastforce simp: kept_def)

text \<open>The run through the last branch.\<close>

lemma coalesce_run:
  assumes "PREV_BLKP bp t = ok pv" "GET_ALLOC (HDRP pv) t = ok 0" "NEXT_BLKP bp t = ok nx" "GET_ALLOC (HDRP nx) t = ok 1"
    "GET_SIZE (HDRP bp) t = ok a" "GET_TAG (HDRP pv) t = ok 2"
    "seg_delete_block bp t = ok t1" "PREV_BLKP bp t1 = ok pv" "seg_delete_block pv t1 = ok t2"
    "NEXT_BLKP bp t2 = ok nx" "seg_delete_block nx t2 = ok t3"
    "PREV_BLKP bp t3 = ok pv" "GET_SIZE (HDRP pv) t3 = ok b" "NEXT_BLKP bp t3 = ok nx" "GET_SIZE (HDRP nx) t3 = ok c"
    "TPUT (HDRP pv) (PACK (a + (b + c)) 0) t3 = ok t4" "NEXT_BLKP bp t4 = ok nx"
    "TPUT_FTRP nx (PACK (a + (b + c)) 0) t4 = ok t5" "PREV_BLKP bp t5 = ok pv"
    "seg_insert_block pv (a + (b + c)) t5 = ok t6"
  shows "seg_coalesce bp t = ok (pv, t6)"
  using assms by (simp add: seg_coalesce_def)

section \<open>The three blocks become a free one\<close>

lemma seg_coalesce_destroys:
  assumes heap: "seg_heap s (three xs p n k ys)" and li: "listed s (seg_frees s (three xs p n k ys))"
    and x: "x = start_of s + 12 + extent xs"
    and zero: "load32 (heap_bytes s) (x + p + n + 4) = 0" "load32 (heap_bytes s) (x + p + n + 8) = 0"
    and F: "F = {(a, m) \<in> seg_frees s (three xs p n k ys) - {(x + p + 4, n)} - {(x + 4, p)}. size_class m \<noteq> size_class k}"
  shows "\<exists>s'. seg_coalesce (w32 (x + p + 4)) (mark x s) = ok (w32 (x + 4), mark x s')
    \<and> seg_heap s' (xs @ (p + n + k, False) # ys) \<and> listed s' (insert (x + 4, p + n + k) F)
    \<and> seg_frame s s' \<and> kept (seg_payloads s (xs @ (p + n + k, False) # ys)) (heap_bytes s) (heap_bytes s')"
proof -
  let ?B = "three xs p n k ys" and ?N = "p + n + k" and ?C = "xs @ (p + n + k, False) # ys"
  let ?F = "seg_frees s ?B"
  note T = three_tags [OF heap x]
  have mem: "(x + p + 4, n) \<in> ?F" "(x + 4, p) \<in> ?F - {(x + p + 4, n)}"
    using x T(5) by (auto simp: seg_frees_def ac_simps)
  obtain s1 where s1: "seg_delete_block (w32 (x + p + 4)) (mark x s) = ok (mark x s1)" "relinked ?B s s1"
      "listed s1 (?F - {(x + p + 4, n)})"
    using marked_delete [OF heap T(12) order_refl li mem(1)] by blast
  note H1 = relinked_heap(1) [OF heap s1(2)] and S1 = relinked_start [OF s1(2)]
  have x1: "x = start_of s1 + 12 + extent xs" using x S1 by simp
  obtain s2 where s2: "seg_delete_block (w32 (x + 4)) (mark x s1) = ok (mark x s2)" "relinked ?B s1 s2"
      "listed s2 (?F - {(x + p + 4, n)} - {(x + 4, p)})"
    using marked_delete [OF H1 three_tags(12) [OF H1 x1] _ s1(3) mem(2)] S1 by auto
  have re: "relinked ?B s s2" by (rule relinked_trans [OF s1(2) s2(2)])
  note H2 = relinked_heap [OF heap re] and S2 = relinked_start [OF re]
  have x2: "x = start_of s2 + 12 + extent xs" using x S2 by simp
  note T2 = three_tags [OF H2(1) x2]
  let ?s3 = "set_head (size_class k) 0 s2"
  have pay: "(x + p + n + 4, k - 8) \<in> set (seg_payloads s ?B)" using x by (auto simp: seg_payloads_def ac_simps)
  have z: "load32 (heap_bytes s2) (x + p + n + 4) = 0" "load32 (heap_bytes s2) (x + p + n + 8) = 0"
    using zero kept_load [OF H2(2) pay, of "x + p + n + 4"] kept_load [OF H2(2) pay, of "x + p + n + 8"] T(7) by simp_all
  have ahead: "x + 4 \<le> x + p + n" using T(5) by simp
  have s3: "seg_delete_block (w32 (x + p + n + 4)) (mark x s2) = ok (mark x ?s3)"
  proof -
    have "in_arena s2 (x + p + n) 12" using T2(7) by (auto intro: in_arena_sub [OF T2(11)])
    moreover have "load32 (heap_bytes (mark x s2)) (x + p + n + 4) = 0" "load32 (heap_bytes (mark x s2)) (x + p + n + 4 + 4) = 0"
      "load32 (heap_bytes (mark x s2)) (x + p + n) = tag k True"
      using z T2(3) ahead by (simp_all add: mark_load ac_simps)
    moreover have "set_head l 0 (mark x s2) = mark x (set_head l 0 s2)" for l by (simp add: set_head_def mark_def)
    ultimately show ?thesis using delete_allocated [of "mark x s2" "x + p + n + 4" k] T(5,10) by simp
  qed
  have re3: "relinked ?B s ?s3"
    by (rule relinked_trans [OF re relinked_head])
  note H3 = relinked_heap [OF heap re3] and S3 = relinked_start [OF re3]
  have x3: "x = start_of ?s3 + 12 + extent xs" using x S3 by simp
  have li3: "listed ?s3 F" unfolding F using s2(3) size_class_less by (rule listed_drop_class)
  obtain t where t: "TPUT (HDRP (w32 (x + 4))) (tag ?N False) (mark x ?s3) = ok t"
      "NEXT_BLKP (w32 (x + p + 4)) t = ok (w32 (x + p + n + 4))"
      "TPUT_FTRP (w32 (x + p + n + 4)) (tag ?N False) t = ok (mark x (?s3\<lparr>heap_bytes := stamp (heap_bytes ?s3) x ?N False\<rparr>))"
      "PREV_BLKP (w32 (x + p + 4)) (mark x (?s3\<lparr>heap_bytes := stamp (heap_bytes ?s3) x ?N False\<rparr>)) = ok (w32 (x + 4))"
    using marked_stamp [OF H3(1) x3 refl] by blast
  let ?s4 = "?s3\<lparr>heap_bytes := stamp (heap_bytes ?s3) x ?N False\<rparr>"
  let ?mid = "[(p, False), (n, False), (k, True)]"
  have "8 \<le> ?N" "8 dvd ?N" using T(5,8-10) by simp_all
  then have st: "wchain (stamp (heap_bytes ?s3) x ?N False) x [(?N, False)]"
      "same_outside x (x + ?N) (heap_bytes ?s3) (stamp (heap_bytes ?s3) x ?N False)"
    by (simp_all add: wchain_stamp same_outside_stamp del: gchain.simps)
  have sz: "extent [(?N, False)] = ?N" "\<forall>b \<in> set [(?N, False)]. 16 \<le> fst b" "?N = extent ?mid" using T(5) by simp_all
  have "set (frees x ?mid) = {(x + p + 4, n), (x + 4, p)}" by auto
  then have part: "F \<subseteq> set (frees (start_of ?s3 + 12) xs) \<union> set (frees (x + ?N) ys)"
    using seg_frees_remove [of s xs ?mid ys x ?N] heap x S3 by (auto simp: F add.assoc)
  have "seg_heap ?s3 (xs @ ?mid @ ys)" using H3(1) by simp
  note R = seg_restamp [OF this x3 sz(3) st(1) sz(1,2) st(2) li3 part]
  have C: "xs @ [(?N, False)] @ ys = ?C" by simp
  have start4: "start_of ?s4 = start_of s" using S3 by simp
  have hd4: "at_header ?s4 ?C x" using x start4 unfolding at_header_def by fastforce
  have fr4: "seg_frees ?s4 ?C = insert (x + 4, ?N) (set (frees (start_of ?s3 + 12) xs) \<union> set (frees (x + ?N) ys))"
    using x3 by (auto simp: seg_frees_def ac_simps)
  have sub4: "insert (x + 4, ?N) F \<subseteq> seg_frees ?s4 ?C" unfolding fr4 using part by blast
  have new: "(x + 4, ?N) \<notin> F"
  proof
    assume "(x + 4, ?N) \<in> F"
    then have "(x + 4, p) \<in> set (frees (start_of s + 12) ?B)" "(x + 4, ?N) \<in> set (frees (start_of s + 12) ?B)"
      using mem(2) unfolding F seg_frees_def by blast+
    from frees_inj [OF this seg_heapD(1) [OF heap]] show False using T(6) by simp
  qed
  obtain s5 where s5: "seg_insert_block (w32 (x + 4)) (w32 ?N) (mark x ?s4) = ok (mark x s5)" "relinked ?C ?s4 s5"
      "listed s5 (insert (x + 4, ?N) F)"
    using marked_insert [OF R(1) [unfolded C] hd4 sub4 R(2) new] by blast
  note H5 = relinked_heap [OF R(1) [unfolded C] s5(2)]
  have sz: "w32 n + (w32 p + w32 k) = w32 ?N" by (simp add: ac_simps)
  note t1 = t(1) [folded PACK_tag, folded sz] and t3 = t(3) [folded PACK_tag, folded sz] and i5 = s5(1) [folded sz]
  note R0 = marked_reads [OF heap x] and R1 = marked_reads [OF H1 x1]
    and R2 = marked_reads [OF H2(1) x2] and R3 = marked_reads [OF H3(1) x3]
  have "seg_coalesce (w32 (x + p + 4)) (mark x s) = ok (w32 (x + 4), mark x s5)"
    by (rule coalesce_run [OF R0(1,2,5,6,8,3) s1(1) R1(1) s2(1) R2(5) s3 R3(1,4,5,7) t1 t(2) t3 t(4) i5])
  moreover have "seg_frame s s5" using re3 s5(2) by (auto simp: relinked_def seg_frame_def)
  moreover have "kept (seg_payloads s ?C) (heap_bytes s) (heap_bytes s5)"
  proof -
    have pays: "seg_payloads s ?C = payloads (start_of ?s3 + 12) xs @ payloads (x + ?N) ys" "seg_payloads ?s4 ?C = seg_payloads s ?C"
      using x3 start4 by (simp_all add: seg_payloads_def ac_simps)
    have "set (seg_payloads s ?C) \<subseteq> set (seg_payloads s ?B)" by (auto simp: seg_payloads_def ac_simps)
    from kept_subset [OF H3(2) this] have "kept (seg_payloads s ?C) (heap_bytes s) (heap_bytes ?s3)" .
    moreover have "kept (seg_payloads s ?C) (heap_bytes ?s3) (heap_bytes ?s4)" using R(3) unfolding pays(1) by simp
    moreover have "kept (seg_payloads s ?C) (heap_bytes ?s4) (heap_bytes s5)" using H5(2) unfolding pays(2) .
    ultimately show ?thesis by (blast intro: kept_trans)
  qed
  ultimately show ?thesis using H5(1) s5(3) by blast
qed

section \<open>A heap of this kind\<close>

text \<open>Three blocks of 16 bytes: a free one at 4112, another at 4128, and an allocated one at 4144.\<close>

fun stores :: "(nat \<times> u32) list \<Rightarrow> memory" where
  "stores [] = (\<lambda>_. 0)"
| "stores ((a, v) # xs) = store32 (stores xs) a v"

definition three_heap :: seg where
  "three_heap = \<lparr>heap_bytes = stores
     [(4100, 9), (4104, 9), (4108, 16), (4120, 16), (4124, 16), (4136, 16), (4140, 17), (4152, 17), (4156, 1),
      (4112, 0), (4116, 4128), (4128, 4112), (4132, 0), (4144, 0), (4148, 0)],
     mem_start_brk = 4096, mem_brk = 4160, mem_max_addr = 4096 + MAX_HEAP, seg_listp = 4104,
     sgrlists = (replicate 20 0)[4 := 4128]\<rparr>"

lemma three_heap_tags: "seg_heap three_heap (three [] 16 16 16 [])" "start_of three_heap = 4096"
  by (simp_all add: three_heap_def seg_heap_def arena_ok_def loose_ftr_def tag_def w32_def)

lemma three_heap_frees: "seg_frees three_heap (three [] 16 16 16 []) = {(4112, 16), (4128, 16)}"
  by (auto simp: seg_frees_def three_heap_tags(2))

lemma three_heap_listed: "listed three_heap {(4112, 16), (4128, 16)}"
proof -
  have c: "size_class 16 = 4" using select_list_small [of 4 16] by (simp add: size_class_def)
  have "dlist (heap_bytes three_heap) 0 (sgrlists three_heap ! 4) [4128, 4112]"
    by (simp add: three_heap_def w32_def)
  moreover have "sgrlists three_heap ! l = 0" if "l < 20" "l \<noteq> 4" for l
    using that by (simp add: three_heap_def)
  moreover have "in_class {(4112, 16), (4128, 16)} l = (if l = 4 then {4112, 4128} else {})" for l
    by (auto simp: in_class_def c)
  moreover have "\<exists>xs. dlist (heap_bytes three_heap) 0 (sgrlists three_heap ! l) xs \<and> distinct xs
      \<and> set xs = in_class {(4112, 16), (4128, 16)} l" if "l < 20" for l
    using calculation that
    by (cases "l = 4") (intro exI [of _ "[4128, 4112]"], force, intro exI [of _ "[]"], simp)
  ultimately show ?thesis unfolding listed_def by (simp add: three_heap_def)
qed

lemma three_heap_zero: "load32 (heap_bytes three_heap) 4144 = 0" "load32 (heap_bytes three_heap) 4148 = 0"
  by (simp_all add: three_heap_def)

end
