(* ===== verification/Trace_Types.thy ===== *)
theory Trace_Types
  imports Trace_Roundtrip Driver
begin

text \<open>
  What holds of every trace that \<^verbatim>\<open>read_trace\<close> of \<^verbatim>\<open>src/mdriver.c\<close> returns, whatever the file says: its
  arrays have the lengths of the header up to the wrap-around of \<^verbatim>\<open>malloc\<close>'s argument, and the
  indices its assertion covers are bounded as unsigned words. For a header with \<open>0 < num_ids < 2 ^ 30\<close> these
  are the plain bounds; the last section shows what the code accepts otherwise, and that the
  indices of \<^verbatim>\<open>f\<close> lines are not covered at all.
\<close>

section \<open>Requests\<close>

text \<open>The index of an \<^verbatim>\<open>a\<close> or \<^verbatim>\<open>r\<close> request, as the reader compares it with the maximum so far.\<close>

definition index_upto :: "u32 \<Rightarrow> traceop \<Rightarrow> bool" where
  "index_upto m op \<longleftrightarrow> (op_type op = FREE \<or> (\<exists>i. op_index op = sint i \<and> i \<le> m))"

lemma index_upto_mono: "index_upto m op \<Longrightarrow> m \<le> m' \<Longrightarrow> index_upto m' op"
  by (auto simp: index_upto_def)

lemma index_upto_stored [simp]:
  "i \<le> m \<Longrightarrow> index_upto m \<lparr>op_type = t, op_index = sint i, op_size = n\<rparr>" "index_upto m (op\<lparr>op_type := FREE, op_index := v\<rparr>)"
  by (auto simp: index_upto_def)

text \<open>The first \<open>k\<close> elements of the array have been written, and nothing behind it.\<close>

definition filled :: "nat \<Rightarrow> nat \<Rightarrow> reader \<Rightarrow> bool" where
  "filled len k r \<longleftrightarrow> length (rd_ops r) = len \<and> rd_count r = w32 k \<and> k \<le> len
     \<and> (\<forall>i < k. index_upto (rd_max r) (rd_ops r ! i))"

lemma arr_set_inv: "arr_set xs (int k) v = ok ys \<Longrightarrow> k < length xs \<and> ys = xs[k := v]"
  by (auto simp: arr_set_def split: if_splits)

lemma read_request_filled:
  assumes r: "read_request c xs r = ok (r', rest)" and f: "filled len k r" and len: "len < 2 ^ 32"
  shows "filled len (Suc k) (r'\<lparr>rd_count := rd_count r' + 1\<rparr>)"
proof -
  have ui: "uint (w32 k) = int k" using f len uint_w32 [of k] by (simp add: filled_def)
  have op: "rd_ops r' = (rd_ops r)[k := rd_ops r' ! k] \<and> k < len \<and> rd_max r \<le> rd_max r'
      \<and> index_upto (rd_max r') (rd_ops r' ! k) \<and> rd_count r' = rd_count r"
    using r f unfolding read_request_def Let_def
    by (auto simp: filled_def ui elim!: bnd_eq_okE split: if_splits dest!: arr_set_inv)
  have "index_upto (rd_max r') (rd_ops r' ! i)" if "i < Suc k" for i
  proof (cases "i = k")
    case False
    then have "rd_ops r' ! i = rd_ops r ! i" using op by (metis nth_list_update_neq)
    then show ?thesis using False that f op by (auto simp: filled_def less_Suc_eq intro: index_upto_mono)
  qed (use op in simp)
  moreover have "length (rd_ops r') = len" using op f by (metis filled_def length_list_update)
  ultimately show ?thesis using f op by (simp add: filled_def w32_def add.commute)
qed

lemma read_requests_filled:
  "read_requests xs r = ok r' \<Longrightarrow> filled len k r \<Longrightarrow> len < 2 ^ 32 \<Longrightarrow> \<exists>n. filled len n r'"
proof (induction xs r arbitrary: k rule: read_requests.induct)
  case (1 xs r)
  show ?case
  proof (cases "scan_s xs")
    case None
    then show ?thesis using "1.prems" by (subst (asm) read_requests.simps) auto
  next
    case (Some tr)
    then obtain token rest where t: "scan_s xs = Some (token, rest)" by (cases tr) auto
    then obtain r1 ys where r1: "\<not> MAXLINE \<le> length token" "read_request (hd token) rest r = ok (r1, ys)"
        "read_requests ys (r1\<lparr>rd_count := rd_count r1 + 1\<rparr>) = ok r'"
      using "1.prems"(1) by (subst (asm) read_requests.simps) (auto elim!: bnd_eq_okE split: if_splits)
    have "filled len (Suc k) (r1\<lparr>rd_count := rd_count r1 + 1\<rparr>)"
      by (rule read_request_filled [OF r1(2) "1.prems"(2,3)])
    then show ?thesis
      using "1.IH" [OF t refl r1(1,2) refl r1(3)] "1.prems"(3) by blast
  qed
qed

section \<open>Traces\<close>

definition int_range :: "int \<Rightarrow> bool" where
  "int_range v \<longleftrightarrow> - (2 ^ 31) \<le> v \<and> v < 2 ^ 31"

text \<open>An array of 4-byte elements is allocated for the number of ids modulo \<open>2 ^ 30\<close>.\<close>

lemma elements_4: "int (elements n 4) = n mod 2 ^ 30"
proof -
  have "uint (word_of_int n * 4 :: u32) = (n * 4) mod 2 ^ 32" 
    by (simp add: uint_word_ariths unsigned_of_int take_bit_eq_mod mod_mult_left_eq)
  also have "\<dots> = 4 * (n mod 2 ^ 30)" using mult_mod_right [of 4 n "2 ^ 30"] by (simp add: mult.commute)
  finally have "uint (word_of_int n * 4 :: u32) = 4 * (n mod 2 ^ 30)" .
  then show ?thesis by (simp add: elements_def zdiv_int)
qed

lemma scan_d_range: "scan_d xs old = ok (b, v, rest) \<Longrightarrow> int_range old \<Longrightarrow> int_range v"
  by (auto simp: scan_d_def int_range_def split: prod.splits option.splits if_splits)

lemma elements_count:
  assumes "elements n (w32 c) = len" "word_of_int n = w32 k" "k \<le> len" "1 < c" "c < 2 ^ 32" "int_range n"
  shows "n = int len" and "k = len"
proof -
  have "len \<le> (2 ^ 32 - 1) div c"
    using assms(1,5) unat_u32_less [of "word_of_int n * w32 c"]
    by (auto simp: elements_def intro!: div_le_mono)
  then have "len * c \<le> 4294967295" using assms(4) by (simp add: less_eq_div_iff_mult_less_eq)
  moreover have "k * 2 \<le> k * c" "k * c \<le> len * c" using assms(3,4) by simp_all
  ultimately have kc: "k * c < 4294967296" "k * 2 < 4294967296" by linarith+
  then have "len = k" using assms(1,2,4,5) by (simp add: elements_def)
  then show "k = len" by simp
  have "sint (word_of_int n :: u32) = n"
    using assms(6) by (simp add: int_range_def signed_of_int signed_take_bit_int_eq_self)
  then show "n = int len" using assms(2) kc(2) sint_w32 [of k] \<open>len = k\<close> by simp
qed

lemma read_trace_typed:
  assumes r: "read_trace refuses g dir filename file = ok tr"
    and g: "int_range (num_ops (g_trace g))"
  shows "num_ops tr = int (length (ops tr))"
    and "int (length (blocks tr)) = num_ids tr mod 2 ^ 30" "length (block_sizes tr) = length (blocks tr)"
    and "\<forall>op \<in> set (ops tr). op_type op \<noteq> FREE \<longrightarrow> op_index op mod 2 ^ 32 \<le> (num_ids tr - 1) mod 2 ^ 32"
    and "0 < num_ids tr \<and> num_ids tr < 2 ^ 30 \<longrightarrow> int (length (blocks tr)) = num_ids tr
      \<and> (\<forall>op \<in> set (ops tr). op_type op \<noteq> FREE \<longrightarrow> 0 \<le> op_index op \<and> op_index op < num_ids tr)"
proof -
  have "\<exists>xs rd. int_range (num_ops tr) \<and> read_requests xs (first_reader g (elements (num_ops tr) 12)) = ok rd
      \<and> rd_max rd = word_of_int (num_ids tr - 1) \<and> word_of_int (num_ops tr) = rd_count rd \<and> ops tr = rd_ops rd
      \<and> length (blocks tr) = elements (num_ids tr) 4 \<and> length (block_sizes tr) = elements (num_ids tr) 4"
    using r g unfolding read_trace_def Let_def first_reader_def
    apply (auto elim!: bnd_eq_okE split: if_splits option.splits simp del: of_int_diff)
     apply (erule scan_d_range [OF _ g])
    by (intro exI conjI, assumption, assumption, rule refl, rule refl)
  then obtain xs rd where n: "int_range (num_ops tr)"
      and req: "read_requests xs (first_reader g (elements (num_ops tr) 12)) = ok rd"
      and asserts: "rd_max rd = word_of_int (num_ids tr - 1)" "word_of_int (num_ops tr) = rd_count rd"
      and tr: "ops tr = rd_ops rd" "length (blocks tr) = elements (num_ids tr) 4"
        "length (block_sizes tr) = elements (num_ids tr) 4" by blast
  let ?len = "elements (num_ops tr) 12"
  have len: "?len < 2 ^ 32"
    using unat_u32_less [of "word_of_int (num_ops tr) * 12"] by (simp add: elements_def order.strict_trans1 [OF div_le_dividend])
  have "filled ?len 0 (first_reader g ?len)" by (simp add: filled_def first_reader_def)
  from read_requests_filled [OF req this len] obtain k where k: "filled ?len k rd" by blast
  have cnt: "num_ops tr = int ?len" "k = ?len"
    using elements_count [of "num_ops tr" 12 ?len k] k asserts(2) n by (auto simp: filled_def w32_numeral)
  show "num_ops tr = int (length (ops tr))" using cnt k tr by (simp add: filled_def)
  show bl: "int (length (blocks tr)) = num_ids tr mod 2 ^ 30" "length (block_sizes tr) = length (blocks tr)"
    by (simp_all only: tr elements_4)
  have ix: "\<exists>i :: u32. op_index op = sint i \<and> i \<le> word_of_int (num_ids tr - 1)"
    if op: "op \<in> set (ops tr)" "op_type op \<noteq> FREE" for op
  proof -
    have "index_upto (rd_max rd) op" using op(1) k cnt(2) tr(1) by (auto simp: filled_def in_set_conv_nth)
    then show ?thesis using op(2) unfolding index_upto_def asserts(1) by blast
  qed
  show all: "\<forall>op \<in> set (ops tr). op_type op \<noteq> FREE \<longrightarrow> op_index op mod 2 ^ 32 \<le> (num_ids tr - 1) mod 2 ^ 32"
  proof (intro ballI impI)
    fix op assume "op \<in> set (ops tr)" "op_type op \<noteq> FREE"
    then obtain i :: u32 where i: "op_index op = sint i" "i \<le> word_of_int (num_ids tr - 1)" using ix by blast
    have "sint i mod 2 ^ 32 = uint i" using uint_sint [of i] by (simp add: take_bit_eq_mod)
    moreover have "uint i \<le> (num_ids tr - 1) mod 2 ^ 32"
      using i(2) by (simp add: word_le_def unsigned_of_int take_bit_eq_mod del: of_int_diff)
    ultimately show "op_index op mod 2 ^ 32 \<le> (num_ids tr - 1) mod 2 ^ 32" by (simp only: i(1))
  qed
  show "0 < num_ids tr \<and> num_ids tr < 2 ^ 30 \<longrightarrow> int (length (blocks tr)) = num_ids tr
      \<and> (\<forall>op \<in> set (ops tr). op_type op \<noteq> FREE \<longrightarrow> 0 \<le> op_index op \<and> op_index op < num_ids tr)"
  proof (intro impI conjI ballI)
    assume ids: "0 < num_ids tr \<and> num_ids tr < 2 ^ 30"
    then show "int (length (blocks tr)) = num_ids tr" using bl by simp
    fix op assume op: "op \<in> set (ops tr)" "op_type op \<noteq> FREE"
    then obtain i :: u32 where i: "op_index op = sint i" "i \<le> word_of_int (num_ids tr - 1)" using ix by blast
    have less: "uint i < num_ids tr"
      using i(2) ids by (simp add: word_le_def unsigned_of_int take_bit_eq_mod del: of_int_diff)
    moreover have "- (2 ^ 31) \<le> uint i" by (rule order_trans [OF _ uint_ge_0]) simp
    ultimately have "sint i = uint i"
      using signed_take_bit_int_eq_self [of 31 "uint i"] ids by (simp add: sint_uint)
    with less show "0 \<le> op_index op" "op_index op < num_ids tr" using i(1) by simp_all
  qed
qed

section \<open>The holes\<close>

text \<open>An \<^verbatim>\<open>f\<close> line with an index beyond the arrays is accepted, and the driver then reads outside them.\<close>

lemma free_index_unchecked:
  assumes tr: "trace_ok tr" and path: "length (dir @ filename) < MAXLINE" and mem: "\<And>n. \<not> refuses n"
    and op: "ops tr = op # rest" "op_type op = FREE" "num_ids tr \<le> op_index op"
    and ini: "mm_init pkg (mem_reset_brk s) = ok (r, s')" "0 \<le> r"
  shows "\<exists>tr'. read_trace refuses g dir filename (Some (show_trace tr)) = ok tr'
    \<and> eval_mm_valid pkg oom tr' i rs d s = fail OutOfBounds"
proof -
  have "0 < num_ids tr" using tr by (simp add: trace_ok_def header_ok_def)
  then show ?thesis
    using read_trace_show [OF tr path mem] op ini
    by (simp add: eval_mm_valid_def valid_step_def stored_def arr_get_def Let_def)
qed

text \<open>
  A header that announces no ids at all is accepted with an \<^verbatim>\<open>r\<close> line whose index is the largest
  word, since \<^verbatim>\<open>num_ids - 1\<close> is compared as an unsigned number: the arrays are empty, and the
  evaluation reads outside them.
\<close>

definition zero_ids_text :: string where
  "zero_ids_text = [CHR ''1'', CHR 0x0A, CHR ''0'', CHR 0x0A, CHR ''1'', CHR 0x0A, CHR ''1'', CHR 0x0A] @ ''r 4294967295 8''"

lemmas scan_eval = scan_number_def skip_space_def is_space_def is_digit_def digits_val_def digit_val_def Let_def

lemma zero_ids_scans:
  "scan_d zero_ids_text a = ok (True, 1, drop (Suc 0) zero_ids_text)"
  "scan_d (drop (Suc 0) zero_ids_text) b = ok (True, 0, drop 3 zero_ids_text)"
  "scan_d (drop 3 zero_ids_text) c = ok (True, 1, drop 5 zero_ids_text)"
  "scan_d (drop 5 zero_ids_text) d = ok (True, 1, drop 7 zero_ids_text)"
  "scan_s (drop 7 zero_ids_text) = Some (''r'', drop 9 zero_ids_text)"
  "scan_uu (drop 9 zero_ids_text) i n = ok (- 1, 8, [])" "scan_s [] = None"
  by (simp_all add: scan_d_def scan_uu_def scan_u_def scan_s_def scan_eval zero_ids_text_def)

lemma zero_ids_accepted:
  assumes path: "length (dir @ filename) < MAXLINE" and mem: "\<And>n. \<not> refuses n"
    and ini: "mm_init pkg (mem_reset_brk s) = ok (r, s')" "0 \<le> r"
  shows "\<exists>tr. read_trace refuses g dir filename (Some zero_ids_text) = ok tr
    \<and> num_ids tr = 0 \<and> blocks tr = [] \<and> ops tr = [\<lparr>op_type = REALLOC, op_index = -1, op_size = 8\<rparr>]
    \<and> eval_mm_valid pkg oom tr i rs d s = fail OutOfBounds"
proof -
  have el: "elements 1 12 = 1" "elements 0 4 = 0" by (simp_all add: elements_def)
  have req: "read_requests (drop 7 zero_ids_text) (first_reader g 1)
      = ok (\<lparr>rd_ops = [\<lparr>op_type = REALLOC, op_index = -1, op_size = 8\<rparr>], rd_index = -1, rd_size = 8, rd_max = -1, rd_count = 1\<rparr>)"
    by (subst read_requests.simps, subst read_requests.simps)
      (simp add: zero_ids_scans read_request_def first_reader_def arr_set_def MAXLINE_def word_gt_0)
  have "\<exists>tr. read_trace refuses g dir filename (Some zero_ids_text) = ok tr
    \<and> num_ids tr = 0 \<and> blocks tr = [] \<and> ops tr = [\<lparr>op_type = REALLOC, op_index = -1, op_size = 8\<rparr>] \<and> num_ops tr = 1"
    using path req by (simp add: read_trace_def mem el zero_ids_scans first_reader_def Let_def)
  then show ?thesis using ini
    by (auto simp: eval_mm_valid_def valid_step_def stored_def arr_get_def Let_def)
qed

end
