(* ===== verification/Samples.thy ===== *)
theory Samples
  imports File_Runs FirstFit_Check FirstFit_Edges Driver_Sound SegList_Tagged Trace_Types
begin

text \<open>
  Concrete states and traces at which the theorems of the root theory are applied: a fresh
  arena, the heap \<^verbatim>\<open>mm_init\<close> of the first-fit allocator builds in it, that heap with one and
  with two blocks, and small traces.
\<close>

section \<open>First-fit heaps\<close>

definition empty_arena :: ff where
  "empty_arena = \<lparr>heap_bytes = (\<lambda>_. 0), mem_start_brk = 4096, mem_brk = 4096,
     mem_max_addr = 4096 + MAX_HEAP, heap_listp = 0\<rparr>"

lemma empty_arena_ok [simp]: "arena_ok empty_arena" "mem_brk empty_arena = mem_start_brk empty_arena"
    "start_of empty_arena = 4096" "top_of empty_arena = 20975616"
  by (simp_all add: empty_arena_def arena_ok_def)

text \<open>Prologue, the given blocks and the epilogue.\<close>

fun stamp_blocks :: "nat \<Rightarrow> blk list \<Rightarrow> memory \<Rightarrow> memory" where
  "stamp_blocks h [] m = store32 m h (tag 0 True)"
| "stamp_blocks h ((n, f) # bs) m =
     stamp_blocks (h + n) bs (store32 (store32 m h (tag n f)) (h + n - 4) (tag n f))"

definition heap_of :: "blk list \<Rightarrow> ff" where
  "heap_of bs = \<lparr>heap_bytes = stamp_blocks 4100 ((8, True) # bs) (\<lambda>_. 0), mem_start_brk = 4096,
     mem_brk = w32 (4112 + extent bs), mem_max_addr = 4096 + MAX_HEAP, heap_listp = w32 4104\<rparr>"

lemma heap_of_arena [simp]:
  "start_of (heap_of bs) = 4096" "top_of (heap_of bs) = 20975616"
  by (simp_all add: heap_of_def)

lemma heap_of_one: "ff_inv (heap_of [(4096, False)]) [(4096, False)]"
  by (simp add: ff_inv_def heap_of_def arena_ok_def coalesced_def w32_numeral)

lemma heap_of_two: "ff_inv (heap_of [(48, True), (4048, False)]) [(48, True), (4048, False)]"
  by (simp add: ff_inv_def heap_of_def arena_ok_def coalesced_def w32_numeral)

lemma client_two: "ff_client (heap_of [(48, True), (4048, False)]) [4112 \<mapsto> 40]"
  unfolding ff_client_def
  by (intro exI [of _ "[(48, True), (4048, False)]"] conjI heap_of_two)
    (simp_all add: ff_payloads_def)

text \<open>A client that has just called \<^verbatim>\<open>mm_init\<close>, and one that holds one payload of 100 bytes.\<close>

lemma sample_start: "\<exists>s. session ff_package s Map.empty \<and> no_wrap s 8"
proof -
  obtain s0 where s0: "ff_mm_init empty_arena = ok (0, s0)" "top_of s0 = 20975616"
    using ff_mm_init_blocks [of empty_arena] by auto
  have "session ff_package s0 Map.empty"
    by (rule session.start [of empty_arena]) (simp_all add: ff_package_def s0(1))
  then show ?thesis using s0(2) by (auto simp: no_wrap_def)
qed

lemma sample_session: "\<exists>s p. session ff_package s [p \<mapsto> 100]"
proof -
  obtain s0 where s0: "ff_mm_init empty_arena = ok (0, s0)" "start_of s0 = 4096" "top_of s0 = 20975616"
      "ff_inv s0 [(4096, False)]"
    using ff_mm_init_blocks [of empty_arena] by auto
  have ss: "session ff_package s0 Map.empty"
    by (rule session.start [of empty_arena]) (simp_all add: ff_package_def s0(1))
  have nw: "no_wrap s0 100" using s0(3) by (simp add: no_wrap_def)
  obtain s1 where s1: "ff_mm_malloc (w32 100) s0 = ok (w32 4112, s1)"
    using ff_malloc_fit [OF s0(4) _ nw, of "[]" 4096 "[]"] s0(2) by (auto simp: asize_of_def)
  have "session ff_package s1 [unat (w32 4112) \<mapsto> 100]"
    by (rule session.served [OF ss _ nw]) (simp_all add: ff_package_def s1)
  then show ?thesis by blast
qed

section \<open>Traces\<close>

text \<open>The five requests of a small trace over two indices.\<close>

definition sample_ops :: "traceop list" where
  "sample_ops =
     [\<lparr>op_type = ALLOC, op_index = 0, op_size = 80\<rparr>, \<lparr>op_type = ALLOC, op_index = 1, op_size = 40\<rparr>,
      \<lparr>op_type = REALLOC, op_index = 0, op_size = 200\<rparr>, \<lparr>op_type = FREE, op_index = 1, op_size = 0\<rparr>,
      \<lparr>op_type = FREE, op_index = 0, op_size = 0\<rparr>]"

definition sample_trace :: trace where
  "sample_trace = \<lparr>sugg_heapsize = 20000, num_ids = 2, num_ops = 5, weight = 1, ops = sample_ops,
     blocks = [0, 0], block_sizes = [0, 0]\<rparr>"

text \<open>An allocation and a reallocation at an index whose low byte is 200.\<close>

definition signed_trace :: trace where
  "signed_trace = \<lparr>sugg_heapsize = 20000, num_ids = 201, num_ops = 2, weight = 1,
     ops = [\<lparr>op_type = ALLOC, op_index = 200, op_size = 16\<rparr>, \<lparr>op_type = REALLOC, op_index = 200, op_size = 40\<rparr>],
     blocks = replicate 201 0, block_sizes = replicate 201 0\<rparr>"

lemma signed_trace_wf:
  "length (blocks signed_trace) = 201" "length (block_sizes signed_trace) = 201"
  "ops signed_trace = [\<lparr>op_type = ALLOC, op_index = 200, op_size = 16\<rparr>] @ \<lparr>op_type = REALLOC, op_index = 200, op_size = 40\<rparr> # []"
  "wf_ops 201 40 {} ([\<lparr>op_type = ALLOC, op_index = 200, op_size = 16\<rparr>] @
     [\<lparr>op_type = REALLOC, op_index = 200, op_size = 40\<rparr>\<lparr>op_type := FREE\<rparr>,
      \<lparr>op_type = REALLOC, op_index = 200, op_size = 40\<rparr>\<lparr>op_type := ALLOC\<rparr>])"
  "growth ff_grow ([\<lparr>op_type = ALLOC, op_index = 200, op_size = 16\<rparr>] @ [\<lparr>op_type = REALLOC, op_index = 200, op_size = 40\<rparr>]) = 8192"
  by (simp_all add: signed_trace_def growth_def op_growth_def ff_grow_def)

lemma sample_trace_wf: "wf_ops 2 200 {} (ops sample_trace)"
    "length (blocks sample_trace) = 2" "length (block_sizes sample_trace) = 2"
    "growth ff_grow (ops sample_trace) = 12288"
  by (simp_all add: sample_trace_def sample_ops_def op_growth_def ff_grow_def)

lemma sample_room: "no_wrap empty_arena 200"
  by (simp add: no_wrap_def)

lemma sample_valid:
  "\<exists>v. eval_mm_valid ff_package (\<lambda>_. False) sample_trace t rs d empty_arena = ok (1, v)"
  using ff_room.eval_mm_valid_room [OF _ _ sample_room sample_trace_wf(1-3), of t rs d] sample_trace_wf(4) by auto

text \<open>Memory that \<^verbatim>\<open>malloc\<close> returns cleared.\<close>

definition sample_garbage :: garbage where
  "sample_garbage = \<lparr>g_trace = sample_trace\<lparr>weight := 0\<rparr>, g_ops = \<lambda>_. \<lparr>op_type = FREE, op_index = 0, op_size = 0\<rparr>,
     g_blocks = \<lambda>_. 0, g_sizes = \<lambda>_. 0, g_size = 0\<rparr>"

lemma sample_trace_ok: "trace_ok sample_trace"
  by (simp add: trace_ok_def header_ok_def sample_trace_def sample_ops_def int_ok_def op_ok_def max_index_def)

lemma sample_stored:
  "sample_trace\<lparr>ops := stored_from sample_garbage 0 (ops sample_trace),
     blocks := map (g_blocks sample_garbage) [0..<nat (num_ids sample_trace)],
     block_sizes := map (g_sizes sample_garbage) [0..<nat (num_ids sample_trace)]\<rparr> = sample_trace"
  by (simp add: sample_trace_def sample_ops_def sample_garbage_def stored_def numeral_2_eq_2)

lemma sample_read:
  "read_trace (\<lambda>_. False) sample_garbage ''./'' ''sample.rep'' (Some (show_trace sample_trace)) = ok sample_trace"
  by (subst read_trace_show [OF sample_trace_ok]) (simp_all add: MAXLINE_def sample_stored)

section \<open>An environment for the main program\<close>

text \<open>A libc that answers every request with one address; the sample run does not call it.\<close>

definition sample_libc :: "unit libc" where
  "sample_libc = \<lparr>l_malloc = \<lambda>n h. (8, h), l_realloc = \<lambda>p n h. (8, h), l_free = \<lambda>p h. h\<rparr>"

text \<open>
  A timing package in its initial state, on a machine with a steady cycle counter (5000 cycles per
  answer), a user time that moves on with every answer, and a clock that shows 1 s and then 3 s.
\<close>

definition sample_timing :: timing where
  "sample_timing = \<lparr>tsc = smap (\<lambda>i. (0, w32 (5000 * i))) nats, utimes = smap int nats, cyc_hi = 0, cyc_lo = 0,
     cyc_per_tick = 0, start_tick = 0,
     sam = \<lparr>kbest = 3, maxsamples = 20, epsilon = 1 / 100, best_values = [], samplecount = 0\<rparr>,
     compensate = 0, clear_cache = 0, cache_bytes = 2 ^ 19, cache_block = 32, cache_buf = 0, cache_mem = \<lambda>_. 0,
     sink = 0, Mhz = 0, tods = (1, 0) ## sconst (3, 0), real_timer = sconst (86400, 0), first_u = (0, 0),
     first_r = (0, 0), first_p = (0, 0)\<rparr>"

lemma sample_reading:
  "i < 400000 \<Longrightarrow> j < 400000 \<Longrightarrow> i \<le> j \<Longrightarrow> counter_diff (tsc sample_timing !! i) (tsc sample_timing !! j) = 5000 * (real j - real i)"
  by (simp add: sample_timing_def counter_diff_val counter_val_def uint_w32 right_diff_distrib)

text \<open>The same state with a calibrated counter, compensation and clearing of the cache switched on.\<close>

definition sample_measuring :: timing where
  "sample_measuring = sample_timing\<lparr>cyc_per_tick := 4000, compensate := 1, clear_cache := 1\<rparr>"

lemma sample_measurable: "measurable (\<lambda>_. 4096) sample_measuring"
  by (simp add: measurable_def sample_measuring_def sample_timing_def clear_ready_def buffer_at_def)

text \<open>
  The run the README proposes, \<^verbatim>\<open>mdriver -V -f short1-bal.rep\<close>, and a clock that shows 2 s for ten runs.
\<close>

definition readme_env :: "team_t \<Rightarrow> environment" where
  "readme_env team = \<lparr>e_args = [''-V'', ''-f'', ''short1-bal.rep''], e_team = team,
     e_content = \<lambda>path. if path = ''./short1-bal.rep'' then Some short1_bal else None,
     e_refuses = \<lambda>_ _ _. False, e_garbage = \<lambda>_ _. sample_garbage,
     e_world = \<lambda>_ _. \<lparr>w_oom = \<lambda>_. False, w_timing = sample_timing, w_malloc = \<lambda>_. 0, w_calloc = False\<rparr>,
     e_arena = 4096, e_refused = \<lambda>_. False\<rparr>"

definition readme_options :: options where
  "readme_options = \<lparr>tracefiles = Some [''short1-bal.rep''], tracedir = ''./'', num_tracefiles = 1, team_check = True,
     run_libc = False, autograder = False, verbose = 2\<rparr>"

lemma readme_started:
  assumes "check_team team = ok ()"
  shows "started (readme_env team) readme_options [''short1-bal.rep'']"
proof -
  have "getopt [] [''-V'', ''-f'', ''short1-bal.rep''] = [(CHR ''V'', []), (CHR ''f'', ''short1-bal.rep'')]"
    by (simp add: optstring_def)
  then show ?thesis using assms
    by (simp add: started_def readme_env_def readme_options_def default_options_def parse_opt_def)
qed

lemma readme_read:
  "read_file (readme_env team) True ''./'' [''short1-bal.rep''] 0 = ok (loaded sample_garbage (file_trace 6 short1_ops))"
  using read_loaded [OF file_traces_ok(1) shown_files(1), of "''./''" "''short1-bal.rep''" sample_garbage]
  by (simp add: read_file_def readme_env_def MAXLINE_def)

lemma readme_ok: "env_ok 4112 ff_grow 4072 (readme_env ff_team) readme_options [''short1-bal.rep'']"
proof -
  have "measured_secs (e_world (readme_env ff_team) True 0) = 1 / 5"
    by (simp add: measured_secs_def readme_env_def sample_timing_def instant_def)
  moreover have "tracedir readme_options = ''./''" by (simp add: readme_options_def)
  moreover have "0 \<le> num_ops (loaded sample_garbage (file_trace 6 short1_ops))" by (simp add: loaded_def file_trace_def)
  ultimately show ?thesis
    using readme_started [of ff_team] readme_read [of ff_team] loaded_files_fit(1) [of sample_garbage]
    by (simp add: env_ok_def) (simp add: readme_env_def)
qed

lemma readme_allocates: "allocates_first (readme_env team) readme_options [''short1-bal.rep'']"
  using readme_read [of team]
  by (simp add: allocates_first_def readme_options_def loaded_def file_trace_def short1_ops_def stored_def alloc_op_def)

section \<open>Segregated lists and explicit lists\<close>

definition empty_seg :: seg where
  "empty_seg = \<lparr>heap_bytes = (\<lambda>_. 0), mem_start_brk = 4096, mem_brk = 4096, mem_max_addr = 4096 + MAX_HEAP,
     seg_listp = 0, sgrlists = replicate 20 0\<rparr>"

definition empty_xl :: xl where
  "empty_xl = \<lparr>heap_bytes = (\<lambda>_. 0), mem_start_brk = 4096, mem_brk = 4096, mem_max_addr = 4096 + MAX_HEAP,
     xl_heap_listp = 0, free_listp = 0\<rparr>"

lemma empty_arenas_ok [simp]:
  "arena_ok empty_seg" "mem_brk empty_seg = mem_start_brk empty_seg"
  "arena_ok empty_xl" "mem_brk empty_xl = mem_start_brk empty_xl" "load32 (heap_bytes empty_xl) a = 0"
  by (simp_all add: empty_seg_def empty_xl_def arena_ok_def)

text \<open>The heap \<^verbatim>\<open>mm_init\<close> of \<^verbatim>\<open>mm.c\<close> builds, and that heap with a block of 16 bytes placed in it.\<close>

lemma seg_built: "\<exists>s. seg_mm_init empty_seg = ok (0, s) \<and> seg_inv s [(4096, False)] \<and> start_of s = 4096 \<and> top_of s = 20975616"
proof -
  have "start_of empty_seg = 4096" "top_of empty_seg = 20975616" by (simp_all add: empty_seg_def)
  with seg_mm_init_fresh [of empty_seg] seg_fresh_inv show ?thesis by auto
qed

lemma seg_one_block:
  "\<exists>s. seg_inv s [(16, True), (4080, False)] \<and> start_of s = 4096 \<and> top_of s = 20975616 \<and> brk_of s = 8208"
proof -
  obtain s where s: "seg_inv s ([] @ (4096, False) # [])" "start_of s = 4096" "top_of s = 20975616" using seg_built by auto
  have "brk_of s = 8208" using s(1,2) by (simp add: seg_inv_def seg_heap_def)
  with seg_place_inv [OF s(1), of 16] s(2,3) show ?thesis by (auto simp: place_blocks_def seg_frame_def)
qed

text \<open>An arena whose list 6 holds one free block of 64 bytes at 4176, behind a block at 4112.\<close>

definition one_free :: seg where
  "one_free = \<lparr>heap_bytes = stores [(4108, 64), (4172, 64)], mem_start_brk = 4096, mem_brk = 4240,
     mem_max_addr = 4096 + MAX_HEAP, seg_listp = 4104, sgrlists = (replicate 20 0)[6 := w32 4176]\<rparr>"

lemma one_free_list:
  "dlist (heap_bytes one_free) 0 (sgrlists one_free ! 6) [4176]" "nodes_ok one_free [4112, 4176]"
  "nodes_ok one_free [4176]" "select_list 0 (w32 64) = (6, 1)" "6 < length (sgrlists one_free)"
  "GET_SIZE (HDRP (w32 4176)) one_free = ok (w32 64)"
  by (simp_all add: one_free_def nodes_ok_def in_arena_def select_list_small)
    (simp add: GET_SIZE_def GET_def in_arena_def w32_def)

lemma one_free_front:
  "sgrlists one_free ! 6 = 0 \<or> (\<exists>k. GET_SIZE (HDRP (sgrlists one_free ! 6)) one_free = ok k \<and> 1 \<le> k)"
proof -
  have "sgrlists one_free ! 6 = w32 4176" by (simp add: one_free_def)
  moreover have "1 \<le> w32 64" by (simp add: w32_def)
  ultimately show ?thesis using one_free_list(6) by metis
qed

end
