(* ===== verification/Spec2Isabelle.thy ===== *)
theory Spec2Isabelle
  imports
    Samples
begin

text \<open>
  A verification development for the CS:APP malloc lab repository: three allocators written
  against a simulated heap, and the driver that checks and measures them.

  \<^bold>\<open>The program.\<close> \<^verbatim>\<open>src/memlib.c\<close> simulates \<^verbatim>\<open>sbrk\<close> on a fixed arena. On top of it stand three
  packages with the interface of \<^verbatim>\<open>src/mm.h\<close> (\<^verbatim>\<open>mm_init\<close>, \<^verbatim>\<open>mm_malloc\<close>, \<^verbatim>\<open>mm_free\<close>,
  \<^verbatim>\<open>mm_realloc\<close>): \<^verbatim>\<open>src/mm-firstfit.c\<close> (implicit list, first fit, boundary tags), \<^verbatim>\<open>src/mm.c\<close>
  (segregated lists with reallocation tags, unfinished) and \<^verbatim>\<open>src/mm2.c\<close> (explicit list,
  unfinished). The driver \<^verbatim>\<open>src/mdriver.c\<close> reads trace files, runs a package over them, checks
  every payload it returns, measures space and time (\<^verbatim>\<open>src/fsecs.c\<close>, \<^verbatim>\<open>src/ftimer.c\<close>,
  \<^verbatim>\<open>src/fcyc.c\<close>, \<^verbatim>\<open>src/clock.c\<close>) and prints a performance index.

  \<^bold>\<open>Conventions.\<close> The build is 32-bit (\<^verbatim>\<open>-m32\<close> in \<^verbatim>\<open>src/Makefile\<close>): pointers and \<^verbatim>\<open>size_t\<close> are
  \<open>u32\<close>, arithmetic on them wraps around. Memory is a map from byte addresses to bytes. A C
  function becomes a HOL function that takes the state and returns a value of type \<open>res\<close>
  (theory \<open>Prelude\<close>): it does not return, ends with a failure (an access outside the arena,
  \<^verbatim>\<open>exit\<close>, a failed \<^verbatim>\<open>assert\<close>, an index out of range, an undefined library call), or returns.
  A loop that ends on every input is a terminating function; one that a corrupted heap could
  keep running is a \<open>partial_function\<close>, and the theorems state that it returns. There is no fuel.

  \<^bold>\<open>Theories and the code they model.\<close>
  \<^item> \<open>Memlib\<close>: \<^verbatim>\<open>memlib.c\<close>. The record \<open>mem\<close> has its three private pointers and the bytes;
    \<open>memcpy\<close>, \<open>memmove\<close> and \<open>memset\<close> of the C library are here as well.
  \<^item> \<open>Tags\<close>: the header and footer macros; \<open>Chain\<close>: when memory spells a list of blocks.
  \<^item> \<open>FirstFit\<close>: \<^verbatim>\<open>mm-firstfit.c\<close>, one definition per function. \<open>FirstFit_Heap\<close> and
    \<open>FirstFit_Correct\<close> prove that the operations compute list functions on the blocks
    (\<open>place_blocks\<close>, \<open>join_blocks\<close>, \<open>malloc_blocks\<close>, from \<open>Blocks\<close>); \<open>FirstFit_Edges\<close> has the
    calls outside the contract (no room, null pointers, overflowing sizes) and \<open>FirstFit_Check\<close>
    treats the heap checker.
  \<^item> \<open>Allocator\<close>: the interface of \<^verbatim>\<open>mm.h\<close> as a record of functions (\<open>mm_package\<close>) and its contract
    as two locales, \<open>allocator\<close> (what calls promise about the live payloads) and
    \<open>growing_allocator\<close> (how far they move the break). \<open>Sessions\<close>: what a client that calls a
    package in any order can rely on.
  \<^item> \<open>FirstFit_Client\<close>, \<open>FirstFit_Room\<close>: the interpretations of the two locales on the
    first-fit package.
  \<^item> \<open>Scan\<close>, \<open>Trace\<close>, \<open>Trace_Roundtrip\<close>, \<open>Trace_Types\<close>: \<^verbatim>\<open>fscanf\<close> and \<^verbatim>\<open>read_trace\<close>; \<open>Ranges\<close>: the range list;
    \<open>Driver\<close>: \<^verbatim>\<open>eval_mm_valid\<close>, \<^verbatim>\<open>eval_mm_util\<close>, \<^verbatim>\<open>eval_mm_speed\<close>; \<open>Mdriver\<close>: \<^verbatim>\<open>main\<close> with \<^verbatim>\<open>getopt\<close>,
    the option and team checks, the libc runs, the performance index and the printed tables (all
    \<^verbatim>\<open>mdriver.c\<close>). \<open>Mdriver_Options\<close>: what a command line means; \<open>Doubles\<close>: the C type \<^verbatim>\<open>double\<close> where it can be
    infinite or not a number, as an instance of the arithmetic and order classes.
  \<^item> \<open>Trace_Files\<close>, \<open>File_Runs\<close>: the trace files of the repository, \<^verbatim>\<open>src/*.rep\<close> and \<^verbatim>\<open>src/traces\<close>, and
    the driver over them.
  \<^item> \<open>Driver_Correct\<close>, \<open>Driver_Room\<close>, \<open>Driver_Runs\<close>, \<open>Mdriver_Correct\<close>: the driver over any
    package that meets the contract, proved inside the locales. \<open>Driver_Sound\<close>: what the verdict
    of \<^verbatim>\<open>eval_mm_valid\<close> means for an arbitrary package.
  \<^item> \<open>Clock\<close>: \<^verbatim>\<open>clock.c\<close>; \<open>Sampler\<close> and \<open>Fcyc\<close>: \<^verbatim>\<open>fcyc.c\<close>, the K-best sampler and the measurement
    around it; \<open>Fsecs\<close>: \<^verbatim>\<open>ftimer.c\<close> and \<^verbatim>\<open>fsecs.c\<close>. The answers of the cycle counter, of \<^verbatim>\<open>times\<close>
    and of \<^verbatim>\<open>gettimeofday\<close> are streams in the state.
  \<^item> \<open>SegList\<close>: \<^verbatim>\<open>mm.c\<close>, one definition per function. \<open>SegList_Lists\<close> treats the doubly linked
    lists in memory; \<open>SegList_Heap\<close> has the invariant that ties lists and tags to a list of blocks,
    \<open>SegList_Free\<close> and \<open>SegList_Ops\<close> prove that freeing, placing and extending keep it and compute
    the same list functions as the first-fit allocator; \<open>SegList_Correct\<close> has what \<^verbatim>\<open>mm_malloc\<close>
    does with it, \<open>SegList_Realloc\<close> all cases of \<^verbatim>\<open>mm_realloc\<close>, and \<open>SegList_Tagged\<close> the case of
    \<^verbatim>\<open>coalesce\<close> that destroys a block in use.
  \<^item> \<open>Block_Heap\<close>: the contract of those three operations as a locale, interpreted on the first-fit
    and on the segregated-list heap, and what any sequence of them does.
  \<^item> \<open>ExplicitList\<close>: \<^verbatim>\<open>mm2.c\<close>. \<open>Packages\<close>: the driver and the whole program over the two unfinished
    packages, and the team structures of all three.
  \<^item> \<open>Samples\<close>: the concrete heaps and traces at which the theorems below are applied.

  \<^bold>\<open>What the theorems show.\<close> The first-fit allocator refines a list of blocks: every call returns,
  keeps the heap well-formed and leaves live payloads alone. The driver's checks therefore never
  fire against it, its runs end, and the index it prints is between 0 and 100. The driver's own
  checks are characterised exactly, blind spots included; trace files round-trip through the
  reader. A measurement returns the smallest of its samples, ends when the clocks move and hangs
  when they stand still. In \<^verbatim>\<open>mm.c\<close> freeing, placing, extending and reallocating in place
  refine the list of blocks, while \<^verbatim>\<open>mm_malloc\<close> never returns a block, so the program linked with it hangs
  on its first trace; \<^verbatim>\<open>mm2.c\<close> leaves its arena at the first request. The run the README proposes is
  the concrete instance of all three: \<^verbatim>\<open>mdriver -V -f short1-bal.rep\<close>.

  \<^bold>\<open>Bounds.\<close> The arena of \<^verbatim>\<open>mem_init\<close> has 20 MB and lies inside the address space
  (\<open>arena_ok\<close>); \<open>no_wrap s n\<close> says that a request of \<open>n\<close> bytes cannot pass the end of the address
  space, which the code itself does not check.

  \<^bold>\<open>Not modelled.\<close> Fixed text that is only printed (the progress messages, the table heads, the words of
  error messages) and the formatting of numbers: they do not influence any result. The debugging code of
  \<^verbatim>\<open>fcyc.c\<close> and the Alpha variant of \<^verbatim>\<open>clock.c\<close>, which are not compiled. The release of memory to libc (\<^verbatim>\<open>free_trace\<close>,
  \<^verbatim>\<open>mem_deinit\<close>, \<^verbatim>\<open>free\<close> of range nodes): nothing is read after it. The assembly of
  \<^verbatim>\<open>access_counter\<close>, the answers of \<^verbatim>\<open>gettimeofday\<close>, of libc's \<^verbatim>\<open>malloc\<close> and of the file system are
  parameters. The rounding of \<^verbatim>\<open>double\<close>: its finite values are real numbers.
\<close>

section \<open>The first-fit allocator\<close>

text \<open>
  C1: On a heap that spells the block list \<open>bs\<close>, \<^verbatim>\<open>mm_malloc\<close> of the first-fit package returns, and
  what it does is \<open>malloc_blocks\<close>: the first free block that is large enough is split; when there is
  none the heap grows by \<^verbatim>\<open>max(asize, CHUNKSIZE)\<close> bytes, joined with a free last block; when the
  arena has no room either the answer is NULL and the state is untouched. No byte of a payload
  allocated before changes.
\<close>

theorem mm_malloc_refines:
  assumes "ff_inv s bs" "0 < n" "no_wrap s n"
  shows "case malloc_blocks (asize_of n) (has_room s (asize_of n)) bs of
      None \<Rightarrow> ff_mm_malloc (w32 n) s = ok (0, s)
    | Some (off, bs') \<Rightarrow> \<exists>s'. ff_mm_malloc (w32 n) s = ok (w32 (start_of s + 16 + off), s')
        \<and> start_of s' = start_of s \<and> top_of s' = top_of s
        \<and> ff_inv s' bs' \<and> kept (ff_payloads s bs) (heap_bytes s) (heap_bytes s')"
  by (rule ff_mm_malloc_blocks [OF assms])

theorem mm_malloc_refines_witness:
  "\<exists>s'. ff_mm_malloc (w32 100) (heap_of [(4096, False)]) = ok (w32 4112, s')
     \<and> ff_inv s' [(112, True), (3984, False)]"
  using mm_malloc_refines [OF heap_of_one, of 100]
  by (simp add: no_wrap_def malloc_blocks_def asize_of_def place_blocks_def) blast

text \<open>
  C2: \<^verbatim>\<open>mm_free\<close> of an allocated block returns, frees it and joins it with the free neighbours it has:
  all four cases of \<^verbatim>\<open>coalesce\<close>. The result satisfies the heap invariant again, so no two
  neighbouring blocks are free, and the other payloads keep their bytes.
\<close>

theorem mm_free_refines:
  assumes "ff_inv s (xs @ (n, True) # ys)" "join_blocks xs n ys = (xs', n', ys')"
  shows "\<exists>s'. ff_mm_free (w32 (start_of s + 16 + extent xs)) s = ok s'
    \<and> start_of s' = start_of s \<and> top_of s' = top_of s
    \<and> ff_inv s' (xs' @ (n', False) # ys')
    \<and> kept (ff_payloads s' (xs' @ (n', False) # ys')) (heap_bytes s) (heap_bytes s')"
  by (rule ff_mm_free_blocks [OF assms])

theorem mm_free_refines_witness:
  "\<exists>s'. ff_mm_free (w32 4112) (heap_of [(48, True), (4048, False)]) = ok s' \<and> ff_inv s' [(4096, False)]"
  using mm_free_refines [of "heap_of [(48, True), (4048, False)]" "[]" 48 "[(4048, False)]" "[]" 4096 "[]"]
    heap_of_two by (auto simp: join_blocks_def join_next_def)

text \<open>
  C7: \<^verbatim>\<open>mm_realloc\<close> of a pointer the client holds: when \<^verbatim>\<open>mm_malloc\<close> refuses, the code exits with
  status 1; otherwise it returns a pointer the client did not hold, whose first \<open>min k n\<close> bytes
  are those of the old payload; the old pointer is free, and every other payload is unchanged.
\<close>

theorem mm_realloc_moves:
  assumes "ff_client s L" "L p = Some k" "0 < n" "no_wrap s n"
  shows "ff_mm_malloc (w32 n) s = ok (0, s) \<and> ff_mm_realloc (w32 p) (w32 n) s = fail (Exit 1)
    \<or> (\<exists>q s'. ff_mm_realloc (w32 p) (w32 n) s = ok (w32 q, s') \<and> same_arena s s'
        \<and> (L(p := None)) q = None \<and> ff_client s' ((L(p := None))(q \<mapsto> n))
        \<and> keeps_live (L(p := None)) (heap_bytes s) (heap_bytes s')
        \<and> (\<forall>i < min k n. heap_bytes s' (q + i) = heap_bytes s (p + i)))"
  by (rule ff_client_realloc_cases [OF assms])

theorem mm_realloc_moves_witness:
  "ff_mm_malloc (w32 100) (heap_of [(48, True), (4048, False)]) = ok (0, heap_of [(48, True), (4048, False)])
    \<or> (\<exists>q s'. ff_mm_realloc (w32 4112) (w32 100) (heap_of [(48, True), (4048, False)]) = ok (w32 q, s')
         \<and> (\<forall>i < 40. heap_bytes s' (q + i) = heap_bytes (heap_of [(48, True), (4048, False)]) (4112 + i)))"
  using mm_realloc_moves [OF client_two, of 4112 40 100] by (auto simp: no_wrap_def)

text \<open>
  C16: \<^verbatim>\<open>mm_init\<close> of the first-fit package, on an arena whose break was reset, returns 0 and leaves a
  well-formed heap: prologue, one free block of \<^verbatim>\<open>CHUNKSIZE\<close> bytes, epilogue.
\<close>

theorem mm_init_builds:
  assumes "arena_ok s" "mem_brk s = mem_start_brk s"
  shows "\<exists>s'. ff_mm_init s = ok (0, s') \<and> start_of s' = start_of s \<and> top_of s' = top_of s
    \<and> ff_inv s' [(4096, False)]"
  by (rule ff_mm_init_blocks [OF assms])

theorem mm_init_builds_witness:
  "\<exists>s'. ff_mm_init empty_arena = ok (0, s') \<and> start_of s' = 4096 \<and> ff_inv s' [(4096, False)]"
  using mm_init_builds [of empty_arena] by auto

text \<open>
  C17: The heap checker on a well-formed heap: it returns, it prints none of its complaints, and with
  \<^verbatim>\<open>verbose\<close> it lists the prologue, every block of the heap in order and the epilogue.
\<close>

theorem checkheap_silent:
  assumes "ff_inv s bs"
  shows "ff_mm_checkheap vb s = ok
    (if vb then Heap_at (w32 (start_of s + 8)) # block_lines (start_of s + 4) ((8, True) # bs)
       @ [EOL (w32 (start_of s + 16 + extent bs))] else [])"
  by (rule ff_checkheap_blocks [OF assms])

theorem checkheap_silent_witness:
  "ff_mm_checkheap False (heap_of [(48, True), (4048, False)]) = ok []"
  using checkheap_silent [OF heap_of_two, of False] by simp

text \<open>
  C15: \<^verbatim>\<open>mm_malloc\<close> of a request that fits, followed by \<^verbatim>\<open>mm_free\<close> of its result, restores the block list: the
  block and the remainder split off it are joined again. Live payloads keep their bytes.
\<close>

theorem malloc_then_free:
  assumes "ff_inv s bs" "0 < n" "no_wrap s n" "\<exists>(k, f) \<in> set bs. \<not> f \<and> asize_of n \<le> k"
  shows "\<exists>p s1 s2. ff_mm_malloc (w32 n) s = ok (p, s1) \<and> p \<noteq> 0 \<and> ff_mm_free p s1 = ok s2
    \<and> ff_inv s2 bs \<and> kept (ff_payloads s bs) (heap_bytes s) (heap_bytes s2)"
  by (rule ff_malloc_free [OF assms])

theorem malloc_then_free_witness:
  "\<exists>p s1 s2. ff_mm_malloc (w32 100) (heap_of [(48, True), (4048, False)]) = ok (p, s1) \<and> ff_mm_free p s1 = ok s2
     \<and> ff_inv s2 [(48, True), (4048, False)]"
  using malloc_then_free [OF heap_of_two, of 100] by (fastforce simp: no_wrap_def asize_of_def)

text \<open>
  C5: Every state that a client of the first-fit package can reach (\<open>session\<close>: any sequence of calls with
  pointers it holds, refused requests included, and any writes into its own payloads): the next
  \<^verbatim>\<open>mm_malloc\<close> returns, whether payloads are live or not; the live payloads are aligned, inside the heap and
  pairwise disjoint, \<^verbatim>\<open>mm_free\<close> of any of them returns, and \<^verbatim>\<open>mm_realloc\<close> of any returns or exits
  with status 1.
\<close>

theorem client_sessions_safe:
  assumes "session ff_package s L"
  shows "(\<forall>j. 0 < j \<and> no_wrap s j \<longrightarrow> (\<exists>r s'. ff_mm_malloc (w32 j) s = ok (r, s')))
    \<and> (\<forall>p n. L p = Some n \<longrightarrow> 8 dvd p \<and> start_of s \<le> p \<and> p + n < brk_of s
        \<and> (\<forall>q k. L q = Some k \<and> p \<noteq> q \<longrightarrow> p + n \<le> q \<or> q + k \<le> p)
        \<and> (\<exists>s'. ff_mm_free (w32 p) s = ok s')
        \<and> (\<forall>j. 0 < j \<and> no_wrap s j \<longrightarrow> ff_mm_realloc (w32 p) (w32 j) s = fail (Exit 1)
            \<or> (\<exists>q s'. ff_mm_realloc (w32 p) (w32 j) s = ok (q, s'))))"
  using ff.session_safe [OF assms] by (simp add: ff_package_def)

theorem client_sessions_safe_witness:
  "(\<exists>s p. session ff_package s [p \<mapsto> 100] \<and> 8 dvd p \<and> p + 100 < brk_of s)
    \<and> (\<exists>s r s'. session ff_package s Map.empty \<and> ff_mm_malloc (w32 8) s = ok (r, s'))"
proof -
  obtain s p where s: "session ff_package s [p \<mapsto> 100]" using sample_session by blast
  obtain e where e: "session ff_package e Map.empty" "no_wrap e 8" using sample_start by blast
  have "8 dvd p \<and> p + 100 < brk_of s" using client_sessions_safe [OF s] by simp
  moreover have "\<exists>r e'. ff_mm_malloc (w32 8) e = ok (r, e')"
    using client_sessions_safe [OF e(1), THEN conjunct1, rule_format, of 8] e(2) by simp
  ultimately show ?thesis using s e(1) by blast
qed

text \<open>
  C18: Rounding wraps around for the 15 largest requests: \<^verbatim>\<open>mm_malloc\<close> does not refuse them but returns the
  first free block of the heap, whatever its size.
\<close>

theorem overflowing_request_served:
  assumes "ff_inv s (xs @ (k, False) # ys)" "\<forall>b \<in> set xs. snd b" "2 ^ 32 - 15 \<le> n" "n < 2 ^ 32"
  shows "\<exists>s'. ff_mm_malloc (w32 n) s = ok (w32 (start_of s + 16 + extent xs), s')"
  by (rule ff_malloc_overflow [OF assms])

theorem overflowing_request_served_witness:
  "\<exists>s'. ff_mm_malloc (w32 4294967295) (heap_of [(48, True), (4048, False)]) = ok (w32 4160, s')"
  using overflowing_request_served [of "heap_of [(48, True), (4048, False)]" "[(48, True)]" 4048 "[]" 4294967295]
    heap_of_two by simp

text \<open>
  C19: The special arguments of \<^verbatim>\<open>mm_realloc\<close>: with size 0 the program exits, whatever the pointer; with a NULL
  pointer the code reads the header of NULL once it has allocated the new block.
\<close>

theorem realloc_special_arguments:
  assumes "ff_inv s bs" "0 < n" "no_wrap s n"
  shows "ff_mm_realloc ptr 0 s = fail (Exit 1)
    \<and> ff_mm_realloc 0 (w32 n) s
      = fail (if malloc_blocks (asize_of n) (has_room s (asize_of n)) bs = None then Exit 1 else Segv (- 4))"
  using ff_realloc_zero ff_realloc_null [OF assms] by simp

theorem realloc_special_arguments_witness:
  "ff_mm_realloc (w32 4112) 0 (heap_of [(48, True), (4048, False)]) = fail (Exit 1)
    \<and> ff_mm_realloc 0 (w32 100) (heap_of [(48, True), (4048, False)]) = fail (Segv (- 4))"
  using realloc_special_arguments [OF heap_of_two, of 100 "w32 4112"]
  by (simp add: no_wrap_def malloc_blocks_def asize_of_def)

text \<open>
  C20: \<^verbatim>\<open>mm_init\<close> without room for its 16 bytes: the answer \<open>-1\<close> of \<^verbatim>\<open>mem_sbrk\<close> passes the comparison with
  NULL, and the first store faults at address \<open>-1\<close>.
\<close>

theorem init_without_room:
  assumes "top_of s < brk_of s + 16" "brk_of s + 16 < 2 ^ 32"
  shows "ff_mm_init s = fail (Segv (- 1))"
  by (rule ff_mm_init_no_room [OF assms])

theorem init_without_room_witness: "ff_mm_init (empty_arena\<lparr>mem_brk := 20975608\<rparr>) = fail (Segv (- 1))"
  by (rule init_without_room) simp_all

section \<open>The driver on the first-fit allocator\<close>

text \<open>
  C4: The driver's correctness check, linked against the first-fit package, over any well-formed trace:
  the run ends, no access leaves the heap, and the only outcomes are: all requests pass and
  nothing is reported; an allocation is refused for lack of memory and reported; or the program
  exits with status 1 (no memory for the driver's range node, or inside \<^verbatim>\<open>mm_realloc\<close>). The
  checks for alignment, heap extent, overlap and lost data never fire.
\<close>

theorem eval_mm_valid_firstfit:
  assumes "arena_ok s" "B < 2 ^ 31" "no_wrap s B" "wf_ops ids B {} (ops tr)"
    "length (blocks tr) = ids" "length (block_sizes tr) = ids"
  shows "valid_outcome t d (eval_mm_valid ff_package oom tr t rs d s)"
  by (rule ff.eval_mm_valid_outcome [OF assms])

theorem eval_mm_valid_firstfit_witness:
  "valid_outcome 0 \<lparr>errors = 0, printed = []\<rparr>
     (eval_mm_valid ff_package (\<lambda>i. i = 3) sample_trace 0 [] \<lparr>errors = 0, printed = []\<rparr> empty_arena)"
  by (rule eval_mm_valid_firstfit [OF _ _ sample_room sample_trace_wf(1)])
    (simp_all add: sample_trace_wf)

text \<open>
  C6: When the requests fit in the arena (4112 bytes for \<^verbatim>\<open>mm_init\<close>, and at most \<^verbatim>\<open>max(4096, size + 16)\<close>
  for each request) and libc serves the driver, the check of the first-fit package returns 1
  with the error report unchanged.
\<close>

theorem eval_mm_valid_firstfit_passes:
  assumes "arena_ok s" "B < 2 ^ 31" "no_wrap s B" "wf_ops ids B {} (ops tr)"
    "length (blocks tr) = ids" "length (block_sizes tr) = ids"
    and "start_of s + 4112 + growth ff_grow (ops tr) \<le> top_of s"
  shows "\<exists>v. eval_mm_valid ff_package (\<lambda>_. False) tr t rs d s = ok (1, v) \<and> rep v = d"
  using ff_room.eval_mm_valid_room [OF assms] by blast

theorem eval_mm_valid_firstfit_passes_witness:
  "\<exists>v. eval_mm_valid ff_package (\<lambda>_. False) sample_trace 0 [] \<lparr>errors = 0, printed = []\<rparr> empty_arena = ok (1, v)
     \<and> rep v = \<lparr>errors = 0, printed = []\<rparr>"
  by (rule eval_mm_valid_firstfit_passes [OF _ _ sample_room sample_trace_wf(1)])
    (simp_all add: sample_trace_wf)

text \<open>
  C11: The utilisation run over a trace that fits returns, and the high water mark of requested bytes
  is between 0 and the heap size it is divided by: the utilisation is at most 1.
\<close>

theorem eval_mm_util_firstfit:
  assumes "arena_ok s" "B < 2 ^ 31" "no_wrap s B" "wf_ops ids B {} (ops tr)"
    "length (blocks tr) = ids" "length (block_sizes tr) = ids"
    and "start_of s + 4112 + growth ff_grow (ops tr) \<le> top_of s"
  shows "\<exists>hwm heap u. eval_mm_util ff_package tr s = ok (hwm, heap, u) \<and> 0 \<le> hwm \<and> hwm \<le> int (unat heap)"
  using ff_room.eval_mm_util_room [OF assms] by blast

theorem eval_mm_util_firstfit_witness:
  "\<exists>hwm heap u. eval_mm_util ff_package sample_trace empty_arena = ok (hwm, heap, u) \<and> 0 \<le> hwm \<and> hwm \<le> int (unat heap)"
  by (rule eval_mm_util_firstfit [OF _ _ sample_room sample_trace_wf(1)]) (simp_all add: sample_trace_wf)

text \<open>
  C21: The speed run over a trace that fits reaches its end without a fault and without an error exit.
\<close>

theorem eval_mm_speed_firstfit:
  assumes "arena_ok s" "B < 2 ^ 31" "no_wrap s B" "wf_ops ids B {} (ops tr)" "length (blocks tr) = ids"
    and "start_of s + 4112 + growth ff_grow (ops tr) \<le> top_of s"
  shows "\<exists>bl s' L. eval_mm_speed ff_package tr s = ok (bl, s') \<and> ff_client s' L"
  using ff_room.eval_mm_speed_room [OF assms] by blast

theorem eval_mm_speed_firstfit_witness:
  "\<exists>bl s' L. eval_mm_speed ff_package sample_trace empty_arena = ok (bl, s') \<and> ff_client s' L"
  by (rule eval_mm_speed_firstfit [OF _ _ sample_room sample_trace_wf(1)]) (simp_all add: sample_trace_wf)

text \<open>
  C3: The main program on the first-fit package. When the command line does not ask for the libc run,
  the team check passes, libc serves the driver and every file reads as a trace that fits
  (\<open>env_ok\<close>), the program ends, reports no error, counts every trace as correct, the performance
  index, when it is a number, lies between 0 and 100, and the table of \<^verbatim>\<open>-v\<close> has a line with results
  for every trace and one with the totals. The witness is the run of the README on \<^verbatim>\<open>short1-bal.rep\<close>.
\<close>

theorem mdriver_main_firstfit:
  assumes "env_ok 4112 ff_grow B e o1 files"
  shows "\<exists>r. mdriver_main lc ff_package e h s = ok r \<and> o_errors r = 0 \<and> o_correct r = int (length files)
    \<and> at_most 100 (o_index r)
    \<and> (verbose o1 \<noteq> 0 \<longrightarrow> (\<exists>rows. o_mm r = Some rows \<and> all_correct (length files) rows))"
  by (rule ff_room.mdriver_main_ok [OF assms])

theorem mdriver_main_firstfit_witness:
  "\<exists>r rows. mdriver_main sample_libc ff_package (readme_env ff_team) () empty_arena = ok r \<and> o_errors r = 0
     \<and> o_correct r = 1 \<and> at_most 100 (o_index r) \<and> o_mm r = Some rows \<and> all_correct 1 rows"
  using mdriver_main_firstfit [OF readme_ok, of sample_libc "()" empty_arena] by (auto simp: readme_options_def)

section \<open>The driver's checks\<close>

text \<open>
  C10: The driver's check on an arbitrary package, of which nothing is assumed: when \<^verbatim>\<open>eval_mm_valid\<close> returns,
  its verdict is 1 and the report is unchanged, or 0 with exactly one more error; and the
  recorded payloads are aligned, with neither end of a newer one inside an older one.
\<close>

theorem check_verdict_sound:
  assumes "eval_mm_valid pkg oom tr t rs d s = ok (r, v)"
  shows "(r = 1 \<and> rep v = d \<or> r = 0 \<and> errors (rep v) = errors d + 1)
    \<and> sorted_wrt apart (ranges v) \<and> (\<forall>p \<in> set (ranges v). IS_ALIGNED (range_lo p))"
  using eval_mm_valid_verdict [OF assms] by (simp add: recorded_ok_def)

theorem check_verdict_sound_witness:
  "\<exists>v. eval_mm_valid ff_package (\<lambda>_. False) sample_trace 0 [] \<lparr>errors = 0, printed = []\<rparr> empty_arena = ok (1, v)
     \<and> sorted_wrt apart (ranges v)"
proof -
  obtain v where "eval_mm_valid ff_package (\<lambda>_. False) sample_trace 0 [] \<lparr>errors = 0, printed = []\<rparr> empty_arena = ok (1, v)"
    using sample_valid by blast
  with check_verdict_sound [OF this] show ?thesis by blast
qed

text \<open>
  C22: The data check after \<^verbatim>\<open>mm_realloc\<close> compares a signed \<^verbatim>\<open>char\<close> with \<^verbatim>\<open>index & 0xFF\<close>. Take a trace that is
  well formed up to a \<open>REALLOC\<close>, would stay so if the request were a \<open>FREE\<close> and an \<open>ALLOC\<close>, and fits the arena, where
  the low byte of the index is at least 128. The requests before it pass; \<^verbatim>\<open>mm_realloc\<close> serves it and
  carries every byte over; and \<^verbatim>\<open>eval_mm_valid\<close> returns 0 with a report that the data was lost.
\<close>

theorem data_check_signed_char:
  assumes "arena_ok s" "B < 2 ^ 31" "no_wrap s B" "length (blocks tr) = ids" "length (block_sizes tr) = ids"
    and "ops tr = xs @ op # ys" "op_type op = REALLOC" "128 \<le> op_index op mod 256"
    and "wf_ops ids B {} (xs @ [op\<lparr>op_type := FREE\<rparr>, op\<lparr>op_type := ALLOC\<rparr>])"
    and "start_of s + 4112 + growth ff_grow (xs @ [op]) \<le> top_of s"
    and "i = nat (op_index op)" "n = nat (op_size op)"
  shows "\<exists>w v q. eval_mm_valid ff_package (\<lambda>_. False) (tr\<lparr>ops := xs\<rparr>) t rs d s = ok (1, w) \<and> rep w = d
    \<and> ff_mm_realloc (r_blocks w ! i) (w32 n) (machine w) = ok (q, machine v)
    \<and> (\<forall>x < min (unat (r_sizes w ! i)) n. heap_bytes (machine v) (unat q + x) = heap_bytes (machine w) (unat (r_blocks w ! i) + x))
    \<and> eval_mm_valid ff_package (\<lambda>_. False) tr t rs d s = ok (0, v) \<and> rep v = malloc_error t (int (length xs)) Data_lost d"
  using ff_room.eval_mm_valid_signed [OF assms] by (simp add: ff_package_def)

theorem data_check_signed_char_witness:
  "\<exists>v. eval_mm_valid ff_package (\<lambda>_. False) signed_trace 0 [] \<lparr>errors = 0, printed = []\<rparr> empty_arena = ok (0, v)
    \<and> rep v = malloc_error 0 1 Data_lost \<lparr>errors = 0, printed = []\<rparr>"
proof -
  have a: "(40 :: nat) < 2 ^ 31" "no_wrap empty_arena 40" by (simp_all add: no_wrap_def)
  have r: "start_of empty_arena + 4112 + growth ff_grow ([\<lparr>op_type = ALLOC, op_index = 200, op_size = 16\<rparr>] @
      [\<lparr>op_type = REALLOC, op_index = 200, op_size = 40\<rparr>]) \<le> top_of empty_arena"
    by (simp only: signed_trace_wf(5)) simp
  have b: "op_type \<lparr>op_type = REALLOC, op_index = 200, op_size = 40\<rparr> = REALLOC"
    "128 \<le> op_index \<lparr>op_type = REALLOC, op_index = 200, op_size = 40\<rparr> mod 256" by simp_all
  from data_check_signed_char [OF empty_arena_ok(1) a signed_trace_wf(1-3) b signed_trace_wf(4) r refl refl, of 0 "[]"]
  show ?thesis by fastforce
qed

text \<open>
  C23: The end-point test of \<^verbatim>\<open>add_range\<close> finds no conflict exactly when every recorded range is disjoint from
  the new one or lies strictly inside it: an overlap of the second kind goes unnoticed.
\<close>

theorem add_range_accepts:
  assumes "lo \<le> hi" "\<forall>p \<in> set ps. range_lo p \<le> range_hi p"
  shows "find_overlap lo hi ps = None \<longleftrightarrow>
    (\<forall>p \<in> set ps. range_hi p < lo \<or> hi < range_lo p \<or> lo < range_lo p \<and> range_hi p < hi)"
  using find_overlap_None [OF assms] by (auto simp: disjoint_ranges_def encloses_def)

theorem add_range_accepts_witness:
  "find_overlap 0x1000 0x10FF [\<lparr>range_lo = 0x1010, range_hi = 0x1017\<rparr>] = None"
  using add_range_accepts [of "0x1000" "0x10FF" "[\<lparr>range_lo = 0x1010, range_hi = 0x1017\<rparr>]"] by simp

text \<open>
  C24: The table of \<^verbatim>\<open>printresults\<close> and the performance index of \<^verbatim>\<open>main\<close> are computed by two separate loops.
  When all traces are valid they agree: the table has a line for every trace, and the index is what
  its line of totals (average utilisation in percent, thousands of requests per second) gives, in the
  arithmetic of C, where a quotient by zero is infinite or not a number.
\<close>

theorem printed_summary_agrees:
  assumes "\<forall>st \<in> set sts. st_valid st \<noteq> 0"
  shows "\<exists>u nops secs k. printresults 0 sts = map row_of (enumerate 0 sts) @ [Total_row (u * Finite 100) nops secs k]
    \<and> perfindex 0 sts = (Finite UTIL_WEIGHT * u + throughput_score (k * Finite 1000)) * Finite 100"
  by (rule perfindex_of_totals [OF assms])

theorem printed_summary_agrees_witness:
  "\<exists>u nops secs k. printresults 0 [\<lparr>st_ops = 3000000, st_valid = 1, st_secs = 1, st_util = 1 / 2\<rparr>]
      = [Correct_row 0 50 3000000 1 (Finite 3000), Total_row (u * Finite 100) nops secs k]
    \<and> Finite 70 = (Finite UTIL_WEIGHT * u + throughput_score (k * Finite 1000)) * Finite 100"
proof -
  let ?sts = "[\<lparr>st_ops = 3000000, st_valid = 1, st_secs = 1, st_util = 1 / 2\<rparr>]"
  have p: "perfindex 0 ?sts = Finite 70"
    by (simp add: perfindex_def util_score_def avg_mm_throughput_def throughput_score_def UTIL_WEIGHT_def AVG_LIBC_THRUPUT_def)
  have r: "map row_of (enumerate 0 ?sts) = [Correct_row 0 50 3000000 1 (Finite 3000)]"
    by (simp add: row_of_def)
  have "\<exists>u nops secs k. printresults 0 ?sts = map row_of (enumerate 0 ?sts) @ [Total_row (u * Finite 100) nops secs k]
      \<and> perfindex 0 ?sts = (Finite UTIL_WEIGHT * u + throughput_score (k * Finite 1000)) * Finite 100"
    by (rule printed_summary_agrees) simp
  then show ?thesis unfolding p r append_Cons append_Nil .
qed

text \<open>
  C25: The command line: when \<^verbatim>\<open>main\<close> gets past its options, each of them is one that the list of
  \<^verbatim>\<open>usage\<close> explains and none is \<^verbatim>\<open>-h\<close>, and the variables are what \<open>options_of\<close> reads off the
  options without any state: \<^verbatim>\<open>-f\<close> wins over \<^verbatim>\<open>-t\<close> in either order, the last argument counts.
\<close>

theorem command_line_accepted:
  assumes "parse_opts refused (getopt [] argv) default_options = ok q"
  shows "q = options_of (getopt [] argv)
    \<and> (\<forall>(c, x) \<in> set (getopt [] argv). c \<in> set (explained usage_text) \<and> c \<noteq> CHR ''h'')"
  using command_line_meaning [OF assms] by blast

theorem command_line_accepted_witness:
  "\<exists>q. parse_opts False (getopt [] [''-vt'', ''a'', ''-fx'', ''y'', ''-gt'', ''b/'']) default_options = ok q
     \<and> q = options_of [(CHR ''v'', []), (CHR ''t'', ''a''), (CHR ''f'', ''x''), (CHR ''g'', []), (CHR ''t'', ''b/'')]
     \<and> tracefiles q = Some [''x''] \<and> tracedir q = ''./''"
proof -
  let ?argv = "[''-vt'', ''a'', ''-fx'', ''y'', ''-gt'', ''b/'']"
  have g: "getopt [] ?argv = [(CHR ''v'', []), (CHR ''t'', ''a''), (CHR ''f'', ''x''), (CHR ''g'', []), (CHR ''t'', ''b/'')]"
    by (simp add: optstring_def)
  have "\<exists>q. parse_opts False (getopt [] ?argv) default_options = ok q"
    unfolding g by (simp add: parse_opt_def default_options_def MAXLINE_def)
  then obtain q where q: "parse_opts False (getopt [] ?argv) default_options = ok q" ..
  with command_line_accepted [OF q] show ?thesis
    unfolding g by (simp add: options_of_def args_of_def)
qed

section \<open>Trace files\<close>

text \<open>
  C12: \<^verbatim>\<open>read_trace\<close> reads back what \<open>show_trace\<close> writes: the header fields and every request in
  order, the size of an \<^verbatim>\<open>f\<close> line excepted, which the code never sets. Its two assertions hold.
\<close>

theorem read_trace_roundtrip:
  assumes "trace_ok tr" "length (dir @ filename) < MAXLINE" "\<And>n. \<not> refuses n"
  shows "read_trace refuses g dir filename (Some (show_trace tr))
    = ok (tr\<lparr>ops := stored_from g 0 (ops tr), blocks := map (g_blocks g) [0..<nat (num_ids tr)],
             block_sizes := map (g_sizes g) [0..<nat (num_ids tr)]\<rparr>)"
  by (rule read_trace_show [OF assms])

theorem read_trace_roundtrip_witness:
  "read_trace (\<lambda>_. False) sample_garbage ''./'' ''sample.rep'' (Some (show_trace sample_trace)) = ok sample_trace"
  by (subst read_trace_roundtrip [OF sample_trace_ok]) (simp_all add: MAXLINE_def sample_stored)

text \<open>
  C13: What holds of every trace that \<^verbatim>\<open>read_trace\<close> returns: as many requests as the header announces;
  both arrays have \<^verbatim>\<open>num_ids\<close> elements modulo \<open>2 ^ 30\<close>, as \<^verbatim>\<open>malloc\<close>'s argument wraps around; the index of every
  \<^verbatim>\<open>a\<close> and \<^verbatim>\<open>r\<close> request is, as an unsigned word, at most \<^verbatim>\<open>num_ids - 1\<close>. When the header announces
  between 1 and \<open>2 ^ 30 - 1\<close> ids, those indices lie inside the arrays; for 0 they do not, as lemma
  \<open>zero_ids_accepted\<close> shows. The second hypothesis is that the uninitialised \<^verbatim>\<open>num_ops\<close>
  holds some C \<^verbatim>\<open>int\<close>. Indices of \<^verbatim>\<open>f\<close> lines may be anything, as lemma \<open>free_index_unchecked\<close> shows.
\<close>

theorem read_trace_types:
  assumes "read_trace refuses g dir filename file = ok tr" "int_range (num_ops (g_trace g))"
  shows "num_ops tr = int (length (ops tr))
    \<and> int (length (blocks tr)) = num_ids tr mod 2 ^ 30 \<and> length (block_sizes tr) = length (blocks tr)
    \<and> (\<forall>op \<in> set (ops tr). op_type op \<noteq> FREE \<longrightarrow> op_index op mod 2 ^ 32 \<le> (num_ids tr - 1) mod 2 ^ 32)
    \<and> (0 < num_ids tr \<and> num_ids tr < 2 ^ 30 \<longrightarrow> int (length (blocks tr)) = num_ids tr
        \<and> (\<forall>op \<in> set (ops tr). op_type op \<noteq> FREE \<longrightarrow> 0 \<le> op_index op \<and> op_index op < num_ids tr))"
  by (intro conjI read_trace_typed [OF assms])

theorem read_trace_types_witness:
  "num_ops sample_trace = int (length (ops sample_trace)) \<and> int (length (blocks sample_trace)) = num_ids sample_trace
    \<and> op_index (hd (ops sample_trace)) < num_ids sample_trace"
proof -
  have "int_range (num_ops (g_trace sample_garbage))" by (simp add: sample_garbage_def sample_trace_def int_range_def)
  moreover have "hd (ops sample_trace) \<in> set (ops sample_trace)" "op_type (hd (ops sample_trace)) \<noteq> FREE"
    "0 < num_ids sample_trace" "num_ids sample_trace < 2 ^ 30"
    by (simp_all add: sample_trace_def sample_ops_def)
  ultimately show ?thesis using read_trace_types [OF sample_read] by blast
qed

text \<open>
  C26: A file whose header announces fewer requests than follow: \<^verbatim>\<open>read_trace\<close> writes outside the array
  it allocated, long before the assertion \<^verbatim>\<open>trace->num_ops == op_index\<close> could stop it.
\<close>

theorem read_trace_short_header:
  assumes "header_ok tr" "num_ops tr < int (length (ops tr))" "length (dir @ filename) < MAXLINE" "\<And>n. \<not> refuses n"
  shows "read_trace refuses g dir filename (Some (show_trace tr)) = fail OutOfBounds"
  by (rule read_trace_short [OF assms])

theorem read_trace_short_header_witness:
  "read_trace (\<lambda>_. False) sample_garbage ''./'' ''s'' (Some (show_trace (sample_trace\<lparr>num_ops := 2\<rparr>))) = fail OutOfBounds"
  by (rule read_trace_short_header)
    (simp_all add: header_ok_def sample_trace_def sample_ops_def int_ok_def op_ok_def MAXLINE_def)

text \<open>
  C14: The trace files of the repository, as they are in it: six of them are read, and the first-fit package
  passes the check on each, whatever the uninitialised arrays held. \<^verbatim>\<open>coalesceCase3.rep\<close> and
  \<^verbatim>\<open>coalesceCase4.rep\<close>, which \<^verbatim>\<open>traces/README\<close> describes as tests of two cases of coalescing, never get
  that far: \<^verbatim>\<open>read_trace\<close> writes outside the array of requests.
\<close>

theorem shipped_traces_run:
  assumes "arena_ok s" "no_wrap s 4072" "length dir < 1000"
  shows "(\<forall>(name, txt) \<in> set complete_files. \<exists>tr v. read_trace (\<lambda>_. False) g dir name (Some txt) = ok tr
      \<and> eval_mm_valid ff_package (\<lambda>_. False) tr t rs d s = ok (1, v) \<and> rep v = d)
    \<and> (\<forall>(name, txt) \<in> set overrun_list. read_trace (\<lambda>_. False) g dir name (Some txt) = fail OutOfBounds)"
  using complete_files_run [OF _ assms(3,1,2)] overrun_list_read [OF _ assms(3)] by blast

theorem shipped_traces_run_witness:
  "(\<exists>tr v. read_trace (\<lambda>_. False) sample_garbage ''./'' ''short2-bal.rep'' (Some short2_bal) = ok tr
      \<and> eval_mm_valid ff_package (\<lambda>_. False) tr 0 [] \<lparr>errors = 0, printed = []\<rparr> empty_arena = ok (1, v) \<and> errors (rep v) = 0)
    \<and> read_trace (\<lambda>_. False) sample_garbage ''./'' ''traces/coalesceCase4.rep'' (Some coalesceCase4_rep) = fail OutOfBounds"
proof -
  have f: "(''short2-bal.rep'', short2_bal) \<in> set complete_files" "(''traces/coalesceCase4.rep'', coalesceCase4_rep) \<in> set overrun_list"
    by (simp_all add: complete_files_def overrun_list_def)
  have "no_wrap empty_arena 4072" by (simp add: no_wrap_def)
  from shipped_traces_run [OF empty_arena_ok(1) this, of "''./''" sample_garbage 0 "[]" "\<lparr>errors = 0, printed = []\<rparr>"] f
  show ?thesis by fastforce
qed

section \<open>The simulated memory\<close>

text \<open>
  C27: \<^verbatim>\<open>mem_sbrk\<close>: an increment that fits moves the break and returns the old one; one that leaves the
  arena (without wrapping around), and every one that is negative as an \<^verbatim>\<open>int\<close>, returns -1 and
  changes nothing.
\<close>

theorem sbrk_moves_break:
  assumes "2 ^ 31 \<le> unat n \<or> brk_of s + unat n < 2 ^ 32"
  shows "mem_sbrk n s =
    (if unat n < 2 ^ 31 \<and> brk_of s + unat n \<le> top_of s
     then (mem_brk s, s\<lparr>mem_brk := mem_brk s + n\<rparr>) else (-1, s))"
  by (rule mem_sbrk_cases [OF assms])

theorem sbrk_moves_break_witness:
  "mem_sbrk 16 empty_arena = (4096, empty_arena\<lparr>mem_brk := 4112\<rparr>)
    \<and> mem_sbrk (- 8) empty_arena = (-1, empty_arena)
    \<and> mem_sbrk 0x1400001 empty_arena = (-1, empty_arena)"
  using sbrk_moves_break [of 16 empty_arena] sbrk_moves_break [of "- 8" empty_arena]
    sbrk_moves_break [of "0x1400001" empty_arena] by (simp add: empty_arena_def)

text \<open>
  C28: The guard of \<^verbatim>\<open>mem_sbrk\<close> adds at 32 bits: in a well-formed arena a non-negative increment whose
  sum with the break reaches \<open>2 ^ 32\<close> passes the guard, and the break ends up below the start of
  the arena.
\<close>

theorem sbrk_wraps:
  assumes "arena_ok s" "unat n < 2 ^ 31" "2 ^ 32 \<le> brk_of s + unat n"
  shows "mem_sbrk n s = (mem_brk s, s\<lparr>mem_brk := mem_brk s + n\<rparr>)
    \<and> unat (mem_brk s + n) = brk_of s + unat n - 2 ^ 32 \<and> unat (mem_brk s + n) < start_of s"
  by (rule mem_sbrk_wrap [OF assms])

theorem sbrk_wraps_witness:
  "\<exists>s :: ff. start_of s = 0xC0000000 \<and> mem_sbrk 0x7FFFFFFF s = (0xC0000000, s\<lparr>mem_brk := 0x3FFFFFFF\<rparr>)
    \<and> unat (0x3FFFFFFF :: u32) < start_of s"
proof -
  let ?s = "empty_arena\<lparr>mem_start_brk := 0xC0000000, mem_brk := 0xC0000000, mem_max_addr := 0xC1400000\<rparr>"
  have "arena_ok ?s" by (simp add: arena_ok_def)
  from sbrk_wraps [OF this, of "0x7FFFFFFF"]
  have "mem_sbrk 0x7FFFFFFF ?s = (0xC0000000, ?s\<lparr>mem_brk := 0x3FFFFFFF\<rparr>)" "unat (0x3FFFFFFF :: u32) < start_of ?s"
    by simp_all
  then show ?thesis by (intro exI [of _ ?s]) simp
qed

section \<open>Timing\<close>

text \<open>
  C29: When the timed function always returns and nothing stands in the way of a measurement
  (\<open>measurable\<close>: the cache can be cleared, the counter is calibrated, as far as those are asked for),
  \<^verbatim>\<open>fcyc\<close> calls it once per measurement, ends after at least one and at most \<open>max 1 maxsamples\<close> of
  them for one of the two reasons in \<open>settled\<close>, and returns the smallest. A measurement is the
  difference of two answers of the cycle counter, less the cycles of the clock ticks in between
  when compensation is on (\<open>reading\<close>).
\<close>

theorem fcyc_returns_minimum:
  assumes "\<And>u. J u \<Longrightarrow> \<exists>u'. f u = ok u' \<and> J u'" "J u" "measurable cmalloc s" "0 < kbest (sam s)"
  shows "\<exists>n s' u'. fcyc cmalloc False f s u = ok (Min (reading s ` {..<n}), s', u')
    \<and> repeat_run n f u = ok u' \<and> 0 < n \<and> int n \<le> max 1 (maxsamples (sam s))
    \<and> settled (sam s) (map (reading s) [0..<n])"
  by (rule fcyc_ok [where J = J, OF assms])

theorem fcyc_returns_minimum_witness:
  "\<exists>n s' u'. fcyc (\<lambda>_. 4096) False (\<lambda>u. ok (Suc u)) sample_measuring (0 :: nat)
      = ok (Min (reading sample_measuring ` {..<n}), s', u') \<and> 0 < n \<and> n \<le> 20"
proof -
  have k: "0 < kbest (sam sample_measuring)" "maxsamples (sam sample_measuring) = 20"
    by (simp_all add: sample_measuring_def sample_timing_def)
  show ?thesis
    using fcyc_returns_minimum [of "\<lambda>_. True" "\<lambda>u. ok (Suc u)" 0 "\<lambda>_. 4096" sample_measuring] sample_measurable k by auto
qed

text \<open>
  C30: \<^verbatim>\<open>callibrate\<close> on a steady machine: when each answer of the cycle counter is at least \<^verbatim>\<open>THRESHOLD\<close>
  cycles after the one before and the user time moves on each time, the loop ends after \<^verbatim>\<open>NEVENT\<close>
  events, and \<^verbatim>\<open>cyc_per_tick\<close> becomes the smallest ratio of cycles to ticks above \<^verbatim>\<open>RECORDTHRESH\<close>.
\<close>

theorem callibrate_finds_minimum:
  assumes "\<And>i. T i = counter_diff (tsc s !! 0) (tsc s !! Suc i)"
    and "\<And>i. i < 100 \<Longrightarrow> THRESHOLD \<le> T (Suc i) - T i" "\<And>i. i < 100 \<Longrightarrow> utimes s !! i < utimes s !! Suc i"
    and "cyc_per_tick s = 0"
  shows "\<exists>s'. callibrate s = ok s'
    \<and> cyc_per_tick s' = (let best = {c \<in> (\<lambda>i. (T (Suc i) - T i) / of_int (utimes s !! Suc i - utimes s !! i)) ` {..<100}. RECORDTHRESH < c}
        in if best = {} then 0 else Min best)"
  by (rule callibrate_minimum [OF assms])

theorem callibrate_finds_minimum_witness:
  "\<exists>s'. callibrate sample_timing = ok s' \<and> cyc_per_tick s' = 5000"
proof -
  let ?T = "\<lambda>i. counter_diff (tsc sample_timing !! 0) (tsc sample_timing !! Suc i)"
  have T: "?T i = 5000 * real (Suc i)" if "i < 1000" for i using sample_reading [of 0 "Suc i"] that by simp
  have u: "utimes sample_timing !! i = int i" for i by (simp add: sample_timing_def)
  have cpt: "cyc_per_tick sample_timing = 0" by (simp add: sample_timing_def)
  have jump: "?T (Suc i) - ?T i = 5000" if "i < 100" for i using T [of i] T [of "Suc i"] that by simp
  let ?c = "\<lambda>i. (?T (Suc i) - ?T i) / of_int (utimes sample_timing !! Suc i - utimes sample_timing !! i)"
  have "?c ` {..<100} = (\<lambda>_. 5000) ` {..<100::nat}"
    by (rule image_cong [OF refl]) (use jump u in \<open>simp del: snth.simps\<close>)
  also have "\<dots> = {5000 :: real}" by (rule image_constant [of 0]) simp
  finally have best: "{c \<in> ?c ` {..<100}. RECORDTHRESH < c} = {5000}" by (auto simp: RECORDTHRESH_def)
  have "\<exists>s'. callibrate sample_timing = ok s' \<and> cyc_per_tick s' = (let best = {5000 :: real} in if best = {} then 0 else Min best)"
    unfolding best [symmetric]
    by (rule callibrate_finds_minimum) (use jump u cpt in \<open>simp_all add: THRESHOLD_def del: snth.simps\<close>)
  then show ?thesis by simp
qed

text \<open>
  C31: On a machine whose user time stands still \<^verbatim>\<open>callibrate\<close> waits forever for its events; so does
  \<^verbatim>\<open>fcyc\<close> with compensation switched on, whatever function it is to time.
\<close>

theorem timing_hangs:
  assumes "\<And>i. utimes s !! i \<le> utimes s !! 0" "compensate s \<noteq> 0" "cyc_per_tick s = 0"
    and "clear_cache s \<noteq> 0 \<longrightarrow> clear_ready cmalloc s"
  shows "callibrate s = None \<and> fcyc cmalloc refused f s u = None"
  by (intro conjI callibrate_hangs [OF assms(1)] fcyc_hangs [OF assms(2,3,4,1)])

theorem timing_hangs_witness:
  "fcyc (\<lambda>_. 0) False (\<lambda>u. ok u) (sample_timing\<lparr>utimes := sconst 7, compensate := 1\<rparr>) () = None"
  using timing_hangs [of "sample_timing\<lparr>utimes := sconst 7, compensate := 1\<rparr>" "\<lambda>_. 0" False "\<lambda>u. ok u" "()"]
  by (simp add: sample_timing_def)

text \<open>
  C32: \<^verbatim>\<open>clear\<close> stays inside its buffer and returns, changing nothing but the buffer pointer and \<^verbatim>\<open>sink\<close>,
  when a cache block holds at least one \<^verbatim>\<open>int\<close>. With a smaller block the step of its loop is zero,
  and it does not return.
\<close>

theorem clear_reads_buffer:
  assumes "0 \<le> cache_block s" "cache_block s < 2 ^ 31" "4 \<le> cache_bytes s" "cache_bytes s < 2 ^ 31"
    and "buffer_at cmalloc s \<noteq> 0" "unat (buffer_at cmalloc s) + nat (cache_bytes s) + nat (cache_block s) < 2 ^ 32"
  shows "if 4 \<le> cache_block s then \<exists>x. clear cmalloc s = ok (s\<lparr>cache_buf := buffer_at cmalloc s, sink := x\<rparr>)
         else clear cmalloc s = None"
proof (cases "4 \<le> cache_block s")
  case True
  then show ?thesis using clear_ok [of cmalloc s] assms by (simp add: clear_ready_def)
next
  case False
  then show ?thesis using clear_hangs [of s cmalloc] assms by simp
qed

theorem clear_reads_buffer_witness:
  "(\<exists>x. clear (\<lambda>_. 4096) sample_timing = ok (sample_timing\<lparr>cache_buf := 4096, sink := x\<rparr>))
   \<and> clear (\<lambda>_. 4096) (set_fcyc_cache_block 2 sample_timing) = None"
  using clear_reads_buffer [of sample_timing "\<lambda>_. 4096"] clear_reads_buffer [of "set_fcyc_cache_block 2 sample_timing" "\<lambda>_. 4096"]
  by (simp add: sample_timing_def buffer_at_def set_fcyc_cache_block_def)

text \<open>
  C33: What the timers compute. \<^verbatim>\<open>get_counter\<close> puts the difference of two 64-bit readings together from
  halves with a borrow: it is their difference modulo \<open>2 ^ 64\<close>. \<^verbatim>\<open>mhz\<close> divides it by the time slept.
  \<^verbatim>\<open>ftimer_gettod\<close> and \<^verbatim>\<open>ftimer_itimer\<close> return the time elapsed on their clock divided by the number of
  runs; the interval timer runs down, and its initial value cancels.
\<close>

theorem timers_measure_elapsed_time:
  "fst (get_counter (start_counter s)) = of_int ((counter_val (tsc s !! 1) - counter_val (tsc s !! 0)) mod 2 ^ 64)
   \<and> fst (mhz s) = of_int ((counter_val (tsc s !! 1) - counter_val (tsc s !! 0)) mod 2 ^ 64) / 2000000
   \<and> map_option (map_sum id fst) (ftimer_gettod f n ts u)
      = map_option (map_sum id (\<lambda>_. (instant (tods ts !! 1) - instant (tods ts !! 0)) / real n)) (repeat_run n f u)
   \<and> map_option (map_sum id fst) (ftimer_itimer f n ts u)
      = map_option (map_sum id (\<lambda>_. (instant (real_timer ts !! 0) - instant (real_timer ts !! 1)) / real n)) (repeat_run n f u)"
  by (simp only: counter_reading counter_diff_val mhz_def mhz_rate ftimer_gettod_ok ftimer_itimer_ok time_of_run) simp

section \<open>The segregated-list allocator\<close>

text \<open>
  C8: \<^verbatim>\<open>mm_free\<close> of \<^verbatim>\<open>mm.c\<close> refines \<open>join_blocks\<close>. Under the invariant (boundary tags up to the
  reallocation bit of footers, no free neighbours, every free block in the list of its class and
  nowhere else) it returns, joins the block with its free neighbours, takes those off their lists
  and files the result, and leaves the payloads of the other blocks alone.
\<close>

theorem mm_c_free_refines:
  assumes "seg_inv s (xs @ (n, True) # ys)" "join_blocks xs n ys = (xs', n', ys')"
  shows "\<exists>s'. seg_mm_free (w32 (start_of s + 16 + extent xs)) s = ok s'
    \<and> seg_inv s' (xs' @ (n', False) # ys') \<and> seg_frame s s'
    \<and> kept (seg_payloads s (xs' @ (n', False) # ys')) (heap_bytes s) (heap_bytes s')"
  by (rule seg_free_inv [OF assms])

theorem mm_c_free_refines_witness:
  "\<exists>s s'. seg_inv s [(16, True), (4080, False)] \<and> seg_mm_free (w32 (start_of s + 16)) s = ok s'
     \<and> seg_inv s' [(4096, False)]"
proof -
  obtain s where s: "seg_inv s ([] @ (16, True) # [(4080, False)])" using seg_one_block by auto
  have "join_blocks [] 16 [(4080, False)] = ([], 4096, [])" by (simp add: join_blocks_def join_next_def)
  from mm_c_free_refines [OF s this] s show ?thesis by auto
qed

text \<open>
  C34: \<^verbatim>\<open>extend_heap\<close> of \<^verbatim>\<open>mm.c\<close> with room in the arena: the break moves by the size asked for, the new
  area joins a free last block, and the invariant holds of the longer heap.
\<close>

theorem mm_c_extend_refines:
  assumes "seg_inv s bs" "16 \<le> e" "8 dvd e" "e < 2 ^ 31" "brk_of s + e \<le> top_of s"
    and "join_blocks bs e [] = (xs', n', ys')"
  shows "\<exists>s'. seg_extend_heap (w32 (e div 4)) s = ok (w32 (start_of s + 16 + extent xs'), s')
    \<and> seg_inv s' (xs' @ [(n', False)]) \<and> mem_start_brk s' = mem_start_brk s \<and> mem_max_addr s' = mem_max_addr s
    \<and> brk_of s' = brk_of s + e \<and> kept (seg_payloads s bs) (heap_bytes s) (heap_bytes s')"
  by (rule seg_extend_inv [OF assms])

theorem mm_c_extend_refines_witness:
  "\<exists>s s'. seg_inv s [(4096, False)] \<and> seg_extend_heap (w32 16) s = ok (w32 (start_of s + 16), s')
     \<and> seg_inv s' [(4160, False)]"
proof -
  obtain s where s: "seg_inv s [(4096, False)]" "start_of s = 4096" "top_of s = 20975616" using seg_built by auto
  have "brk_of s = 8208" using s(1,2) by (simp add: seg_inv_def seg_heap_def)
  moreover have "join_blocks [(4096, False)] 64 [] = ([], 4160, [])" by (simp add: join_blocks_def join_next_def)
  ultimately show ?thesis using mm_c_extend_refines [OF s(1), of 64 "[]" 4160 "[]"] s by auto
qed

text \<open>
  C35: From the heap \<^verbatim>\<open>mm_init\<close> builds, every sequence of \<^verbatim>\<open>place\<close> and \<^verbatim>\<open>mm_free\<close> calls that applies to the
  list of blocks runs to its end and leaves the blocks \<open>block_run\<close> computes, whatever the order.
  Yet in each heap reached this way \<^verbatim>\<open>mm_malloc\<close> does not return for any positive size.
\<close>

theorem mm_c_runs_refine:
  assumes "arena_ok s" "mem_brk s = mem_start_brk s" "block_run ps [(4096, False)] = Some bs"
  shows "\<exists>s1 s2. seg_mm_init s = ok (0, s1)
    \<and> heap_run seg_place seg_mm_free (start_of s + 16) ps [(4096, False)] s1 = ok s2 \<and> seg_inv s2 bs
    \<and> (\<forall>ptr n. 0 < n \<longrightarrow> seg_mm_malloc ptr n s2 = None)"
proof -
  obtain s1 where s1: "seg_mm_init s = ok (0, s1)" "start_of s1 = start_of s" "seg_inv s1 [(4096, False)]"
    using seg_mm_init_fresh [OF assms(1,2)] seg_fresh_inv by blast
  from segb.run_refines [OF s1(3) assms(3)] s1(1,2) seg_inv_malloc_diverges show ?thesis by fastforce
qed

theorem mm_c_runs_refine_witness:
  "\<exists>s1 s2. seg_mm_init empty_seg = ok (0, s1)
    \<and> heap_run seg_place seg_mm_free 4112 [Place 0 16, Place 1 32, Release 0, Release 1] [(4096, False)] s1 = ok s2
    \<and> seg_inv s2 [(4096, False)]"
proof -
  have "block_run [Place 0 16, Place 1 32, Release 0, Release 1] [(4096, False)] = Some [(4096, False)]"
    by (simp add: place_blocks_def join_blocks_def join_next_def)
  from mm_c_runs_refine [OF empty_arenas_ok(1,2) this] show ?thesis by (auto simp: empty_seg_def)
qed

text \<open>
  C9: \<^verbatim>\<open>mm_realloc\<close> of \<^verbatim>\<open>mm.c\<close> refines \<open>absorb\<close>: a block that is large enough stays as it is, otherwise it takes
  all of a free block behind it. The pointer stays the same, so do the bytes of every payload, and the
  invariant holds up to the reallocation tag in the next header, which is set when fewer than
  \<^verbatim>\<open>2*BUFFER\<close> bytes are to spare. \<^verbatim>\<open>mm_free\<close> of the block works as if the tag was not there. The comment at
  the head of the file describes something else, a call of \<^verbatim>\<open>mm_malloc\<close> followed by one of \<^verbatim>\<open>mm_free\<close>.
\<close>

theorem mm_c_realloc_refines:
  assumes "seg_inv s (xs @ (n, True) # ys)" "0 < sz" "sz < 2 ^ 30" "n + fst (next_blk ys) < 2 ^ 30"
    and "absorb (realloc_size sz) n ys = Some (k, zs)"
  shows "\<exists>s' t. seg_mm_realloc ptr (w32 (start_of s + 16 + extent xs)) (w32 sz) s = ok (w32 (start_of s + 16 + extent xs), t)
    \<and> t = mark_if (k < realloc_size sz + 256) (start_of s + 12 + extent xs + k) s'
    \<and> seg_inv s' (xs @ (k, True) # zs) \<and> seg_frame s s'
    \<and> kept (seg_payloads s (xs @ (n, True) # ys)) (heap_bytes s) (heap_bytes s')
    \<and> seg_mm_free (w32 (start_of s + 16 + extent xs)) t = seg_mm_free (w32 (start_of s + 16 + extent xs)) s'"
  using seg_realloc_then_free [OF assms] by blast

theorem mm_c_realloc_refines_witness:
  "\<exists>s s' t. seg_inv s [(16, True), (4080, False)] \<and> seg_inv s' [(4096, True)]
     \<and> seg_mm_realloc 0 (w32 (start_of s + 16)) (w32 100) s = ok (w32 (start_of s + 16), t)
     \<and> seg_mm_free (w32 (start_of s + 16)) t = seg_mm_free (w32 (start_of s + 16)) s'"
proof -
  obtain s where s: "seg_inv s ([] @ (16, True) # [(4080, False)])" using seg_one_block by auto
  have "absorb (realloc_size 100) 16 [(4080, False)] = Some (4096, [])"
    by (simp add: absorb_def realloc_size_def asize_of_def)
  from mm_c_realloc_refines [OF s _ _ _ this, of 0] s show ?thesis by (auto simp: next_blk_def)
qed

text \<open>
  C36: \<^verbatim>\<open>mm_realloc\<close> of \<^verbatim>\<open>mm.c\<close> when the block has to grow by more than a free block behind it. In front of
  an allocated block it does not return. In front of a free block that is too small, or of the end of
  the heap, it asks for four times \<open>realloc_extension\<close> bytes. If the arena does not have them, the
  result is NULL and nothing changes. If it has, the heap grows by all of them, and the block is made longer by the
  size of the next block and \<open>realloc_extension\<close> bytes, wherever the new area is: behind a small free
  block the result covers the payload of the block in use that follows. The last hypothesis excludes the
  wrap-around of the break.
\<close>

theorem mm_c_realloc_breaks:
  assumes "seg_inv s (xs @ (n, True) # ys)" "next_blk ys = (j, f)" "0 < sz" "sz < 2 ^ 30" "n + j < 2 ^ 30"
    and "absorb (realloc_size sz) n ys = None" "x = realloc_extension (realloc_size sz) (n + j)"
    and "brk_of s + 4 * x < 2 ^ 32"
  shows "if f \<and> j \<noteq> 0 then seg_mm_realloc ptr (w32 (start_of s + 16 + extent xs)) (w32 sz) s = None
    else if top_of s < brk_of s + 4 * x \<or> 2 ^ 31 \<le> 4 * x
      then seg_mm_realloc ptr (w32 (start_of s + 16 + extent xs)) (w32 sz) s = ok (0, s)
    else \<exists>s'. seg_mm_realloc ptr (w32 (start_of s + 16 + extent xs)) (w32 sz) s
          = ok (w32 (start_of s + 16 + extent xs), s')
      \<and> GET_SIZE (HDRP (w32 (start_of s + 16 + extent xs))) s' = ok (w32 (n + j + x))
      \<and> brk_of s' = brk_of s + 4 * x
      \<and> (\<forall>l zs. ys = (j, False) # (l, True) # zs \<longrightarrow>
           (\<exists>q c. (q, c) \<in> set (seg_payloads s (xs @ (n, True) # ys)) \<and> start_of s + 16 + extent xs < q
              \<and> q + 8 < start_of s + 16 + extent xs + (n + j + x)))"
  by (rule seg_realloc_breaks [OF assms])

theorem mm_c_realloc_breaks_witness:
  "\<exists>s s'. seg_inv s [(16, True), (4080, False)] \<and> brk_of s = 8208 \<and> brk_of s' = 24592
     \<and> seg_mm_realloc 0 (w32 4112) (w32 5000) s = ok (w32 4112, s') \<and> GET_SIZE (HDRP (w32 4112)) s' = ok (w32 8192)
     \<and> seg_mm_realloc 0 (w32 4112) (w32 8000000) s = ok (0, s)"
proof -
  obtain s where s: "seg_inv s ([] @ (16, True) # [(4080, False)])" "start_of s = 4096" "top_of s = 20975616" "brk_of s = 8208"
    using seg_one_block by auto
  have a: "next_blk [(4080, False)] = (4080, False)" "absorb (realloc_size 5000) 16 [(4080, False)] = None"
    "4096 = realloc_extension (realloc_size 5000) (16 + 4080)" "absorb (realloc_size 8000000) 16 [(4080, False)] = None"
    "7996040 = realloc_extension (realloc_size 8000000) (16 + 4080)"
    by (simp_all add: next_blk_def absorb_def realloc_size_def asize_of_def realloc_extension_def)
  from mm_c_realloc_breaks [OF s(1) a(1) _ _ _ a(4,5), of 0] s
  have "seg_mm_realloc 0 (w32 4112) (w32 8000000) s = ok (0, s)" by simp
  with mm_c_realloc_breaks [OF s(1) a(1) _ _ _ a(2,3), of 0] s show ?thesis by (auto simp del: HDRP_w32)
qed

text \<open>
  C37: The segregated-list package under the driver: \<^verbatim>\<open>mm_init\<close> returns 0 and leaves one free block of
  \<^verbatim>\<open>CHUNKSIZE\<close> bytes in list 12; but \<^verbatim>\<open>mm_malloc\<close> never increments \<^verbatim>\<open>list\<close>, so on that heap it does
  not return for any positive size. The check of a trace that begins with such an allocation does not
  return, and when it is the first trace, neither does \<^verbatim>\<open>main\<close>.
\<close>

theorem mm_c_never_serves:
  assumes "arena_ok s"
  shows "(\<exists>s'. seg_mm_init (mem_reset_brk s) = ok (0, s') \<and> seg_fresh s'
      \<and> (\<forall>ptr n. 0 < n \<longrightarrow> seg_mm_malloc ptr n s' = None))
    \<and> (\<forall>op rest. ops tr = op # rest \<and> op_type op = ALLOC \<and> (word_of_int (op_size op) :: u32) \<noteq> 0
      \<longrightarrow> eval_mm_valid (seg_package ptr) oom tr t rs d s = None)
    \<and> (\<forall>e o1 files. started e o1 files \<and> allocates_first e o1 files
      \<longrightarrow> mdriver_main lc (seg_package ptr) e h s = None)"
proof (intro conjI allI impI)
  show "\<exists>s'. seg_mm_init (mem_reset_brk s) = ok (0, s') \<and> seg_fresh s' \<and> (\<forall>ptr n. 0 < n \<longrightarrow> seg_mm_malloc ptr n s' = None)"
    by (rule seg_init_hangs [OF assms])
qed (auto intro: seg_valid_diverges [OF assms] seg_main_diverges)

theorem mm_c_never_serves_witness:
  "eval_mm_valid (seg_package 0) (\<lambda>_. False) sample_trace 0 [] \<lparr>errors = 0, printed = []\<rparr> empty_seg = None
    \<and> mdriver_main sample_libc (seg_package 0) (readme_env seg_team) () empty_seg = None"
proof -
  note hangs = mm_c_never_serves [of empty_seg sample_trace 0 "\<lambda>_. False" 0 "[]" "\<lparr>errors = 0, printed = []\<rparr>" sample_libc "()"]
  have "eval_mm_valid (seg_package 0) (\<lambda>_. False) sample_trace 0 [] \<lparr>errors = 0, printed = []\<rparr> empty_seg = None"
    using hangs by (simp add: sample_trace_def sample_ops_def)
  moreover have "mdriver_main sample_libc (seg_package 0) (readme_env seg_team) () empty_seg = None"
    using hangs readme_started [of seg_team] readme_allocates [of seg_team] by simp blast
  ultimately show ?thesis ..
qed

text \<open>
  C38: \<^verbatim>\<open>insert_block\<close> puts the block in front of the list of its size class: the search compares with what
  is left of the size after the shifts, which is 1 below \<open>2 ^ 20\<close> bytes, and stops at the first block that is at least that large.
  The result is a doubly linked list, and only links of the new block and of the block that was first
  are written.
\<close>

theorem insert_block_pushes:
  assumes "dlist (heap_bytes s) 0 (sgrlists s ! l) xs" "nodes_ok s (a # xs)"
    and "select_list 0 sz = (l, z)" "l < length (sgrlists s)"
    and "sgrlists s ! l = 0 \<or> (\<exists>k. GET_SIZE (HDRP (sgrlists s ! l)) s = ok k \<and> z \<le> k)"
  shows "(0 < unat sz \<and> unat sz < 2 ^ 20 \<longrightarrow> z = 1)
    \<and> (\<exists>m. seg_insert_block (w32 a) sz s = ok (s\<lparr>heap_bytes := m, sgrlists := (sgrlists s)[l := w32 a]\<rparr>)
      \<and> dlist m 0 (w32 a) (a # xs) \<and> only_nodes (a # take 1 xs) (heap_bytes s) m)"
  using seg_insert_front [OF assms(1-3,5)] push_mem_dlist(1) [OF assms(1,2)] push_mem_only select_list_one [OF _ _ assms(3)]
  by (auto simp: set_head_def)

theorem insert_block_pushes_witness:
  "\<exists>m. seg_insert_block (w32 4112) (w32 64) one_free = ok (one_free\<lparr>heap_bytes := m, sgrlists := (sgrlists one_free)[6 := w32 4112]\<rparr>)
     \<and> dlist m 0 (w32 4112) [4112, 4176]"
  using insert_block_pushes [OF one_free_list(1,2,4,5) one_free_front] by blast

text \<open>
  C39: \<^verbatim>\<open>coalesce\<close> of the segregated-list package destroys an allocated block: with a free block that carries
  the reallocation tag in front (\<open>mark\<close>) and an allocated block behind, neither of the first two cases
  applies, and the last one merges all three. The allocated block is one whose first two words are
  zero, so that \<^verbatim>\<open>delete_block\<close> takes it for the only block of its list. Afterwards the boundary tags
  show one free block in place of the three, the lists hold it and the other free blocks except those of the
  class of the allocated block, the tag is kept, and so are the payloads of all other blocks.
\<close>

theorem coalesce_destroys_allocated:
  assumes "seg_heap s (xs @ (p, False) # (n, False) # (k, True) # ys)"
    and "listed s (seg_frees s (xs @ (p, False) # (n, False) # (k, True) # ys))"
    and "x = start_of s + 12 + extent xs"
    and "load32 (heap_bytes s) (x + p + n + 4) = 0" "load32 (heap_bytes s) (x + p + n + 8) = 0"
    and "F = {(a, m) \<in> seg_frees s (xs @ (p, False) # (n, False) # (k, True) # ys) - {(x + p + 4, n)} - {(x + 4, p)}.
      size_class m \<noteq> size_class k}"
  shows "\<exists>s'. seg_coalesce (w32 (x + p + 4)) (mark x s) = ok (w32 (x + 4), mark x s')
    \<and> seg_heap s' (xs @ (p + n + k, False) # ys) \<and> listed s' (insert (x + 4, p + n + k) F)
    \<and> seg_frame s s' \<and> kept (seg_payloads s (xs @ (p + n + k, False) # ys)) (heap_bytes s) (heap_bytes s')"
  by (rule seg_coalesce_destroys [OF assms])

theorem coalesce_destroys_allocated_witness:
  "\<exists>s'. seg_coalesce (w32 4128) (mark 4108 three_heap) = ok (w32 4112, mark 4108 s')
     \<and> seg_heap s' [(48, False)] \<and> listed s' {(4112, 48)}"
proof -
  have h: "seg_heap three_heap ([] @ (16, False) # (16, False) # (16, True) # [])"
    "listed three_heap (seg_frees three_heap ([] @ (16, False) # (16, False) # (16, True) # []))"
    "4108 = start_of three_heap + 12 + extent []" "load32 (heap_bytes three_heap) (4108 + 16 + 16 + 4) = 0"
    "load32 (heap_bytes three_heap) (4108 + 16 + 16 + 8) = 0"
    using three_heap_tags three_heap_listed three_heap_zero by (simp_all only: three_heap_frees) simp_all
  have "{(a, m) \<in> seg_frees three_heap ([] @ (16, False) # (16, False) # (16, True) # [])
      - {(4108 + 16 + 4, 16)} - {(4108 + 4, 16)}. size_class m \<noteq> size_class 16} = {}"
    unfolding three_heap_frees by auto
  from coalesce_destroys_allocated [OF h this [symmetric]] show ?thesis by auto
qed

section \<open>The explicit-list allocator\<close>

text \<open>
  C40: The explicit-list package under the driver, on a zeroed arena: \<^verbatim>\<open>mm_init\<close> returns 0, every
  \<^verbatim>\<open>mm_malloc\<close> then reads through a NULL pointer (at address \<open>-4\<close>) inside \<^verbatim>\<open>mm_check\<close>, and so does the
  check of a trace that begins with an allocation; the program ends there when it is the first trace.
\<close>

theorem mm2_c_faults:
  assumes "arena_ok s" "load32 (heap_bytes s) (start_of s + 16) = 0"
  shows "(\<exists>s'. xl_mm_init (mem_reset_brk s) = ok (0, s') \<and> (\<forall>n. xl_mm_malloc n s' = fail (Segv (- 4))))
    \<and> (\<forall>op rest. ops tr = op # rest \<and> op_type op = ALLOC
      \<longrightarrow> eval_mm_valid xl_package oom tr t rs d s = fail (Segv (- 4)))
    \<and> (\<forall>e o1 files. started e o1 files \<and> allocates_first e o1 files \<and> unat (e_arena e) = start_of s
      \<longrightarrow> mdriver_main lc xl_package e h s = fail (Segv (- 4)))"
proof (intro conjI allI impI)
  show "\<exists>s'. xl_mm_init (mem_reset_brk s) = ok (0, s') \<and> (\<forall>n. xl_mm_malloc n s' = fail (Segv (- 4)))"
    by (rule xl_init_faults [OF assms])
qed (use assms(2) in \<open>auto intro: xl_valid_faults [OF assms] xl_main_faults\<close>)

theorem mm2_c_faults_witness:
  "eval_mm_valid xl_package (\<lambda>_. False) sample_trace 0 [] \<lparr>errors = 0, printed = []\<rparr> empty_xl = fail (Segv (- 4))
    \<and> mdriver_main sample_libc xl_package (readme_env xl_team) () empty_xl = fail (Segv (- 4))"
proof -
  note faults = mm2_c_faults [of empty_xl sample_trace "\<lambda>_. False" 0 "[]" "\<lparr>errors = 0, printed = []\<rparr>" sample_libc "()"]
  have zero: "load32 (heap_bytes empty_xl) (start_of empty_xl + 16) = 0" by (simp add: empty_xl_def)
  have "unat (e_arena (readme_env xl_team)) = start_of empty_xl" by (simp add: empty_xl_def readme_env_def)
  then have "mdriver_main sample_libc xl_package (readme_env xl_team) () empty_xl = fail (Segv (- 4))"
    using faults [OF _ zero] readme_started [of xl_team] readme_allocates [of xl_team] by simp blast
  moreover have "eval_mm_valid xl_package (\<lambda>_. False) sample_trace 0 [] \<lparr>errors = 0, printed = []\<rparr> empty_xl = fail (Segv (- 4))"
    using faults [OF _ zero] by (simp add: sample_trace_def sample_ops_def)
  ultimately show ?thesis by simp
qed

end
